(* ===== verification/Prelude.thy ===== *)
theory Prelude
  imports Main "HOL-Library.Word"
begin

text \<open>
  Shared vocabulary of the development: names for the machine types of the C sources,
  the result type in which every operation of the model returns, the compiler builtins
  the sources use, and the lemmas on words, bit ranges and lists that the component
  theories share.

  A C call that returns normally is \<open>Ok\<close>; a failed \<open>arax_assert\<close>, a lock that can never be
  granted, a wait that only another thread could end, an access to memory that is not
  there are each a \<open>Fault\<close> with its own reason.
\<close>

unbundle bit_operations_syntax

type_synonym u16 = "16 word"
type_synonym u32 = "32 word"
type_synonym u64 = "64 word"
type_synonym addr = "64 word"

named_theorems res_simps \<open>unfolding of the result type\<close>
named_theorems bits_simps \<open>bit ranges of masks and chunks\<close>

section \<open>Results\<close>

datatype fault =
    Assert_failed string   \<comment> \<open>\<open>arax_assert\<close> called \<open>abort()\<close>\<close>
  | Deadlock string        \<comment> \<open>spins on a lock nobody will release\<close>
  | Blocked string         \<comment> \<open>sleeps until another thread acts\<close>
  | Bad_access string      \<comment> \<open>null, dangling or ill-typed access\<close>
  | Exited                 \<comment> \<open>\<open>exit(1)\<close>\<close>
  | Uncaught string        \<comment> \<open>a C++ exception no handler takes\<close>
  | Out_of_fuel            \<comment> \<open>the model's recursion bound was too small\<close>

datatype 'a res = Ok 'a | Fault fault

primrec rbind :: "'a res \<Rightarrow> ('a \<Rightarrow> 'b res) \<Rightarrow> 'b res" where
  "rbind (Ok x) f = f x"
| "rbind (Fault e) f = Fault e"

definition is_ok :: "'a res \<Rightarrow> bool" where
  "is_ok r = (case r of Ok _ \<Rightarrow> True | Fault _ \<Rightarrow> False)"

lemma is_ok_simps [simp]: "is_ok (Ok x)" "\<not> is_ok (Fault e)"
  by (simp_all add: is_ok_def)

lemma is_ok_iff: "is_ok r \<longleftrightarrow> (\<exists>x. r = Ok x)"
  by (cases r) auto

lemma rbind_Ok_iff [res_simps]: "rbind m f = Ok y \<longleftrightarrow> (\<exists>x. m = Ok x \<and> f x = Ok y)"
  by (cases m) auto

lemma rbind_Fault_iff: "rbind m f = Fault e \<longleftrightarrow> m = Fault e \<or> (\<exists>x. m = Ok x \<and> f x = Fault e)"
  by (cases m) auto

lemma rbind_assoc: "rbind (rbind m f) g = rbind m (\<lambda>x. rbind (f x) g)"
  by (cases m) auto

lemma rbind_cong [fundef_cong]:
  "m = n \<Longrightarrow> (\<And>x. n = Ok x \<Longrightarrow> f x = g x) \<Longrightarrow> rbind m f = rbind n g"
  by (cases n) auto

section \<open>Assertions\<close>

text \<open>
  \<open>_arax_assert\<close> of \<open>utils/arax_assert.c\<close>: prints a backtrace and aborts when its first
  argument is non-zero. The macro \<open>arax_assert(EXPR)\<close> passes \<open>!(EXPR)\<close> and the text of the
  expression.

  The macro \<open>arax_assert_obj\<close> of \<open>utils/arax_assert.h\<close> is different: it expands to the
  \<^emph>\<open>declaration\<close> of \<open>_arax_assert_obj\<close> and not to a call, so no object check written with it
  is ever executed. The models of the functions that mention it contain no check there.
\<close>

definition arax_assert_fn :: "bool \<Rightarrow> string \<Rightarrow> unit res" where
  "arax_assert_fn fail expr = (if fail then Fault (Assert_failed expr) else Ok ())"

definition arax_assert :: "bool \<Rightarrow> string \<Rightarrow> unit res" where
  "arax_assert e expr = arax_assert_fn (\<not> e) expr"

lemma arax_assert_simps [simp]:
  "arax_assert True m = Ok ()" "arax_assert False m = Fault (Assert_failed m)"
  by (simp_all add: arax_assert_def arax_assert_fn_def)

lemma arax_assert_Ok [simp]: "arax_assert e m = Ok u \<longleftrightarrow> e"
  by (cases e) auto

section \<open>Compiler builtins on 64 bit words\<close>

text \<open>\<open>__builtin_popcountl\<close> and \<open>__builtin_clzl\<close> (the latter is only called on non-zero words).\<close>

definition popcountl :: "u64 \<Rightarrow> nat" where
  "popcountl w = length (filter (bit w) [0..<64])"

definition clzl :: "u64 \<Rightarrow> nat" where
  "clzl w = length (takeWhile (\<lambda>i. \<not> bit w i) (rev [0..<64]))"

lemma bit_u64_less: "bit (w :: u64) n \<Longrightarrow> n < 64"
  using bit_imp_le_length [of w n] by simp

lemma popcountl_card: "popcountl w = card {k. bit w k}"
proof -
  have "popcountl w = card (set (filter (bit w) [0..<64]))"
    unfolding popcountl_def by (rule distinct_card [symmetric]) simp
  also have "set (filter (bit w) [0..<64]) = {k. bit w k}"
    by (auto dest: bit_u64_less)
  finally show ?thesis .
qed

lemma finite_word_bits [simp]: "finite {k. bit (w :: u64) k}"
  by (rule finite_subset [of _ "{..<64}"]) (auto dest: bit_u64_less)

lemma popcountl_le: "popcountl w \<le> 64"
proof -
  have "card {k. bit w k} \<le> card {..<64::nat}"
    by (rule card_mono) (auto dest: bit_u64_less)
  then show ?thesis by (simp add: popcountl_card)
qed

lemma popcountl_0 [simp]: "popcountl 0 = 0"
  by (simp add: popcountl_card)

lemma popcountl_eq_64: "popcountl w = 64 \<longleftrightarrow> w = -1"
proof
  assume "popcountl w = 64"
  moreover have "{k. bit w k} \<subseteq> {..<64}" by (auto dest: bit_u64_less)
  ultimately have "{k. bit w k} = {..<64}"
    by (intro card_subset_eq) (auto simp: popcountl_card)
  then show "w = -1" by (intro bit_word_eqI) (auto simp: set_eq_iff)
next
  assume "w = -1"
  then have "{k. bit w k} = {..<64}" by (auto dest: bit_u64_less)
  then show "popcountl w = 64" by (simp add: popcountl_card)
qed

lemma takeWhile_length_iff:
  "k < length (takeWhile P xs) \<longleftrightarrow> k < length xs \<and> (\<forall>j\<le>k. P (xs ! j))"
proof (induction xs arbitrary: k)
  case Nil
  show ?case by simp
next
  case (Cons x xs)
  show ?case
  proof (cases k)
    case 0
    then show ?thesis by simp
  next
    case (Suc m)
    have "(\<forall>j\<le>Suc m. P ((x # xs) ! j)) \<longleftrightarrow> P x \<and> (\<forall>j\<le>m. P (xs ! j))"
      by (auto simp: nth_Cons split: nat.splits)
    with Suc Cons.IH [of m] show ?thesis by auto
  qed
qed

lemma clzl_le: "clzl w \<le> 64"
  unfolding clzl_def using length_takeWhile_le [of _ "rev [0..<64]"] by (metis length_rev length_upt minus_nat.diff_0)

lemma less_clzl_iff: "k < clzl w \<longleftrightarrow> k < 64 \<and> (\<forall>j\<le>k. \<not> bit w (63 - j))"
  unfolding clzl_def by (auto simp: takeWhile_length_iff rev_nth)

lemma clzl_top_clear: "64 - clzl w \<le> j \<Longrightarrow> \<not> bit w j"
proof
  assume j: "64 - clzl w \<le> j" and b: "bit w j"
  from b have "j < 64" by (rule bit_u64_less)
  with j have "63 - j < clzl w" by linarith
  with less_clzl_iff [of "63 - j" w] have "\<not> bit w (63 - (63 - j))" by blast
  with \<open>j < 64\<close> b show False by simp
qed

lemma clzl_pos_if: "\<not> bit w 63 \<Longrightarrow> 0 < clzl w"
  by (simp add: less_clzl_iff)

lemma clzl_less: "w \<noteq> 0 \<Longrightarrow> clzl w < 64"
proof (rule ccontr)
  assume w: "w \<noteq> 0" and "\<not> clzl w < 64"
  then have "clzl w = 64" using clzl_le [of w] by simp
  then have "\<not> bit w j" for j using clzl_top_clear [of w j] by simp
  with w show False by (metis bit_eqI bit_0_eq bot_apply bot_bool_def)
qed

lemma popcountl_clzl: "popcountl w \<le> 64 - clzl w"
proof -
  have "{k. bit w k} \<subseteq> {..<64 - clzl w}"
    using clzl_top_clear [of w] by (auto simp: not_le [symmetric])
  then have "card {k. bit w k} \<le> card {..<64 - clzl w}" by (rule card_mono [rotated]) simp
  then show ?thesis by (simp add: popcountl_card)
qed

section \<open>Masks\<close>

text \<open>The two mask shapes of the bitmap code, by their bits.\<close>

lemma pow_minus_1_mask [bits_simps]: "(2 :: u64) ^ n - 1 = mask n"
  by (simp add: mask_eq_exp_minus_1)

lemma mask_64 [simp]: "(mask 64 :: u64) = -1"
  by (rule bit_word_eqI) (simp add: bit_simps)

lemma bit_mask_u64 [bits_simps]: "bit (mask n :: u64) k \<longleftrightarrow> k < n \<and> k < 64"
  by (auto simp: bit_simps)

lemma bit_high_mask [bits_simps]:
  "bit (push_bit n (-1) :: u64) k \<longleftrightarrow> n \<le> k \<and> k < 64"
  "bit (NOT (mask n) :: u64) k \<longleftrightarrow> n \<le> k \<and> k < 64"
  by (auto simp: bit_simps)

lemma bit_shifted_mask [bits_simps]:
  "bit (push_bit s (mask n) :: u64) k \<longleftrightarrow> s \<le> k \<and> k < s + n \<and> k < 64"
  by (auto simp: bit_simps)

lemma and_eq_0_iff_u64: "(v :: u64) AND w = 0 \<longleftrightarrow> (\<forall>k. \<not> (bit v k \<and> bit w k))"
  by (auto simp: bit_eq_iff bit_simps dest: bit_u64_less)

lemma and_eq_self_iff_u64: "(v :: u64) AND w = w \<longleftrightarrow> (\<forall>k. bit w k \<longrightarrow> bit v k)"
  by (auto simp: bit_eq_iff bit_simps dest: bit_u64_less)

lemma u64_eq_0_iff: "(w :: u64) = 0 \<longleftrightarrow> (\<forall>k. \<not> bit w k)"
  by (metis bit_0_eq bit_eqI bot_apply bot_bool_def)

lemma u64_eq_m1_iff: "(w :: u64) = -1 \<longleftrightarrow> (\<forall>k<64. bit w k)"
  by (auto intro!: bit_word_eqI)

lemma lt_64_unat: "unat (w :: u64) < 2 ^ 64"
  using unsigned_less [of w, where 'a = nat] by simp

lemma unat_small [simp]: "x < 2 ^ 64 \<Longrightarrow> unat (of_nat x :: u64) = x"
  by (simp add: unat_of_nat)

lemma le_of_nat_u64: "x < 2 ^ 64 \<Longrightarrow> b \<le> (of_nat x :: u64) \<longleftrightarrow> unat b \<le> x"
  by (simp add: word_le_nat_alt)

lemma unat_sub_of_nat: "x \<le> unat b \<Longrightarrow> unat (b - of_nat x :: u64) = unat b - x"
  using lt_64_unat [of b] by (subst unat_sub) (simp_all add: word_le_nat_alt)

lemma or_eq_0_u64: "(v :: u64) OR w = 0 \<longleftrightarrow> v = 0 \<and> w = 0"
  by (auto simp: u64_eq_0_iff bit_or_iff)

lemma unat_and_63: "unat ((w :: u64) AND 63) = unat w mod 64"
proof -
  have "w AND 63 = take_bit 6 w" by (simp add: take_bit_eq_mask mask_eq_exp_minus_1)
  then show ?thesis by (simp add: take_bit_eq_mod unat_mod)
qed

lemma unat_div_64 [simp]: "unat ((w :: u64) div 64) = unat w div 64"
  by (simp add: unat_div)

lemma clzl_zero [simp]: "clzl 0 = 64"
  by (simp add: clzl_def takeWhile_eq_all_conv [THEN iffD2])

lemma unat_inc: "i < (n :: u64) \<Longrightarrow> unat (i + 1) = Suc (unat i)"
proof -
  assume "i < n"
  then have "unat i < unat n" by (simp add: word_less_nat_alt)
  then have "unat i + unat (1 :: u64) < 2 ^ LENGTH(64)" using lt_64_unat [of n] by simp
  from unat_add_lem [THEN iffD1, OF this] show ?thesis by simp
qed

section \<open>Decimal numbers\<close>

text \<open>\<open>printf\<close> of a non-negative \<open>int\<close> with \<open>%d\<close> or \<open>%ld\<close>.\<close>

fun dec_str :: "nat \<Rightarrow> string" where
  "dec_str n = (if n < 10 then [char_of (48 + n)] else dec_str (n div 10) @ [char_of (48 + n mod 10)])"

declare dec_str.simps [simp del]

end
