(* ===== verification/Spinlock.thy ===== *)
theory Spinlock
  imports Prelude
begin

text \<open>
  \<open>src/utils/spinlock.h\<close>. A lock is a 64 bit word, zero when free. The three operations are
  modelled twice:
  \<^item> as sequential functions, for the callers of other components: acquiring a lock that is
    already taken by the same flow of control spins for ever, which is the fault \<open>Deadlock\<close>;
  \<^item> as the interleaved steps of any number of threads on one lock, each step one shared
    memory access of the C code (the read of \<open>while (*lock)\<close>, the compare and swap, the
    read of the assertion and the atomic and of the unlock).
\<close>

section \<open>The sequential view\<close>

definition utils_spinlock_init :: u64 where
  "utils_spinlock_init = 0"

definition utils_spinlock_lock :: "u64 \<Rightarrow> u64 res" where
  "utils_spinlock_lock lock = (if lock \<noteq> 0 then Fault (Deadlock ''utils_spinlock_lock'') else Ok 1)"

definition utils_spinlock_unlock :: "u64 \<Rightarrow> u64 res" where
  "utils_spinlock_unlock lock =
     rbind (arax_assert (lock \<noteq> 0) ''*lock'') (\<lambda>_. Ok (lock AND 0))"

lemma utils_spinlock_simps [simp]:
  "utils_spinlock_lock 0 = Ok 1"
  "utils_spinlock_unlock 1 = Ok 0"
  "lock \<noteq> 0 \<Longrightarrow> utils_spinlock_lock lock = Fault (Deadlock ''utils_spinlock_lock'')"
  by (simp_all add: utils_spinlock_lock_def utils_spinlock_unlock_def)

lemma utils_spinlock_lock_Ok [res_simps]: "utils_spinlock_lock l = Ok l' \<longleftrightarrow> l = 0 \<and> l' = 1"
  by (auto simp: utils_spinlock_lock_def)

lemma utils_spinlock_unlock_Ok [res_simps]: "utils_spinlock_unlock l = Ok l' \<longleftrightarrow> l \<noteq> 0 \<and> l' = 0"
  by (auto simp: utils_spinlock_unlock_def res_simps)

section \<open>The interleaved view\<close>

text \<open>
  Where a thread is inside \<open>utils_spinlock_lock\<close>/\<open>utils_spinlock_unlock\<close>: outside, in the inner
  \<open>while\<close>, about to compare and swap, holding the lock, past the assertion of the unlock, or
  aborted by it.
\<close>

datatype spin_pc = Outside | Spinning | Trying | Holding | Releasing | Aborted

record spin_sys =
  spin_word :: u64
  spin_pcs :: "nat \<Rightarrow> spin_pc"

definition spin_init :: spin_sys where
  "spin_init = \<lparr>spin_word = utils_spinlock_init, spin_pcs = (\<lambda>_. Outside)\<rparr>"

inductive spin_step :: "spin_sys \<Rightarrow> nat \<Rightarrow> spin_sys \<Rightarrow> bool" where
  call_lock: "spin_pcs s i = Outside \<Longrightarrow> spin_step s i (s\<lparr>spin_pcs := (spin_pcs s)(i := Spinning)\<rparr>)"
| busy_wait: "spin_pcs s i = Spinning \<Longrightarrow> spin_word s \<noteq> 0 \<Longrightarrow> spin_step s i s"
| seen_free: "spin_pcs s i = Spinning \<Longrightarrow> spin_word s = 0 \<Longrightarrow>
    spin_step s i (s\<lparr>spin_pcs := (spin_pcs s)(i := Trying)\<rparr>)"
| cas_wins: "spin_pcs s i = Trying \<Longrightarrow> spin_word s = 0 \<Longrightarrow>
    spin_step s i (s\<lparr>spin_word := 1, spin_pcs := (spin_pcs s)(i := Holding)\<rparr>)"
| cas_fails: "spin_pcs s i = Trying \<Longrightarrow> spin_word s \<noteq> 0 \<Longrightarrow>
    spin_step s i (s\<lparr>spin_pcs := (spin_pcs s)(i := Spinning)\<rparr>)"
| unlock_check: "spin_pcs s i = Holding \<Longrightarrow> spin_word s \<noteq> 0 \<Longrightarrow>
    spin_step s i (s\<lparr>spin_pcs := (spin_pcs s)(i := Releasing)\<rparr>)"
| unlock_abort: "spin_pcs s i = Holding \<Longrightarrow> spin_word s = 0 \<Longrightarrow>
    spin_step s i (s\<lparr>spin_pcs := (spin_pcs s)(i := Aborted)\<rparr>)"
| unlock_clear: "spin_pcs s i = Releasing \<Longrightarrow>
    spin_step s i (s\<lparr>spin_word := spin_word s AND 0, spin_pcs := (spin_pcs s)(i := Outside)\<rparr>)"

inductive spin_reach :: "spin_sys \<Rightarrow> bool" where
  start: "spin_reach spin_init"
| step: "spin_reach s \<Longrightarrow> spin_step s i t \<Longrightarrow> spin_reach t"

inductive_cases spin_stepE: "spin_step s i t"

definition spin_owns :: "spin_sys \<Rightarrow> nat \<Rightarrow> bool" where
  "spin_owns s i \<longleftrightarrow> spin_pcs s i = Holding \<or> spin_pcs s i = Releasing"

text \<open>The word is taken exactly when some thread owns the lock, and at most one does.\<close>

definition spin_inv :: "spin_sys \<Rightarrow> bool" where
  "spin_inv s \<longleftrightarrow>
     (\<forall>i j. spin_owns s i \<longrightarrow> spin_owns s j \<longrightarrow> i = j) \<and>
     (spin_word s \<noteq> 0 \<longleftrightarrow> (\<exists>i. spin_owns s i)) \<and>
     (\<forall>i. spin_pcs s i \<noteq> Aborted)"

lemma spin_inv_init: "spin_inv spin_init"
  by (simp add: spin_inv_def spin_init_def spin_owns_def utils_spinlock_init_def)

lemma spin_owns_upd:
  "spin_owns (s\<lparr>spin_word := w, spin_pcs := (spin_pcs s)(i := p)\<rparr>) j \<longleftrightarrow>
     (if j = i then p = Holding \<or> p = Releasing else spin_owns s j)"
  "spin_owns (s\<lparr>spin_pcs := (spin_pcs s)(i := p)\<rparr>) j \<longleftrightarrow>
     (if j = i then p = Holding \<or> p = Releasing else spin_owns s j)"
  by (auto simp: spin_owns_def)

text \<open>A step that keeps the word and the owners keeps the invariant.\<close>

lemma spin_inv_same_owners:
  assumes "spin_inv s" and "spin_word t = spin_word s" and "\<And>j. spin_owns t j = spin_owns s j"
    and "\<And>j. spin_pcs t j = Aborted \<Longrightarrow> spin_pcs s j = Aborted"
  shows "spin_inv t"
  using assms by (auto simp: spin_inv_def)

lemma spin_step_inv:
  assumes "spin_step s i t" and "spin_inv s"
  shows "spin_inv t"
  using assms
proof (induction rule: spin_step.induct)
  case (unlock_clear s i)
  then have own: "spin_owns s i" and na: "spin_pcs s j \<noteq> Aborted" for j
    by (auto simp: spin_owns_def spin_inv_def)
  with unlock_clear.prems have "spin_owns s j \<Longrightarrow> j = i" for j by (auto simp: spin_inv_def)
  with na show ?case by (auto simp: spin_inv_def spin_owns_upd)
next
  case (cas_wins s i)
  then have "\<not> spin_owns s j" and "spin_pcs s j \<noteq> Aborted" for j by (auto simp: spin_inv_def)
  then show ?case by (auto simp: spin_inv_def spin_owns_upd)
next
  case (unlock_abort s i)
  then have "spin_owns s i" by (simp add: spin_owns_def)
  with unlock_abort show ?case by (auto simp: spin_inv_def)
qed (auto elim!: spin_inv_same_owners simp: spin_owns_upd spin_owns_def split: if_splits)

lemma spin_reach_inv: "spin_reach s \<Longrightarrow> spin_inv s"
  by (induction rule: spin_reach.induct) (auto intro: spin_inv_init spin_step_inv)

section \<open>Properties of the interleaved lock\<close>

text \<open>C29. Mutual exclusion of \<open>utils_spinlock_lock\<close>/\<open>utils_spinlock_unlock\<close>: whatever the number
  of threads and their interleaving, at most one of them is between its successful compare and swap
  and the end of its unlock, the lock word is nonzero exactly while there is such a thread, and the
  assertion of the unlock never fires for a thread that took the lock.\<close>

theorem spinlock_mutual_exclusion:
  assumes "spin_reach s"
  shows "(\<forall>i j. \<not> (spin_owns s i \<and> spin_owns s j \<and> i \<noteq> j)) \<and>
    (spin_word s \<noteq> 0 \<longleftrightarrow> (\<exists>i. spin_owns s i)) \<and> (\<forall>i. spin_pcs s i \<noteq> Aborted)"
  using spin_reach_inv [OF assms] by (auto simp: spin_inv_def)

definition spin_one_holder :: spin_sys where
  "spin_one_holder = \<lparr>spin_word = 1, spin_pcs = (\<lambda>_. Outside)(0 := Holding)\<rparr>"

lemma spin_one_holder_reach: "spin_reach spin_one_holder"
proof -
  let ?s = "\<lambda>w p. \<lparr>spin_word = w, spin_pcs = (\<lambda>_. Outside)(0 := p)\<rparr>"
  have "spin_reach (?s 0 Outside)"
    using spin_reach.start by (simp add: spin_init_def utils_spinlock_init_def fun_upd_def)
  then have "spin_reach (?s 0 Spinning)"
    by (rule spin_reach.step) (use spin_step.call_lock [of "?s 0 Outside" 0] in simp)
  then have "spin_reach (?s 0 Trying)"
    by (rule spin_reach.step) (use spin_step.seen_free [of "?s 0 Spinning" 0] in simp)
  then have "spin_reach (?s 1 Holding)"
    by (rule spin_reach.step) (use spin_step.cas_wins [of "?s 0 Trying" 0] in simp)
  then show ?thesis by (simp add: spin_one_holder_def)
qed

theorem spinlock_mutual_exclusion_witness:
  "spin_reach spin_one_holder \<and> spin_owns spin_one_holder 0 \<and> \<not> spin_owns spin_one_holder 1"
proof -
  have own: "spin_owns spin_one_holder 0" by (simp add: spin_one_holder_def spin_owns_def)
  then have "\<not> spin_owns spin_one_holder 1"
    using spinlock_mutual_exclusion [OF spin_one_holder_reach] by (metis zero_neq_one)
  with own show ?thesis using spin_one_holder_reach by simp
qed

text \<open>
  A waiting thread can always be served: the owner, if there is one, is never stuck on its way to
  the unlock, and once the word is zero the waiting thread wins its compare and swap.
\<close>

definition spin_some_step :: "spin_sys \<Rightarrow> spin_sys \<Rightarrow> bool" where
  "spin_some_step s t \<longleftrightarrow> (\<exists>i. spin_step s i t)"

lemma spin_one: "spin_step s i t \<Longrightarrow> spin_some_step\<^sup>*\<^sup>* s t"
  by (rule r_into_rtranclp) (auto simp: spin_some_step_def)

lemma spin_owner_leaves:
  assumes "spin_owns s i" and "spin_word s \<noteq> 0"
  shows "\<exists>t. spin_some_step\<^sup>*\<^sup>* s t \<and> spin_word t = 0 \<and> (\<forall>j. j \<noteq> i \<longrightarrow> spin_pcs t j = spin_pcs s j)"
proof -
  have rel: "\<exists>t. spin_some_step\<^sup>*\<^sup>* u t \<and> spin_word t = 0 \<and> (\<forall>j. j \<noteq> i \<longrightarrow> spin_pcs t j = spin_pcs u j)"
    if "spin_pcs u i = Releasing" for u
    by (rule exI, rule conjI, rule spin_one [OF spin_step.unlock_clear [OF that]]) simp
  show ?thesis
  proof (cases "spin_pcs s i = Releasing")
    case False
    with assms have hold: "spin_pcs s i = Holding" by (auto simp: spin_owns_def)
    let ?u = "s\<lparr>spin_pcs := (spin_pcs s)(i := Releasing)\<rparr>"
    have "spin_some_step\<^sup>*\<^sup>* s ?u" by (rule spin_one [OF spin_step.unlock_check [OF hold assms(2)]])
    moreover obtain t where "spin_some_step\<^sup>*\<^sup>* ?u t" "spin_word t = 0"
        "\<forall>j. j \<noteq> i \<longrightarrow> spin_pcs t j = spin_pcs ?u j"
      using rel [of ?u] by auto
    ultimately show ?thesis by (intro exI [of _ t]) auto
  qed (rule rel)
qed

lemma spin_try_wins:
  assumes "spin_pcs s i = Trying" and "spin_word s = 0"
  shows "\<exists>t. spin_some_step\<^sup>*\<^sup>* s t \<and> spin_pcs t i = Holding"
  by (rule exI, rule conjI, rule spin_one [OF spin_step.cas_wins [OF assms]]) simp

lemma spin_free_wins:
  assumes "spin_pcs s i = Spinning \<or> spin_pcs s i = Trying" and "spin_word s = 0"
  shows "\<exists>t. spin_some_step\<^sup>*\<^sup>* s t \<and> spin_pcs t i = Holding"
proof (cases "spin_pcs s i = Trying")
  case False
  with assms have spin: "spin_pcs s i = Spinning" by simp
  let ?u = "s\<lparr>spin_pcs := (spin_pcs s)(i := Trying)\<rparr>"
  have "spin_some_step\<^sup>*\<^sup>* s ?u" by (rule spin_one [OF spin_step.seen_free [OF spin assms(2)]])
  with spin_try_wins [of ?u i] assms(2) show ?thesis by (auto intro: rtranclp_trans)
qed (use spin_try_wins assms in blast)

text \<open>No deadlock on the lock: from every reachable state of any number of threads, a thread
  waiting inside \<open>utils_spinlock_lock\<close> can be brought to hold the lock by finitely many steps.\<close>

theorem spinlock_progress:
  assumes "spin_reach s" and "spin_pcs s i = Spinning \<or> spin_pcs s i = Trying"
  shows "\<exists>t. spin_some_step\<^sup>*\<^sup>* s t \<and> spin_pcs t i = Holding"
proof (cases "spin_word s = 0")
  case False
  with spin_reach_inv [OF assms(1)] obtain j where own: "spin_owns s j" by (auto simp: spin_inv_def)
  with assms(2) have "j \<noteq> i" by (auto simp: spin_owns_def)
  with spin_owner_leaves [OF own False] obtain u
    where u: "spin_some_step\<^sup>*\<^sup>* s u" "spin_word u = 0" "spin_pcs u i = spin_pcs s i" by metis
  with spin_free_wins [of u i] assms(2) show ?thesis by (auto intro: rtranclp_trans)
qed (use spin_free_wins assms(2) in blast)

theorem spinlock_progress_witness:
  "\<exists>s. spin_reach s \<and> spin_owns s 0 \<and> spin_pcs s 1 = Spinning \<and>
     (\<exists>t. spin_some_step\<^sup>*\<^sup>* s t \<and> spin_pcs t 1 = Holding)"
proof -
  let ?s = "spin_one_holder\<lparr>spin_pcs := (spin_pcs spin_one_holder)(1 := Spinning)\<rparr>"
  have r: "spin_reach ?s"
    using spin_one_holder_reach by (rule spin_reach.step)
      (rule spin_step.call_lock [of spin_one_holder 1], simp add: spin_one_holder_def)
  moreover have "spin_owns ?s 0" by (simp add: spin_owns_def spin_one_holder_def)
  moreover have "\<exists>t. spin_some_step\<^sup>*\<^sup>* ?s t \<and> spin_pcs t 1 = Holding"
    by (rule spinlock_progress [OF r]) simp
  ultimately show ?thesis by (intro exI [of _ ?s]) simp
qed

end
