(* ===== verification/Queue.thy ===== *)
theory Queue
  imports Spinlock
begin

text \<open>
  \<open>src/utils/queue.c\<close>: the bounded multi-producer multi-consumer queue of pointers. \<open>bottom\<close> and
  \<open>top\<close> are 16 bit counters that wrap around; an entry lives at the counter masked with the capacity
  less one. The capacity \<open>UTILS_QUEUE_CAPACITY\<close> is a build constant and so a parameter here.

  The first part models the operations run to completion and relates them to a bounded list. The
  second part interleaves any number of pushing and popping threads, one shared memory access per
  step: pushes are serialised by the spinlock, pops race on a compare and swap.
\<close>

section \<open>The operations\<close>

record utils_queue_s =
  q_entries :: "addr list"
  q_lock :: u64
  q_bottom :: u16
  q_top :: u16

definition utils_queue_init :: "u32 \<Rightarrow> utils_queue_s res" where
  "utils_queue_init cap =
     rbind (arax_assert (cap AND (cap - 1) = 0) ''!( CAPACITY & (CAPACITY - 1) )'') (\<lambda>_.
     Ok \<lparr>q_entries = replicate (unat cap) 0, q_lock = utils_spinlock_init, q_bottom = 0, q_top = 0\<rparr>)"

text \<open>The slot of a counter, and the distance of the two counters as \<open>int\<close> arithmetic has it.\<close>

definition q_slot :: "u32 \<Rightarrow> u16 \<Rightarrow> nat" where
  "q_slot cap c = unat (ucast c AND (cap - 1))"

definition q_distance :: "u16 \<Rightarrow> u16 \<Rightarrow> int" where
  "q_distance b t = (let used_slots = uint b - uint t in
     if used_slots < 0 then used_slots + (65535 + 1) else used_slots)"

definition utils_queue_used_slots :: "utils_queue_s \<Rightarrow> u32" where
  "utils_queue_used_slots q = word_of_int (q_distance (q_bottom q) (q_top q))"

definition utils_queue_pop :: "u32 \<Rightarrow> utils_queue_s \<Rightarrow> addr \<times> utils_queue_s" where
  "utils_queue_pop cap q =
     (let t = q_top q; b = q_bottom q in
      if b = t then (0, q)
      else let ret_val = q_entries q ! q_slot cap t in
        if q_top q = t then (ret_val, q\<lparr>q_top := t + 1\<rparr>) else (0, q))"

definition utils_queue_push :: "u32 \<Rightarrow> utils_queue_s \<Rightarrow> addr \<Rightarrow> (addr \<times> utils_queue_s) res" where
  "utils_queue_push cap q data =
     rbind (arax_assert (data \<noteq> 0) ''data'') (\<lambda>_.
     rbind (utils_spinlock_lock (q_lock q)) (\<lambda>l.
     let b = q_bottom q; t = q_top q; used_slots = q_distance b t in
     let (data, q) =
       (if word_of_int used_slots = cap then (0, q)
        else (data, q\<lparr>q_entries := (q_entries q)[q_slot cap b := data], q_bottom := b + 1\<rparr>)) in
     rbind (utils_spinlock_unlock l) (\<lambda>l'. Ok (data, q\<lparr>q_lock := l'\<rparr>))))"

definition utils_queue_peek :: "u32 \<Rightarrow> utils_queue_s \<Rightarrow> addr" where
  "utils_queue_peek cap q =
     (let t = q_top q; b = q_bottom q in
      if b = t then 0 else q_entries q ! q_slot cap t)"

section \<open>The bounded list a queue stands for\<close>

definition good_capacity :: "u32 \<Rightarrow> bool" where
  "good_capacity cap \<longleftrightarrow> cap AND (cap - 1) = 0 \<and> 0 < cap \<and> cap < 2 ^ 16"

text \<open>
  \<open>q_rep cap q n xs\<close>: \<open>n\<close> elements were popped so far, counted without wrap-around, and \<open>xs\<close> are
  the elements still in the queue, oldest first.
\<close>

definition q_rep :: "u32 \<Rightarrow> utils_queue_s \<Rightarrow> nat \<Rightarrow> addr list \<Rightarrow> bool" where
  "q_rep cap q n xs \<longleftrightarrow>
     q_top q = of_nat n \<and> q_bottom q = of_nat (n + length xs) \<and>
     length xs \<le> unat cap \<and> length (q_entries q) = unat cap \<and> 0 \<notin> set xs \<and>
     (\<forall>k<length xs. q_entries q ! ((n + k) mod unat cap) = xs ! k)"

definition q_contents :: "u32 \<Rightarrow> utils_queue_s \<Rightarrow> addr list" where
  "q_contents cap q = map (\<lambda>k. q_entries q ! ((unat (q_top q) + k) mod unat cap))
     [0..<nat (q_distance (q_bottom q) (q_top q))]"

definition q_inv :: "u32 \<Rightarrow> utils_queue_s \<Rightarrow> bool" where
  "q_inv cap q \<longleftrightarrow> q_lock q = 0 \<and> q_rep cap q (unat (q_top q)) (q_contents cap q)"

lemma q_distance_sub: "q_distance b t = uint (b - t)"
  unfolding q_distance_def Let_def
  using uint_lt2p [of b] uint_lt2p [of t] by (simp add: uint_sub_if')

lemma power_of_two_iff:
  assumes pos: "0 < (cap :: u32)" and z: "cap AND (cap - 1) = 0"
  shows "\<exists>k. unat cap = 2 ^ k"
proof -
  define c where "c = unat cap"
  have c1: "1 \<le> c" using pos unfolding c_def by (simp add: unat_gt_0 Suc_le_eq)
  have z': "c AND (c - 1) = 0"
  proof -
    have "unat (cap - 1) = c - 1" using pos unfolding c_def
      by (simp add: unat_minus_one)
    with z show ?thesis unfolding c_def by (metis unsigned_and_eq unsigned_0)
  qed
  obtain k where k: "2 ^ k \<le> c" "c < 2 ^ (k + 1)" using ex_power_ivl1 [of 2 c] c1 by auto
  have bit1: "bit m k" if "2 ^ k \<le> m" "m < 2 ^ (k + 1)" for m :: nat
  proof -
    have "m div 2 ^ k = 1" using that by (intro div_nat_eqI) auto
    then show ?thesis by (simp add: bit_iff_odd)
  qed
  have "c = 2 ^ k"
  proof (rule ccontr)
    assume "c \<noteq> 2 ^ k"
    with k have "bit c k" "bit (c - 1) k" by (auto intro!: bit1)
    with z' show False by (metis bit_and_iff bit_0_eq bot_apply bot_bool_def)
  qed
  then show ?thesis unfolding c_def by blast
qed

lemma good_capacityE:
  assumes "good_capacity cap"
  obtains k where "k < 16" "unat cap = 2 ^ k" "cap = 2 ^ k"
proof -
  from assms obtain k where k: "unat cap = 2 ^ k" using power_of_two_iff by (auto simp: good_capacity_def)
  from assms have "unat cap < 2 ^ 16" by (simp add: good_capacity_def word_less_nat_alt)
  with k have "k < 16" using power_less_imp_less_exp [of "2 :: nat" k 16] by simp
  moreover have "cap = 2 ^ k"
  proof -
    have "(2 :: nat) ^ k < 2 ^ 32" using \<open>k < 16\<close> by (intro power_strict_increasing) auto
    then have "unat (of_nat (2 ^ k) :: u32) = 2 ^ k" by (simp add: unat_of_nat del: of_nat_power)
    with k show ?thesis by (simp add: word_unat_eq_iff)
  qed
  ultimately show ?thesis using that k by blast
qed

lemma q_slot_mod:
  assumes "good_capacity cap"
  shows "q_slot cap (of_nat n) = n mod unat cap"
proof -
  from assms obtain k where k: "k < 16" "unat cap = 2 ^ k" "cap = 2 ^ k" by (rule good_capacityE)
  have "ucast (of_nat n :: u16) AND (cap - 1) = take_bit k (ucast (of_nat n :: u16))"
    by (simp add: k(3) take_bit_eq_mask mask_eq_exp_minus_1)
  then have "q_slot cap (of_nat n) = unat (of_nat n :: u16) mod 2 ^ k"
    using unsigned_less [of "of_nat n :: u16", where 'a = nat] k(2,3)
    by (simp add: q_slot_def take_bit_eq_mod unat_mod unsigned_ucast_eq)
  also have "\<dots> = n mod 2 ^ 16 mod 2 ^ k" by (simp add: unat_of_nat)
  also have "\<dots> = n mod 2 ^ k" using k(1) by (intro mod_mod_cancel le_imp_power_dvd) simp
  finally show ?thesis by (simp only: k(2))
qed

lemma of_nat_16_eq: "n < 2 ^ 16 \<Longrightarrow> (of_nat (m + n) :: u16) = of_nat m \<longleftrightarrow> n = 0"
  by (auto simp: word_of_nat_eq_0_iff dest: dvd_imp_le)

lemma q_rep_distance:
  assumes "good_capacity cap" and "q_rep cap q n xs"
  shows "q_distance (q_bottom q) (q_top q) = int (length xs)"
proof -
  have "length xs < 2 ^ 16"
    using assms by (auto simp: q_rep_def good_capacity_def word_less_nat_alt)
  with assms(2) show ?thesis by (simp add: q_rep_def q_distance_sub uint_nat unat_of_nat)
qed

text \<open>The capacity divides \<open>2 ^ 16\<close>, so the wrap-around of the counters does not show in the slots.\<close>

lemma wrapped_index: "k < 16 \<Longrightarrow> (n mod 2 ^ 16 + j) mod 2 ^ k = (n + j) mod (2 :: nat) ^ k"
proof -
  assume "k < 16"
  then have "(2 :: nat) ^ k dvd 2 ^ 16" by (intro le_imp_power_dvd) simp
  then have "n mod 2 ^ 16 mod 2 ^ k = n mod 2 ^ k" by (rule mod_mod_cancel)
  then show ?thesis by (rule mod_add_cong) simp
qed

lemma q_rep_contents:
  assumes "good_capacity cap" and "q_rep cap q n xs"
  shows "q_contents cap q = xs"
proof -
  from assms(1) obtain k where k: "k < 16" "unat cap = 2 ^ k" "cap = 2 ^ k" by (rule good_capacityE)
  note shift = wrapped_index [OF k(1), of n]
  have "(unat (q_top q) + j) mod unat cap = (n + j) mod unat cap" for j
    using assms(2) shift [of j] by (simp add: q_rep_def unat_of_nat k(2))
  with assms(2) q_rep_distance [OF assms] show ?thesis
    by (intro nth_equalityI) (simp_all add: q_contents_def q_rep_def)
qed

lemma q_rep_normal: "q_rep cap q n xs \<Longrightarrow> good_capacity cap \<Longrightarrow> q_rep cap q (unat (q_top q)) xs"
proof -
  assume r: "q_rep cap q n xs" and c: "good_capacity cap"
  from c obtain k where k: "k < 16" "unat cap = 2 ^ k" "cap = 2 ^ k" by (rule good_capacityE)
  note shift = wrapped_index [OF k(1), of n]
  have "(of_nat n :: u16) = of_nat (n mod 65536)" by (simp add: word_of_nat_eq_iff take_bit_eq_mod)
  with r shift show ?thesis by (simp add: q_rep_def unat_of_nat k(2))
qed

lemma q_invI: "good_capacity cap \<Longrightarrow> q_lock q = 0 \<Longrightarrow> q_rep cap q n xs \<Longrightarrow> q_inv cap q \<and> q_contents cap q = xs"
  by (simp add: q_inv_def q_rep_contents q_rep_normal)

lemma q_invE:
  assumes "q_inv cap q"
  obtains n where "q_lock q = 0" "q_rep cap q n (q_contents cap q)"
  using assms by (auto simp: q_inv_def)

text \<open>One push and one pop on the representation; the concurrent view uses them too.\<close>

lemma q_rep_empty_iff:
  assumes "good_capacity cap" and "q_rep cap q n xs"
  shows "q_bottom q = q_top q \<longleftrightarrow> xs = []"
proof -
  have "length xs < 2 ^ 16"
    using assms by (auto simp: q_rep_def good_capacity_def word_less_nat_alt)
  then show ?thesis using assms(2) of_nat_16_eq [of "length xs" n] by (simp add: q_rep_def)
qed

lemma q_rep_head:
  assumes "good_capacity cap" and "q_rep cap q n (x # xs)"
  shows "q_entries q ! q_slot cap (q_top q) = x"
  using assms by (auto simp: q_rep_def q_slot_mod)

lemma q_rep_pop:
  "q_rep cap q n (x # xs) \<Longrightarrow> q_rep cap (q\<lparr>q_top := q_top q + 1\<rparr>) (Suc n) xs"
  by (auto simp: q_rep_def)

lemma q_slot_bottom:
  "good_capacity cap \<Longrightarrow> q_rep cap q n xs \<Longrightarrow> q_slot cap (q_bottom q) = (n + length xs) mod unat cap"
  using q_slot_mod [of cap "n + length xs"] by (simp add: q_rep_def)

lemma q_rep_write:
  assumes c: "good_capacity cap" and r: "q_rep cap q n xs" and room: "length xs < unat cap"
  shows "q_rep cap (q\<lparr>q_entries := (q_entries q)[q_slot cap (q_bottom q) := d]\<rparr>) n xs"
    and "(q_entries q)[q_slot cap (q_bottom q) := d] ! q_slot cap (q_bottom q) = d"
proof -
  have other: "(n + length xs) mod unat cap \<noteq> (n + k) mod unat cap" if "k < length xs" for k
  proof
    assume "(n + length xs) mod unat cap = (n + k) mod unat cap"
    then have "unat cap dvd n + length xs - (n + k)" using that
      by (metis add_le_cancel_left less_imp_le mod_eq_dvd_iff_nat)
    then show False using that room by (auto dest: dvd_imp_le)
  qed
  have "(n + length xs) mod unat cap < unat cap" using room by simp
  with r room other show
    "q_rep cap (q\<lparr>q_entries := (q_entries q)[q_slot cap (q_bottom q) := d]\<rparr>) n xs"
    "(q_entries q)[q_slot cap (q_bottom q) := d] ! q_slot cap (q_bottom q) = d"
    unfolding q_slot_bottom [OF c r] by (auto simp: q_rep_def)
qed

lemma q_rep_publish:
  assumes c: "good_capacity cap" and r: "q_rep cap q n xs" and "length xs < unat cap"
    and "q_entries q ! q_slot cap (q_bottom q) = d" and "d \<noteq> 0"
  shows "q_rep cap (q\<lparr>q_bottom := q_bottom q + 1\<rparr>) n (xs @ [d])"
  using assms(2-5) unfolding q_slot_bottom [OF c r] by (auto simp: q_rep_def nth_append less_Suc_eq)

lemma q_rep_push:
  assumes c: "good_capacity cap" and r: "q_rep cap q n xs" and room: "length xs < unat cap" and d: "d \<noteq> 0"
  shows "q_rep cap (q\<lparr>q_entries := (q_entries q)[q_slot cap (q_bottom q) := d], q_bottom := q_bottom q + 1\<rparr>)
    n (xs @ [d])"
  using q_rep_publish [OF c q_rep_write(1) [OF c r room] room, of d d] q_rep_write(2) [OF c r room, of d] d
  by simp

lemma q_rep_full_iff:
  assumes "good_capacity cap" and "q_rep cap q n xs"
  shows "word_of_int (q_distance (q_bottom q) (q_top q)) = cap \<longleftrightarrow> length xs = unat cap"
proof -
  have "length xs < 2 ^ 16"
    using assms by (auto simp: q_rep_def good_capacity_def word_less_nat_alt)
  then show ?thesis by (simp add: q_rep_distance [OF assms] word_unat_eq_iff unat_of_nat)
qed

lemma q_rep_init:
  "good_capacity cap \<Longrightarrow> \<exists>q. utils_queue_init cap = Ok q \<and> q_lock q = 0 \<and> q_rep cap q 0 []"
  by (simp add: utils_queue_init_def good_capacity_def q_rep_def utils_spinlock_init_def)

section \<open>The interface: a bounded first in first out queue\<close>

text \<open>
  What the clients of the queue (the task queues of the virtual accelerators) rely on: a push
  appends while there is room and is refused otherwise, a pop or a peek gives the oldest element or
  the null pointer, nothing else changes.
\<close>

datatype 'a fifo_op = Push 'a | Pop | Peek | Used_slots

datatype 'a fifo_out = Item 'a | Count nat

fun fifo_spec :: "'a \<Rightarrow> nat \<Rightarrow> 'a list \<Rightarrow> 'a fifo_op list \<Rightarrow> 'a fifo_out list \<times> 'a list" where
  "fifo_spec none room xs [] = ([], xs)"
| "fifo_spec none room xs (Push d # ops) =
     (if length xs < room then map_prod ((#) (Item d)) id (fifo_spec none room (xs @ [d]) ops)
      else map_prod ((#) (Item none)) id (fifo_spec none room xs ops))"
| "fifo_spec none room xs (Pop # ops) =
     (case xs of [] \<Rightarrow> map_prod ((#) (Item none)) id (fifo_spec none room [] ops)
      | x # ys \<Rightarrow> map_prod ((#) (Item x)) id (fifo_spec none room ys ops))"
| "fifo_spec none room xs (Peek # ops) =
     map_prod ((#) (Item (case xs of [] \<Rightarrow> none | x # _ \<Rightarrow> x))) id (fifo_spec none room xs ops)"
| "fifo_spec none room xs (Used_slots # ops) =
     map_prod ((#) (Count (length xs))) id (fifo_spec none room xs ops)"

fun fifo_run :: "('s \<Rightarrow> 'a \<Rightarrow> ('a \<times> 's) res) \<Rightarrow> ('s \<Rightarrow> 'a \<times> 's) \<Rightarrow> ('s \<Rightarrow> 'a) \<Rightarrow> ('s \<Rightarrow> nat) \<Rightarrow>
    's \<Rightarrow> 'a fifo_op list \<Rightarrow> ('a fifo_out list \<times> 's) res" where
  "fifo_run push pop peek used s [] = Ok ([], s)"
| "fifo_run push pop peek used s (Push d # ops) =
     rbind (push s d) (\<lambda>(r, s).
     rbind (fifo_run push pop peek used s ops) (\<lambda>(outs, s). Ok (Item r # outs, s)))"
| "fifo_run push pop peek used s (Pop # ops) =
     (let (r, s) = pop s in
     rbind (fifo_run push pop peek used s ops) (\<lambda>(outs, s). Ok (Item r # outs, s)))"
| "fifo_run push pop peek used s (Peek # ops) =
     rbind (fifo_run push pop peek used s ops) (\<lambda>(outs, s'). Ok (Item (peek s) # outs, s'))"
| "fifo_run push pop peek used s (Used_slots # ops) =
     rbind (fifo_run push pop peek used s ops) (\<lambda>(outs, s'). Ok (Count (used s) # outs, s'))"

locale bounded_fifo =
  fixes inv :: "'s \<Rightarrow> bool"
    and contents :: "'s \<Rightarrow> 'a list"
    and room :: nat
    and none :: 'a
    and push :: "'s \<Rightarrow> 'a \<Rightarrow> ('a \<times> 's) res"
    and pop :: "'s \<Rightarrow> 'a \<times> 's"
    and peek :: "'s \<Rightarrow> 'a"
    and used :: "'s \<Rightarrow> nat"
  assumes push_ok: "inv s \<Longrightarrow> d \<noteq> none \<Longrightarrow> \<exists>s'. inv s' \<and>
      (if length (contents s) < room then push s d = Ok (d, s') \<and> contents s' = contents s @ [d]
       else push s d = Ok (none, s') \<and> contents s' = contents s)"
    and pop_empty: "inv s \<Longrightarrow> contents s = [] \<Longrightarrow> pop s = (none, s)"
    and pop_head: "inv s \<Longrightarrow> contents s = x # xs \<Longrightarrow> \<exists>s'. pop s = (x, s') \<and> inv s' \<and> contents s' = xs"
    and peek_ok: "inv s \<Longrightarrow> peek s = (case contents s of [] \<Rightarrow> none | x # _ \<Rightarrow> x)"
    and used_ok: "inv s \<Longrightarrow> used s = length (contents s)"
begin

lemma run_refines:
  assumes "inv s" and "Push none \<notin> set ops"
  shows "\<exists>s'. fifo_run push pop peek used s ops = Ok (fst (fifo_spec none room (contents s) ops), s') \<and>
    inv s' \<and> contents s' = snd (fifo_spec none room (contents s) ops)"
  using assms
proof (induction ops arbitrary: s)
  case (Cons op ops)
  then have IH: "inv t \<Longrightarrow> \<exists>s'. fifo_run push pop peek used t ops = Ok (fst (fifo_spec none room (contents t) ops), s') \<and>
      inv s' \<and> contents s' = snd (fifo_spec none room (contents t) ops)" for t by simp
  show ?case
  proof (cases op)
    case (Push d)
    with Cons.prems have "d \<noteq> none" by auto
    from push_ok [OF Cons.prems(1) this] obtain s' where "inv s'"
      "if length (contents s) < room then push s d = Ok (d, s') \<and> contents s' = contents s @ [d]
       else push s d = Ok (none, s') \<and> contents s' = contents s" by blast
    with IH [of s'] Push show ?thesis by (auto split: if_splits)
  next
    case Pop
    show ?thesis
    proof (cases "contents s")
      case Nil
      with IH [of s] Cons.prems(1) Pop pop_empty [of s] show ?thesis by auto
    next
      case (Cons x xs)
      with pop_head [OF Cons.prems(1)] obtain s' where "pop s = (x, s')" "inv s'" "contents s' = xs" by blast
      with IH [of s'] Pop Cons show ?thesis by auto
    qed
  qed (use IH [of s] Cons.prems(1) peek_ok [of s] used_ok [of s] in auto)
qed simp

text \<open>A refused push is the only way to lose an element, and it reports it.\<close>

lemma push_accepted:
  assumes "inv s" and "d \<noteq> none" and "push s d = Ok (r, s')"
  shows "r = d \<and> length (contents s) < room \<and> contents s' = contents s @ [d] \<or>
    r = none \<and> length (contents s) \<ge> room \<and> contents s' = contents s"
  using push_ok [OF assms(1,2)] assms(3) by (auto split: if_splits)

end

lemma utils_queue_push_ok:
  assumes c: "good_capacity cap" and i: "q_inv cap q" and d: "d \<noteq> 0"
  shows "\<exists>q'. q_inv cap q' \<and>
    (if length (q_contents cap q) < unat cap
     then utils_queue_push cap q d = Ok (d, q') \<and> q_contents cap q' = q_contents cap q @ [d]
     else utils_queue_push cap q d = Ok (0, q') \<and> q_contents cap q' = q_contents cap q)"
proof -
  from i obtain n where l: "q_lock q = 0" and r: "q_rep cap q n (q_contents cap q)" by (rule q_invE)
  let ?q = "q\<lparr>q_entries := (q_entries q)[q_slot cap (q_bottom q) := d], q_bottom := q_bottom q + 1\<rparr>"
  have len: "length (q_contents cap q) \<le> unat cap" using r by (simp add: q_rep_def)
  show ?thesis
  proof (cases "length (q_contents cap q) < unat cap")
    case True
    have "q_inv cap ?q \<and> q_contents cap ?q = q_contents cap q @ [d]"
      by (rule q_invI [OF c]) (use l q_rep_push [OF c r True d] in simp_all)
    with True d l q_rep_full_iff [OF c r] show ?thesis
      by (intro exI [of _ ?q]) (cases q; simp add: utils_queue_push_def Let_def)
  next
    case False
    with len d l i q_rep_full_iff [OF c r] show ?thesis
      by (intro exI [of _ q]) (cases q; simp add: utils_queue_push_def Let_def)
  qed
qed

lemma utils_queue_pop_ok:
  assumes c: "good_capacity cap" and i: "q_inv cap q" and x: "q_contents cap q = x # xs"
  shows "\<exists>q'. utils_queue_pop cap q = (x, q') \<and> q_inv cap q' \<and> q_contents cap q' = xs"
proof -
  from i obtain n where l: "q_lock q = 0" and r: "q_rep cap q n (q_contents cap q)" by (rule q_invE)
  let ?q = "q\<lparr>q_top := q_top q + 1\<rparr>"
  from r x have r': "q_rep cap q n (x # xs)" by simp
  have "q_inv cap ?q \<and> q_contents cap ?q = xs"
    by (rule q_invI [OF c]) (use l q_rep_pop [OF r'] in simp_all)
  moreover have "utils_queue_pop cap q = (x, ?q)"
    using q_rep_empty_iff [OF c r'] q_rep_head [OF c r'] by (simp add: utils_queue_pop_def)
  ultimately show ?thesis by blast
qed

lemma utils_queue_reads:
  assumes c: "good_capacity cap" and i: "q_inv cap q"
  shows "utils_queue_peek cap q = (case q_contents cap q of [] \<Rightarrow> 0 | x # _ \<Rightarrow> x)"
    and "unat (utils_queue_used_slots q) = length (q_contents cap q)"
    and "q_contents cap q = [] \<Longrightarrow> utils_queue_pop cap q = (0, q)"
proof -
  from i obtain n where r: "q_rep cap q n (q_contents cap q)" by (rule q_invE)
  show "utils_queue_peek cap q = (case q_contents cap q of [] \<Rightarrow> 0 | x # _ \<Rightarrow> x)"
    using q_rep_empty_iff [OF c r] r q_rep_head [OF c]
    by (auto simp: utils_queue_peek_def split: list.split)
  show "unat (utils_queue_used_slots q) = length (q_contents cap q)"
    using r c by (simp add: utils_queue_used_slots_def q_rep_distance [OF c r] unat_of_nat)
      (auto simp: q_rep_def good_capacity_def word_less_nat_alt)
  show "q_contents cap q = [] \<Longrightarrow> utils_queue_pop cap q = (0, q)"
    using q_rep_empty_iff [OF c r] by (simp add: utils_queue_pop_def)
qed

lemma bounded_fifo_queue:
  assumes "good_capacity cap"
  shows "bounded_fifo (q_inv cap) (q_contents cap) (unat cap) 0 (utils_queue_push cap) (utils_queue_pop cap)
    (utils_queue_peek cap) (\<lambda>q. unat (utils_queue_used_slots q))"
  by unfold_locales
    (rule utils_queue_push_ok [OF assms], use assms in \<open>simp_all add: utils_queue_reads utils_queue_pop_ok\<close>)

text \<open>The build's default capacity, \<open>UTILS_QUEUE_CAPACITY = 256U\<close>.\<close>

interpretation queue256: bounded_fifo "q_inv 256" "q_contents 256" "unat (256 :: u32)" 0
    "utils_queue_push 256" "utils_queue_pop 256" "utils_queue_peek 256"
    "\<lambda>q. unat (utils_queue_used_slots q)"
  by (rule bounded_fifo_queue) (simp add: good_capacity_def)

section \<open>Interleaved pushes and pops\<close>

text \<open>
  A thread is idle or inside one call; the values it read so far are in its program counter. A
  popping thread also carries the number of pops that had completed when it read \<open>top\<close>; that
  number and the two histories \<open>qs_pushed\<close>/\<open>qs_popped\<close> are auxiliary and no step tests them.
\<close>

datatype q_pc =
    Q_idle
  | Pop_read_top
  | Pop_read_bottom u16 nat
  | Pop_read_entry u16 nat
  | Pop_cas u16 nat addr
  | Push_lock addr
  | Push_read_bottom addr
  | Push_read_top addr u16
  | Push_write addr u16
  | Push_publish addr u16
  | Push_unlock addr

record q_sys =
  qs_queue :: utils_queue_s
  qs_pcs :: "nat \<Rightarrow> q_pc"
  qs_pushed :: "addr list"
  qs_popped :: "addr list"

definition q_goto :: "nat \<Rightarrow> q_pc \<Rightarrow> q_sys \<Rightarrow> q_sys" where
  "q_goto i pc s = s\<lparr>qs_pcs := (qs_pcs s)(i := pc)\<rparr>"

definition q_update :: "(utils_queue_s \<Rightarrow> utils_queue_s) \<Rightarrow> q_sys \<Rightarrow> q_sys" where
  "q_update f s = s\<lparr>qs_queue := f (qs_queue s)\<rparr>"

inductive q_step :: "u32 \<Rightarrow> q_sys \<Rightarrow> nat \<Rightarrow> q_sys \<Rightarrow> bool" for cap :: u32 where
  pop_call: "qs_pcs s i = Q_idle \<Longrightarrow> q_step cap s i (q_goto i Pop_read_top s)"
| pop_top: "qs_pcs s i = Pop_read_top \<Longrightarrow>
    q_step cap s i (q_goto i (Pop_read_bottom (q_top (qs_queue s)) (length (qs_popped s))) s)"
| pop_empty: "qs_pcs s i = Pop_read_bottom t n \<Longrightarrow> q_bottom (qs_queue s) = t \<Longrightarrow>
    q_step cap s i (q_goto i Q_idle s)"
| pop_nonempty: "qs_pcs s i = Pop_read_bottom t n \<Longrightarrow> q_bottom (qs_queue s) \<noteq> t \<Longrightarrow>
    q_step cap s i (q_goto i (Pop_read_entry t n) s)"
| pop_entry: "qs_pcs s i = Pop_read_entry t n \<Longrightarrow>
    q_step cap s i (q_goto i (Pop_cas t n (q_entries (qs_queue s) ! q_slot cap t)) s)"
| pop_wins: "qs_pcs s i = Pop_cas t n v \<Longrightarrow> q_top (qs_queue s) = t \<Longrightarrow>
    q_step cap s i (q_goto i Q_idle (q_update (q_top_update (\<lambda>_. t + 1)) (s\<lparr>qs_popped := qs_popped s @ [v]\<rparr>)))"
| pop_loses: "qs_pcs s i = Pop_cas t n v \<Longrightarrow> q_top (qs_queue s) \<noteq> t \<Longrightarrow>
    q_step cap s i (q_goto i Q_idle s)"
| push_call: "qs_pcs s i = Q_idle \<Longrightarrow> arax_assert (d \<noteq> 0) ''data'' = Ok () \<Longrightarrow>
    q_step cap s i (q_goto i (Push_lock d) s)"
| push_lock: "qs_pcs s i = Push_lock d \<Longrightarrow> utils_spinlock_lock (q_lock (qs_queue s)) = Ok l \<Longrightarrow>
    q_step cap s i (q_goto i (Push_read_bottom d) (q_update (q_lock_update (\<lambda>_. l)) s))"
| push_bottom: "qs_pcs s i = Push_read_bottom d \<Longrightarrow>
    q_step cap s i (q_goto i (Push_read_top d (q_bottom (qs_queue s))) s)"
| push_full: "qs_pcs s i = Push_read_top d b \<Longrightarrow> word_of_int (q_distance b (q_top (qs_queue s))) = cap \<Longrightarrow>
    q_step cap s i (q_goto i (Push_unlock 0) s)"
| push_room: "qs_pcs s i = Push_read_top d b \<Longrightarrow> word_of_int (q_distance b (q_top (qs_queue s))) \<noteq> cap \<Longrightarrow>
    q_step cap s i (q_goto i (Push_write d b) s)"
| push_write: "qs_pcs s i = Push_write d b \<Longrightarrow>
    q_step cap s i (q_goto i (Push_publish d b) (q_update (\<lambda>q. q\<lparr>q_entries := (q_entries q)[q_slot cap b := d]\<rparr>) s))"
| push_publish: "qs_pcs s i = Push_publish d b \<Longrightarrow>
    q_step cap s i (q_goto i (Push_unlock d) (q_update (q_bottom_update (\<lambda>_. b + 1)) s\<lparr>qs_pushed := qs_pushed s @ [d]\<rparr>))"
| push_unlock: "qs_pcs s i = Push_unlock r \<Longrightarrow> utils_spinlock_unlock (q_lock (qs_queue s)) = Ok l \<Longrightarrow>
    q_step cap s i (q_goto i Q_idle (q_update (q_lock_update (\<lambda>_. l)) s))"

text \<open>
  The counters have 16 bits, so a popping thread must not sleep between its read of \<open>top\<close> and its
  compare and swap while (nearly) 65536 other pops complete: \<open>q_window\<close> says that none did.
\<close>

fun q_pop_stamp :: "q_pc \<Rightarrow> nat option" where
  "q_pop_stamp (Pop_read_bottom t n) = Some n"
| "q_pop_stamp (Pop_read_entry t n) = Some n"
| "q_pop_stamp (Pop_cas t n v) = Some n"
| "q_pop_stamp _ = None"

definition q_window :: "u32 \<Rightarrow> q_sys \<Rightarrow> bool" where
  "q_window cap s \<longleftrightarrow>
     (\<forall>i n. q_pop_stamp (qs_pcs s i) = Some n \<longrightarrow> length (qs_popped s) + unat cap < n + 2 ^ 16)"

inductive q_reach :: "u32 \<Rightarrow> q_sys \<Rightarrow> bool" for cap :: u32 where
  start: "utils_queue_init cap = Ok q \<Longrightarrow>
    q_reach cap \<lparr>qs_queue = q, qs_pcs = (\<lambda>_. Q_idle), qs_pushed = [], qs_popped = []\<rparr>"
| step: "q_reach cap s \<Longrightarrow> q_step cap s i t \<Longrightarrow> q_window cap t \<Longrightarrow> q_reach cap t"

text \<open>Who is between lock and unlock, and what each thread knows of the queue.\<close>

fun q_critical :: "q_pc \<Rightarrow> bool" where
  "q_critical (Push_read_bottom d) = True"
| "q_critical (Push_read_top d b) = True"
| "q_critical (Push_write d b) = True"
| "q_critical (Push_publish d b) = True"
| "q_critical (Push_unlock r) = True"
| "q_critical _ = False"

fun q_knows :: "u32 \<Rightarrow> utils_queue_s \<Rightarrow> addr list \<Rightarrow> addr list \<Rightarrow> q_pc \<Rightarrow> bool" where
  "q_knows cap q pu po (Pop_read_bottom t n) \<longleftrightarrow> t = of_nat n \<and> n \<le> length po"
| "q_knows cap q pu po (Pop_read_entry t n) \<longleftrightarrow> t = of_nat n \<and> n \<le> length po \<and> n < length pu"
| "q_knows cap q pu po (Pop_cas t n v) \<longleftrightarrow>
     t = of_nat n \<and> n \<le> length po \<and> n < length pu \<and> (n = length po \<longrightarrow> v = pu ! n)"
| "q_knows cap q pu po (Push_lock d) \<longleftrightarrow> d \<noteq> 0"
| "q_knows cap q pu po (Push_read_bottom d) \<longleftrightarrow> d \<noteq> 0"
| "q_knows cap q pu po (Push_read_top d b) \<longleftrightarrow> d \<noteq> 0 \<and> b = q_bottom q"
| "q_knows cap q pu po (Push_write d b) \<longleftrightarrow> d \<noteq> 0 \<and> b = q_bottom q \<and> length pu < length po + unat cap"
| "q_knows cap q pu po (Push_publish d b) \<longleftrightarrow>
     d \<noteq> 0 \<and> b = q_bottom q \<and> length pu < length po + unat cap \<and> q_entries q ! q_slot cap b = d"
| "q_knows cap q pu po _ \<longleftrightarrow> True"

lemma q_knows_pop: "q_knows cap q pu po pc \<Longrightarrow> q_knows cap (q\<lparr>q_top := x\<rparr>) pu (po @ [v]) pc"
  by (cases pc) auto

lemma q_knows_push: "q_knows cap q pu po pc \<Longrightarrow> \<not> q_critical pc \<Longrightarrow> q_knows cap q' (pu @ [d]) po pc"
  by (cases pc) (auto simp: nth_append)

lemma q_knows_other: "q_knows cap q pu po pc \<Longrightarrow> \<not> q_critical pc \<Longrightarrow> q_knows cap q' pu po pc"
  by (cases pc) auto

definition q_sys_inv :: "u32 \<Rightarrow> q_sys \<Rightarrow> bool" where
  "q_sys_inv cap s \<longleftrightarrow>
     (\<exists>xs. qs_pushed s = qs_popped s @ xs \<and> q_rep cap (qs_queue s) (length (qs_popped s)) xs) \<and>
     (\<forall>i j. q_critical (qs_pcs s i) \<longrightarrow> q_critical (qs_pcs s j) \<longrightarrow> i = j) \<and>
     (q_lock (qs_queue s) \<noteq> 0 \<longleftrightarrow> (\<exists>i. q_critical (qs_pcs s i))) \<and>
     (\<forall>i. q_knows cap (qs_queue s) (qs_pushed s) (qs_popped s) (qs_pcs s i))"

lemma q_sys_invE:
  assumes "q_sys_inv cap s"
  obtains xs where "qs_pushed s = qs_popped s @ xs" "q_rep cap (qs_queue s) (length (qs_popped s)) xs"
    "\<And>i j. q_critical (qs_pcs s i) \<Longrightarrow> q_critical (qs_pcs s j) \<Longrightarrow> i = j"
    "q_lock (qs_queue s) \<noteq> 0 \<longleftrightarrow> (\<exists>i. q_critical (qs_pcs s i))"
    "\<And>i. q_knows cap (qs_queue s) (qs_pushed s) (qs_popped s) (qs_pcs s i)"
  using assms unfolding q_sys_inv_def by blast

text \<open>A step that only moves a program counter, inside or outside the critical section.\<close>

lemma q_sys_inv_goto:
  assumes "q_sys_inv cap s" and "q_critical pc = q_critical (qs_pcs s i)"
    and "q_knows cap (qs_queue s) (qs_pushed s) (qs_popped s) pc"
  shows "q_sys_inv cap (q_goto i pc s)"
  using assms unfolding q_sys_inv_def q_goto_def by (auto split: if_splits)

lemma q_rep_counters:
  "q_rep cap q n xs \<Longrightarrow> q_top q = of_nat n \<and> q_bottom q = of_nat (n + length xs) \<and> length xs \<le> unat cap"
  by (simp add: q_rep_def)

lemma of_nat_16_inj: "(of_nat m :: u16) = of_nat n \<Longrightarrow> n \<le> m \<Longrightarrow> m < n + 2 ^ 16 \<Longrightarrow> m = n"
  using of_nat_16_eq [of "m - n" n] by simp

lemma q_inv_pop_wins:
  assumes c: "good_capacity cap" and inv: "q_sys_inv cap s" and w: "q_window cap s"
    and pc: "qs_pcs s i = Pop_cas t n v" and top: "q_top (qs_queue s) = t"
  shows "q_sys_inv cap (q_goto i Q_idle (q_update (q_top_update (\<lambda>_. t + 1)) (s\<lparr>qs_popped := qs_popped s @ [v]\<rparr>)))"
proof -
  from inv obtain xs where xs: "qs_pushed s = qs_popped s @ xs"
    and r: "q_rep cap (qs_queue s) (length (qs_popped s)) xs"
    and k: "\<And>i. q_knows cap (qs_queue s) (qs_pushed s) (qs_popped s) (qs_pcs s i)" by (rule q_sys_invE) blast
  have know: "t = of_nat n" "n \<le> length (qs_popped s)" "n < length (qs_pushed s)"
    "n = length (qs_popped s) \<longrightarrow> v = qs_pushed s ! n" using k [of i] pc by simp_all
  have "length (qs_popped s) < n + 2 ^ 16" using w pc
    unfolding q_window_def by (metis add_lessD1 q_pop_stamp.simps(3))
  with top know q_rep_counters [OF r] have n: "n = length (qs_popped s)"
    using of_nat_16_inj [of "length (qs_popped s)" n] by simp
  with know xs obtain ys where ys: "xs = v # ys" by (cases xs) (auto simp: nth_append)
  with r q_rep_pop have "q_rep cap (qs_queue s\<lparr>q_top := t + 1\<rparr>) (Suc (length (qs_popped s))) ys"
    using top by blast
  moreover have "(\<exists>j. q_critical (qs_pcs s j)) \<longleftrightarrow> (\<exists>j. j \<noteq> i \<and> q_critical (qs_pcs s j))"
    using pc by (metis q_critical.simps(10))
  ultimately show ?thesis using inv xs ys q_knows_pop k pc
    unfolding q_sys_inv_def q_goto_def q_update_def by (auto split: if_splits)
qed

lemma q_inv_critical:
  assumes inv: "q_sys_inv cap s" and crit: "q_critical (qs_pcs s i)" and pc: "q_critical pc"
    and r: "\<exists>xs. pu = qs_popped s @ xs \<and> q_rep cap q (length (qs_popped s)) xs"
    and pu: "pu = qs_pushed s \<or> (\<exists>d. pu = qs_pushed s @ [d])"
    and l: "q_lock q = q_lock (qs_queue s)" and k: "q_knows cap q pu (qs_popped s) pc"
  shows "q_sys_inv cap (q_goto i pc (s\<lparr>qs_queue := q, qs_pushed := pu\<rparr>))"
proof -
  from inv crit have only: "\<not> q_critical (qs_pcs s j)" if "j \<noteq> i" for j using that by (metis q_sys_invE)
  have "q_knows cap q pu (qs_popped s) (qs_pcs s j)" if "j \<noteq> i" for j
    using inv only [OF that] pu q_knows_push q_knows_other unfolding q_sys_inv_def by metis
  with inv crit pc r l k only show ?thesis
    unfolding q_sys_inv_def q_goto_def by (auto split: if_splits)
qed

lemma q_step_inv:
  assumes c: "good_capacity cap" and st: "q_step cap s i t" and w: "q_window cap s" and inv: "q_sys_inv cap s"
  shows "q_sys_inv cap t"
proof -
  from inv obtain xs where xs: "qs_pushed s = qs_popped s @ xs"
    and r: "q_rep cap (qs_queue s) (length (qs_popped s)) xs"
    and k: "\<And>i. q_knows cap (qs_queue s) (qs_pushed s) (qs_popped s) (qs_pcs s i)" by (rule q_sys_invE) blast
  note cnt = q_rep_counters [OF r]
  from st show ?thesis
  proof cases
    case (pop_nonempty t n)
    have "n \<noteq> length (qs_pushed s)" using pop_nonempty(3) k [of i] pop_nonempty(2) cnt xs by auto
    then have "n < length (qs_pushed s)" using k [of i] pop_nonempty(2) xs by simp
    with pop_nonempty k [of i] inv show ?thesis by (auto intro: q_sys_inv_goto)
  next
    case (pop_entry t n)
    have "q_entries (qs_queue s) ! q_slot cap t = qs_pushed s ! n" if "n = length (qs_popped s)"
    proof -
      from that k [of i] pop_entry xs obtain y ys where "xs = y # ys" by (cases xs) auto
      moreover from this r q_rep_head [OF c] have "q_entries (qs_queue s) ! q_slot cap (q_top (qs_queue s)) = y" by blast
      ultimately show ?thesis using that cnt k [of i] pop_entry xs by (simp add: nth_append)
    qed
    with pop_entry k [of i] inv show ?thesis by (auto intro: q_sys_inv_goto)
  next
    case (pop_wins t n v)
    with q_inv_pop_wins [OF c inv w] show ?thesis by simp
  next
    case (push_lock d l)
    then have "q_lock (qs_queue s) = 0" "l = 1" "d \<noteq> 0" using k [of i] by (auto simp: res_simps)
    with inv push_lock xs r k show ?thesis
      unfolding q_sys_inv_def q_goto_def q_update_def
      by (auto split: if_splits simp: q_rep_def intro: q_knows_other)
  next
    case (push_room d b)
    with q_rep_full_iff [OF c r] k [of i] cnt xs have "length (qs_pushed s) < length (qs_popped s) + unat cap"
      by auto
    with push_room k [of i] inv show ?thesis by (auto intro: q_sys_inv_goto)
  next
    case (push_write d b)
    with k [of i] xs have b: "b = q_bottom (qs_queue s)" "length xs < unat cap" "d \<noteq> 0" by auto
    let ?q = "qs_queue s\<lparr>q_entries := (q_entries (qs_queue s))[q_slot cap b := d]\<rparr>"
    have "q_sys_inv cap (q_goto i (Push_publish d b) (s\<lparr>qs_queue := ?q, qs_pushed := qs_pushed s\<rparr>))"
      using push_write q_rep_write [OF c r b(2), of d] xs b by (intro q_inv_critical [OF inv]) auto
    moreover have "s\<lparr>qs_queue := ?q, qs_pushed := qs_pushed s\<rparr> = s\<lparr>qs_queue := ?q\<rparr>" by simp
    ultimately show ?thesis using push_write by (simp add: q_update_def)
  next
    case (push_publish d b)
    with k [of i] xs have b: "b = q_bottom (qs_queue s)" "length xs < unat cap" "d \<noteq> 0"
      "q_entries (qs_queue s) ! q_slot cap (q_bottom (qs_queue s)) = d" by auto
    from push_publish q_inv_critical [OF inv, of i "Push_unlock d" "qs_pushed s @ [d]"
        "qs_queue s\<lparr>q_bottom := b + 1\<rparr>"]
      q_rep_publish [OF c r b(2) b(4) b(3)] xs b show ?thesis
      by (simp add: q_update_def q_goto_def)
  next
    case (push_unlock v l)
    then have "l = 0" "\<And>j. q_critical (qs_pcs s j) \<Longrightarrow> j = i"
      using inv by (auto simp: res_simps q_sys_inv_def)
    with inv push_unlock xs r k show ?thesis
      unfolding q_sys_inv_def q_goto_def q_update_def
      by (auto split: if_splits simp: q_rep_def intro: q_knows_other)
  qed (use inv cnt k [of i] xs in \<open>auto intro!: q_sys_inv_goto\<close>)
qed

lemma q_reach_inv:
  assumes "q_reach cap s" and c: "good_capacity cap"
  shows "q_sys_inv cap s \<and> q_window cap s"
  using assms(1)
proof (induction rule: q_reach.induct)
  case (start q)
  with q_rep_init [OF c] show ?case by (auto simp: q_sys_inv_def q_window_def)
qed (use q_step_inv [OF c] in blast)

lemma q_reach_next:
  assumes "q_reach cap s" and "q_step cap s i t" and "length (qs_popped t) + unat cap < 2 ^ 16"
  shows "q_reach cap t"
proof (rule q_reach.step [OF assms(1,2)])
  show "q_window cap t" unfolding q_window_def using assms(3) by (meson trans_less_add2)
qed

text \<open>A reachable state: thread 0 has published a push of 7 and still holds the lock, thread 1 is
  about to compare and swap.\<close>

definition q_demo :: "q_pc \<Rightarrow> q_pc \<Rightarrow> q_sys" where
  "q_demo p0 p1 = \<lparr>qs_queue = \<lparr>q_entries = [7, 0], q_lock = 1, q_bottom = 1, q_top = 0\<rparr>,
     qs_pcs = (\<lambda>_. Q_idle)(0 := p0, 1 := p1), qs_pushed = [7], qs_popped = []\<rparr>"

lemma q_demo_reach: "q_reach 2 (q_demo (Push_unlock 7) (Pop_cas 0 0 7))"
proof -
  let ?s = "\<lambda>e l b p. \<lparr>qs_queue = \<lparr>q_entries = e, q_lock = l, q_bottom = b, q_top = 0\<rparr>,
     qs_pcs = (\<lambda>_. Q_idle)(0 := p), qs_pushed = [], qs_popped = []\<rparr>"
  have "q_reach 2 (?s [0, 0] 0 0 Q_idle)"
  proof -
    have "replicate 2 (0 :: addr) = [0, 0]" by (simp add: numeral_2_eq_2)
    with q_reach.start [of 2] show ?thesis
      by (simp add: utils_queue_init_def utils_spinlock_init_def fun_upd_def)
  qed
  from q_reach_next [OF this q_step.push_call [where i = 0 and d = 7]]
  have "q_reach 2 (?s [0, 0] 0 0 (Push_lock 7))" by (simp add: q_goto_def)
  from q_reach_next [OF this q_step.push_lock [where i = 0 and d = 7 and l = 1]]
  have "q_reach 2 (?s [0, 0] 1 0 (Push_read_bottom 7))" by (simp add: q_goto_def q_update_def)
  from q_reach_next [OF this q_step.push_bottom [where i = 0 and d = 7]]
  have "q_reach 2 (?s [0, 0] 1 0 (Push_read_top 7 0))" by (simp add: q_goto_def)
  from q_reach_next [OF this q_step.push_room [where i = 0 and d = 7 and b = 0]]
  have "q_reach 2 (?s [0, 0] 1 0 (Push_write 7 0))" by (simp add: q_goto_def q_distance_def)
  from q_reach_next [OF this q_step.push_write [where i = 0 and d = 7 and b = 0]]
  have "q_reach 2 (?s [7, 0] 1 0 (Push_publish 7 0))" by (simp add: q_goto_def q_update_def q_slot_def)
  from q_reach_next [OF this q_step.push_publish [where i = 0 and d = 7 and b = 0]]
  have published: "q_reach 2 (?s [7, 0] 1 1 (Push_unlock 7)\<lparr>qs_pushed := [7]\<rparr>)"
    by (simp add: q_goto_def q_update_def)
  have "q_reach 2 (q_demo (Push_unlock 7) Q_idle)"
  proof -
    have "(\<lambda>_. Q_idle)(0 := p, Suc 0 := Q_idle) = (\<lambda>_. Q_idle)(0 := p)" for p by auto
    with published show ?thesis by (simp add: q_demo_def)
  qed
  from q_reach_next [OF this q_step.pop_call [where i = 1]]
  have "q_reach 2 (q_demo (Push_unlock 7) Pop_read_top)" by (simp add: q_goto_def q_demo_def)
  from q_reach_next [OF this q_step.pop_top [where i = 1]]
  have "q_reach 2 (q_demo (Push_unlock 7) (Pop_read_bottom 0 0))" by (simp add: q_goto_def q_demo_def)
  from q_reach_next [OF this q_step.pop_nonempty [where i = 1 and t = 0 and n = 0]]
  have "q_reach 2 (q_demo (Push_unlock 7) (Pop_read_entry 0 0))" by (simp add: q_goto_def q_demo_def)
  from q_reach_next [OF this q_step.pop_entry [where i = 1 and t = 0 and n = 0]]
  show ?thesis by (simp add: q_goto_def q_demo_def q_slot_def)
qed

section \<open>Properties of the queue\<close>

text \<open>C6. The queue is a bounded FIFO: any sequence of \<open>utils_queue_push\<close> (of non-null pointers),
  \<open>utils_queue_pop\<close>, \<open>utils_queue_peek\<close> and \<open>utils_queue_used_slots\<close> calls on a freshly initialised
  queue, however often the 16 bit counters wrap around, returns exactly what the bounded list of
  \<open>UTILS_QUEUE_CAPACITY\<close> elements returns, and never trips an assertion or the lock.\<close>

theorem queue_refines_bounded_list:
  assumes "good_capacity cap" and "Push 0 \<notin> set ops"
  shows "\<exists>q q'. utils_queue_init cap = Ok q \<and>
    fifo_run (utils_queue_push cap) (utils_queue_pop cap) (utils_queue_peek cap)
      (\<lambda>q. unat (utils_queue_used_slots q)) q ops = Ok (fst (fifo_spec 0 (unat cap) [] ops), q') \<and>
    q_contents cap q' = snd (fifo_spec 0 (unat cap) [] ops)"
proof -
  from q_rep_init [OF assms(1)] obtain q where q: "utils_queue_init cap = Ok q" "q_lock q = 0" "q_rep cap q 0 []"
    by blast
  with q_invI [OF assms(1)] have "q_inv cap q" "q_contents cap q = []" by auto
  with bounded_fifo.run_refines [OF bounded_fifo_queue [OF assms(1)] _ assms(2), of q] q(1)
  show ?thesis by auto
qed

theorem queue_refines_bounded_list_witness:
  "\<exists>q q'. utils_queue_init 2 = Ok q \<and>
    fifo_run (utils_queue_push 2) (utils_queue_pop 2) (utils_queue_peek 2)
      (\<lambda>q. unat (utils_queue_used_slots q)) q [Push 7, Push 8, Push 9, Pop, Used_slots, Pop, Pop] =
      Ok ([Item 7, Item 8, Item 0, Item 7, Count 1, Item 8, Item 0], q') \<and> q_contents 2 q' = []"
proof -
  have "good_capacity 2" by (simp add: good_capacity_def)
  from queue_refines_bounded_list [OF this, of "[Push 7, Push 8, Push 9, Pop, Used_slots, Pop, Pop]"]
  show ?thesis by simp
qed



text \<open>A pop gives up only for a reason: it returns null after reading \<open>bottom\<close> only when the
  queue holds nothing at that moment, and after a failed compare and swap only when another pop has
  completed since it read \<open>top\<close>.\<close>

theorem queue_pop_gives_up:
  assumes "good_capacity cap" and "q_reach cap s"
  shows "(qs_pcs s i = Pop_read_bottom t n \<and> q_bottom (qs_queue s) = t \<longrightarrow> q_contents cap (qs_queue s) = []) \<and>
    (qs_pcs s i = Pop_cas t n v \<and> q_top (qs_queue s) \<noteq> t \<longrightarrow> n < length (qs_popped s))"
proof -
  from q_reach_inv [OF assms(2,1)] have inv: "q_sys_inv cap s" and w: "q_window cap s" by auto
  from inv obtain xs where xs: "qs_pushed s = qs_popped s @ xs"
    and r: "q_rep cap (qs_queue s) (length (qs_popped s)) xs"
    and k: "\<And>i. q_knows cap (qs_queue s) (qs_pushed s) (qs_popped s) (qs_pcs s i)" by (rule q_sys_invE) blast
  note cnt = q_rep_counters [OF r]
  have "xs = []" if pc: "qs_pcs s i = Pop_read_bottom t n" and b: "q_bottom (qs_queue s) = t"
  proof -
    from w pc have "length (qs_popped s) + unat cap < n + 2 ^ 16"
      unfolding q_window_def by (metis q_pop_stamp.simps(1))
    with of_nat_16_inj [of "length (qs_popped s) + length xs" n] k [of i] pc b cnt
    have "length (qs_popped s) + length xs = n" "n \<le> length (qs_popped s)" by simp_all
    then have "length xs = 0" by linarith
    then show ?thesis by simp
  qed
  moreover have "n < length (qs_popped s)" if "qs_pcs s i = Pop_cas t n v" "q_top (qs_queue s) \<noteq> t"
    using that k [of i] cnt by (cases "n = length (qs_popped s)") auto
  ultimately show ?thesis using q_rep_contents [OF assms(1) r] by auto
qed

theorem queue_pop_gives_up_witness:
  "\<exists>s. q_reach 2 s \<and> qs_pcs s 2 = Pop_cas 0 0 7 \<and> q_top (qs_queue s) \<noteq> 0 \<and> 0 < length (qs_popped s)"
proof -
  let ?r = "q_demo (Push_unlock 7) (Pop_cas 0 0 7)"
  let ?p = "\<lambda>pc. q_goto 2 pc ?r"
  from q_reach_next [OF q_demo_reach q_step.pop_call [where i = 2]]
  have "q_reach 2 (?p Pop_read_top)" by (simp add: q_demo_def q_goto_def)
  from q_reach_next [OF this q_step.pop_top [where i = 2]]
  have "q_reach 2 (?p (Pop_read_bottom 0 0))" by (simp add: q_demo_def q_goto_def)
  from q_reach_next [OF this q_step.pop_nonempty [where i = 2 and t = 0 and n = 0]]
  have "q_reach 2 (?p (Pop_read_entry 0 0))" by (simp add: q_demo_def q_goto_def)
  from q_reach_next [OF this q_step.pop_entry [where i = 2 and t = 0 and n = 0]]
  have "q_reach 2 (?p (Pop_cas 0 0 7))" by (simp add: q_demo_def q_goto_def q_slot_def)
  from q_reach_next [OF this q_step.pop_wins [where i = 1 and t = 0 and n = 0 and v = 7]]
  have "q_reach 2 (q_goto 1 Q_idle (q_update (q_top_update (\<lambda>_. 1)) (?p (Pop_cas 0 0 7)\<lparr>qs_popped := [7]\<rparr>)))"
    by (simp add: q_demo_def q_goto_def q_update_def)
  then obtain s where s: "q_reach 2 s" "qs_pcs s 2 = Pop_cas 0 0 7" "q_top (qs_queue s) \<noteq> 0"
    by (rule that) (simp_all add: q_demo_def q_goto_def q_update_def)
  have "good_capacity 2" by (simp add: good_capacity_def)
  from queue_pop_gives_up [OF this s(1), of 2 0 0 7] s show ?thesis by blast
qed

end
