(* ===== verification/Linked_List.thy ===== *)
theory Linked_List
  imports Prelude
begin

text \<open>
  \<open>src/utils/list.c\<close>: the intrusive circular doubly linked lists the runtime keeps its objects on.
  Nodes are embedded in objects, so the theory is polymorphic in the type \<open>'n\<close> of node addresses;
  the heap gives the fields of a node and the \<open>length\<close> of a list, which is identified with the
  address of its head node (\<open>&list->head == list\<close>, the head is the first member).

  \<open>list_rep h l ns\<close> relates a heap to the sequence of nodes on a list; the lemmas show what every
  operation does to that sequence and that it leaves lists on other nodes alone.
\<close>

section \<open>The operations\<close>

record 'n list_heap =
  nd_next :: "'n \<Rightarrow> 'n"
  nd_prev :: "'n \<Rightarrow> 'n"
  nd_owner :: "'n \<Rightarrow> addr"
  ls_length :: "'n \<Rightarrow> u64"

definition utils_list_node_init :: "'n list_heap \<Rightarrow> 'n \<Rightarrow> addr \<Rightarrow> 'n list_heap" where
  "utils_list_node_init h node own =
     h\<lparr>nd_next := (nd_next h)(node := node), nd_prev := (nd_prev h)(node := node),
       nd_owner := (nd_owner h)(node := own)\<rparr>"

definition utils_list_init :: "'n list_heap \<Rightarrow> 'n \<Rightarrow> addr \<Rightarrow> 'n list_heap" where
  "utils_list_init h l own = utils_list_node_init (h\<lparr>ls_length := (ls_length h)(l := 0)\<rparr>) l own"

definition utils_list_node_add :: "'n list_heap \<Rightarrow> 'n \<Rightarrow> 'n \<Rightarrow> 'n list_heap" where
  "utils_list_node_add h head node =
     (let h = h\<lparr>nd_prev := (nd_prev h)(nd_next h head := node)\<rparr>;
          h = h\<lparr>nd_next := (nd_next h)(node := nd_next h head)\<rparr>;
          h = h\<lparr>nd_prev := (nd_prev h)(node := head)\<rparr>
      in h\<lparr>nd_next := (nd_next h)(head := node)\<rparr>)"

definition utils_list_add :: "'n list_heap \<Rightarrow> 'n \<Rightarrow> 'n \<Rightarrow> 'n list_heap" where
  "utils_list_add h l node =
     (let h = utils_list_node_add h l node
      in h\<lparr>ls_length := (ls_length h)(l := ls_length h l + 1)\<rparr>)"

definition utils_list_del :: "'n list_heap \<Rightarrow> 'n \<Rightarrow> 'n \<Rightarrow> 'n list_heap" where
  "utils_list_del h l node =
     (let h = h\<lparr>nd_prev := (nd_prev h)(nd_next h node := nd_prev h node)\<rparr>;
          h = h\<lparr>nd_next := (nd_next h)(nd_prev h node := nd_next h node)\<rparr>;
          h = h\<lparr>ls_length := (ls_length h)(l := ls_length h l - 1)\<rparr>
      in h\<lparr>nd_next := (nd_next h)(node := node), nd_prev := (nd_prev h)(node := node)\<rparr>)"

text \<open>The null pointer the two pops return for an empty list is \<open>None\<close>.\<close>

definition utils_list_pop_head :: "'n list_heap \<Rightarrow> 'n \<Rightarrow> 'n option \<times> 'n list_heap" where
  "utils_list_pop_head h l =
     (if ls_length h l = 0 then (None, h)
      else let node = nd_next h l in (Some node, utils_list_del h l node))"

definition utils_list_pop_tail :: "'n list_heap \<Rightarrow> 'n \<Rightarrow> 'n option \<times> 'n list_heap" where
  "utils_list_pop_tail h l =
     (if ls_length h l = 0 then (None, h)
      else let node = nd_prev h l in (Some node, utils_list_del h l node))"

text \<open>
  The macros \<open>utils_list_for_each\<close> and \<open>utils_list_for_each_reverse\<close>: the nodes visited from \<open>itr\<close> on,
  in order. On a heap where the links do not come back to the head the C loop does not end and the
  value is \<open>None\<close>.
\<close>

partial_function (option) list_walk :: "('n \<Rightarrow> 'n) \<Rightarrow> 'n \<Rightarrow> 'n \<Rightarrow> 'n list option" where
  "list_walk nxt l itr =
     (if itr = l then Some []
      else Option.bind (list_walk nxt l (nxt itr)) (\<lambda>ns. Some (itr # ns)))"

declare list_walk.simps [code]

definition utils_list_for_each :: "'n list_heap \<Rightarrow> 'n \<Rightarrow> 'n list option" where
  "utils_list_for_each h l = list_walk (nd_next h) l (nd_next h l)"

definition utils_list_for_each_reverse :: "'n list_heap \<Rightarrow> 'n \<Rightarrow> 'n list option" where
  "utils_list_for_each_reverse h l = list_walk (nd_prev h) l (nd_prev h l)"

text \<open>\<open>utils_list_to_array\<close> returns the length and, when it is given an array, what it wrote there.\<close>

definition utils_list_to_array :: "'n list_heap \<Rightarrow> 'n \<Rightarrow> bool \<Rightarrow> (u64 \<times> addr list) res" where
  "utils_list_to_array h l array =
     (if \<not> array then Ok (ls_length h l, [])
      else if ls_length h l \<noteq> 0 then
        (case utils_list_for_each h l of
           None \<Rightarrow> Fault (Deadlock ''utils_list_for_each'')
         | Some ns \<Rightarrow> Ok (ls_length h l, map (nd_owner h) ns))
      else Ok (ls_length h l, []))"

definition utils_list_node_linked :: "'n list_heap \<Rightarrow> 'n \<Rightarrow> bool" where
  "utils_list_node_linked h node \<longleftrightarrow> nd_next h node \<noteq> node"

section \<open>Chains of nodes\<close>

fun linked :: "'n list_heap \<Rightarrow> 'n list \<Rightarrow> bool" where
  "linked h (a # b # ns) \<longleftrightarrow> nd_next h a = b \<and> nd_prev h b = a \<and> linked h (b # ns)"
| "linked h _ \<longleftrightarrow> True"

lemma linked_append: "linked h (as @ x # bs) \<longleftrightarrow> linked h (as @ [x]) \<and> linked h (x # bs)"
  by (induction as rule: induct_list012) auto

lemma linked_mid:
  "linked h (as @ x # y # bs) \<longleftrightarrow>
     linked h (as @ [x]) \<and> nd_next h x = y \<and> nd_prev h y = x \<and> linked h (y # bs)"
  by (subst linked_append) simp

lemma cons_snoc: obtains ps p where "l # as = ps @ [p]"
  by (cases "l # as" rule: rev_cases) auto

lemma linked_cong:
  assumes "\<And>a. a \<in> set (butlast ns) \<Longrightarrow> nd_next h' a = nd_next h a"
    and "\<And>a. a \<in> set (tl ns) \<Longrightarrow> nd_prev h' a = nd_prev h a"
  shows "linked h' ns = linked h ns"
  using assms by (induction ns rule: induct_list012) auto

text \<open>The number of values of \<open>size_t\<close>.\<close>

definition size_max :: nat where
  "size_max = 2 ^ 64"

definition list_rep :: "'n list_heap \<Rightarrow> 'n \<Rightarrow> 'n list \<Rightarrow> bool" where
  "list_rep h l ns \<longleftrightarrow>
     distinct (l # ns) \<and> linked h (l # ns @ [l]) \<and> ls_length h l = of_nat (length ns)"

lemma list_rep_frame:
  assumes "list_rep h l ns"
    and "\<And>a. a \<in> set (l # ns) \<Longrightarrow> nd_next h' a = nd_next h a \<and> nd_prev h' a = nd_prev h a"
    and "ls_length h' l = ls_length h l"
  shows "list_rep h' l ns"
proof -
  have "linked h' (l # ns @ [l]) = linked h (l # ns @ [l])"
    by (rule linked_cong) (use assms(2) in \<open>auto simp: butlast_append\<close>)
  with assms(1,3) show ?thesis by (simp add: list_rep_def)
qed

lemma list_rep_init: "list_rep (utils_list_init h l own) l []"
  by (simp add: list_rep_def utils_list_init_def utils_list_node_init_def)

lemma list_rep_add:
  assumes "list_rep h l ns" and "n \<notin> set (l # ns)"
  shows "list_rep (utils_list_add h l n) l (n # ns)"
proof -
  obtain f fs where fs: "ns @ [l] = f # fs" by (cases ns) auto
  from assms fs have lk: "linked h (l # f # fs)" by (simp add: list_rep_def)
  then have f: "nd_next h l = f" by simp
  have ln: "l \<noteq> n" using assms(2) by auto
  have nf: "n \<notin> set (f # fs)" using assms(2) by (simp flip: fs)
  have dist: "distinct (f # fs)" using assms(1) by (simp add: list_rep_def flip: fs)
  have notl: "l \<notin> set (butlast (f # fs))" using assms(1) by (simp add: list_rep_def flip: fs)
  let ?h = "utils_list_add h l n"
  have links: "nd_next ?h = (nd_next h)(n := f, l := n)" "nd_prev ?h = (nd_prev h)(f := n, n := l)"
    "ls_length ?h l = ls_length h l + 1"
    using ln f by (simp_all add: utils_list_add_def utils_list_node_add_def Let_def)
  have "linked ?h (f # fs) = linked h (f # fs)"
  proof (rule linked_cong)
    fix a assume a: "a \<in> set (butlast (f # fs))"
    then have "a \<noteq> l" using notl by metis
    moreover have "a \<noteq> n" using a nf in_set_butlastD by metis
    ultimately show "nd_next ?h a = nd_next h a" by (simp add: links)
  next
    fix a assume "a \<in> set (tl (f # fs))"
    then have "a \<noteq> n" "a \<noteq> f" using nf dist by auto
    then show "nd_prev ?h a = nd_prev h a" by (simp add: links)
  qed
  with lk ln nf have "linked ?h (l # n # f # fs)" by (auto simp: links)
  with assms show ?thesis by (auto simp: list_rep_def links fs)
qed

lemma list_rep_del:
  assumes "list_rep h l (as @ n # bs)"
  shows "list_rep (utils_list_del h l n) l (as @ bs)" and "\<not> utils_list_node_linked (utils_list_del h l n) n"
proof -
  obtain ps p where ps: "l # as = ps @ [p]" by (rule cons_snoc)
  obtain q qs where qs: "bs @ [l] = q # qs" by (cases bs) auto
  have whole: "l # (as @ n # bs) @ [l] = ps @ p # n # q # qs" using ps qs by simp
  from assms have lk: "linked h (ps @ p # n # q # qs)" unfolding list_rep_def whole by blast
  then have l1: "linked h (ps @ [p])" and l2: "linked h (q # qs)"
    and pn: "nd_prev h n = p" and nq: "nd_next h n = q"
    by (simp_all add: linked_mid)
  have d: "distinct (ps @ [p])" "distinct (l # as @ n # bs)"
    unfolding ps [symmetric] using assms by (auto simp: list_rep_def)
  have n: "n \<notin> set (ps @ [p])" "n \<notin> set (q # qs)"
    using d(2) by (simp_all flip: ps qs) auto
  let ?h = "utils_list_del h l n"
  have links: "nd_next ?h = (nd_next h)(p := q, n := n)" "nd_prev ?h = (nd_prev h)(q := p, n := n)"
    "ls_length ?h l = ls_length h l - 1"
    using pn nq n by (auto simp: utils_list_del_def Let_def)
  have "linked ?h (ps @ [p]) = linked h (ps @ [p])"
  proof (rule linked_cong)
    fix a assume a: "a \<in> set (butlast (ps @ [p]))"
    then have "a \<noteq> n" "a \<noteq> p" using n d(1) by auto
    then show "nd_next ?h a = nd_next h a" by (simp add: links)
  next
    fix a assume a: "a \<in> set (tl (ps @ [p]))"
    then have "a \<in> set as" using ps by (metis list.sel(3))
    then have "a \<notin> set (bs @ [l])" "a \<noteq> n" using d(2) by auto
    then have "a \<noteq> q" "a \<noteq> n" using qs by auto
    then show "nd_prev ?h a = nd_prev h a" by (simp add: links)
  qed
  moreover have "linked ?h (q # qs) = linked h (q # qs)"
  proof (rule linked_cong)
    fix a assume a: "a \<in> set (butlast (q # qs))"
    then have "a \<in> set bs" using qs by (metis butlast_snoc)
    then have "a \<notin> set (l # as)" "a \<noteq> n" using d(2) by auto
    then have "a \<noteq> p" "a \<noteq> n" using ps by auto
    then show "nd_next ?h a = nd_next h a" by (simp add: links)
  next
    fix a assume a: "a \<in> set (tl (q # qs))"
    have "distinct (q # qs)" using d(2) by (simp flip: qs)
    with a n have "a \<noteq> n" "a \<noteq> q" by auto
    then show "nd_prev ?h a = nd_prev h a" by (simp add: links)
  qed
  ultimately have "linked ?h (ps @ p # q # qs)"
    using l1 l2 n by (auto simp: linked_mid links)
  moreover have "l # (as @ bs) @ [l] = ps @ p # q # qs" using ps qs by simp
  ultimately show "list_rep ?h l (as @ bs)" using assms d by (simp add: list_rep_def links)
  show "\<not> utils_list_node_linked ?h n" by (simp add: utils_list_node_linked_def links)
qed

lemma list_rep_length_0:
  "list_rep h l ns \<Longrightarrow> length ns < size_max \<Longrightarrow> ls_length h l = 0 \<longleftrightarrow> ns = []"
  by (auto simp: list_rep_def word_of_nat_eq_0_iff size_max_def dest: dvd_imp_le)

lemma list_rep_first: "list_rep h l (n # ns) \<Longrightarrow> nd_next h l = n"
  by (simp add: list_rep_def)

lemma list_rep_last: "list_rep h l (ns @ [n]) \<Longrightarrow> nd_prev h l = n"
  using linked_mid [of h "l # ns" n l "[]"] by (simp add: list_rep_def)

lemma list_rep_linked:
  assumes "list_rep h l ns" and "n \<in> set ns"
  shows "utils_list_node_linked h n"
proof -
  from assms(2) obtain as bs where ns: "ns = as @ n # bs" by (auto simp: in_set_conv_decomp)
  obtain q qs where qs: "bs @ [l] = q # qs" by (cases bs) auto
  from assms(1) have "linked h ((l # as) @ n # bs @ [l])" by (simp add: list_rep_def ns)
  then have "nd_next h n = q" unfolding qs linked_mid by blast
  moreover have "q \<in> set (bs @ [l])" by (simp add: qs)
  ultimately show ?thesis using assms(1) by (auto simp: utils_list_node_linked_def list_rep_def ns)
qed

lemma list_walk_next: "linked h (ns @ [l]) \<Longrightarrow> l \<notin> set ns \<Longrightarrow> list_walk (nd_next h) l (hd (ns @ [l])) = Some ns"
proof (induction ns)
  case (Cons n ns)
  obtain f fs where fs: "ns @ [l] = f # fs" by (cases ns) auto
  with Cons.prems have "nd_next h n = hd (ns @ [l])" "linked h (ns @ [l])" by (auto simp: fs)
  with Cons show ?case by (subst list_walk.simps) auto
qed (simp add: list_walk.simps)

lemma list_walk_prev:
  "linked h (l # ns) \<Longrightarrow> l \<notin> set ns \<Longrightarrow> list_walk (nd_prev h) l (last (l # ns)) = Some (rev ns)"
proof (induction ns rule: rev_induct)
  case (snoc n ns)
  obtain p ps where ps: "l # ns = ps @ [p]" by (rule cons_snoc)
  have "l # ns @ [n] = ps @ p # [n]" using arg_cong [OF ps, of "\<lambda>xs. xs @ [n]"] by simp
  with snoc.prems have "linked h (ps @ p # [n])" by simp
  then have "nd_prev h n = last (l # ns)" "linked h (l # ns)"
    unfolding linked_mid ps by simp_all
  with snoc show ?case by (subst list_walk.simps) auto
qed (simp add: list_walk.simps)

lemma list_rep_for_each: "list_rep h l ns \<Longrightarrow> utils_list_for_each h l = Some ns"
proof -
  assume r: "list_rep h l ns"
  obtain f fs where fs: "ns @ [l] = f # fs" by (cases ns) auto
  with r have "linked h (ns @ [l])" "nd_next h l = hd (ns @ [l])" "l \<notin> set ns"
    by (auto simp: list_rep_def fs)
  then show ?thesis using list_walk_next by (simp add: utils_list_for_each_def)
qed

lemma list_rep_for_each_reverse: "list_rep h l ns \<Longrightarrow> utils_list_for_each_reverse h l = Some (rev ns)"
proof -
  assume r: "list_rep h l ns"
  obtain p ps where ps: "l # ns = ps @ [p]" by (rule cons_snoc)
  have "l # ns @ [l] = ps @ p # [l]" using arg_cong [OF ps, of "\<lambda>xs. xs @ [l]"] by simp
  with r have "linked h (ps @ p # [l])" by (simp add: list_rep_def)
  then have "nd_prev h l = last (l # ns)" "linked h (l # ns)"
    unfolding linked_mid ps by simp_all
  moreover have "l \<notin> set ns" using r by (simp add: list_rep_def)
  ultimately show ?thesis using list_walk_prev [of h l ns] by (simp add: utils_list_for_each_reverse_def)
qed

lemma list_rep_to_array:
  assumes "list_rep h l ns" and "length ns < size_max"
  shows "utils_list_to_array h l True = Ok (of_nat (length ns), map (nd_owner h) ns)"
    and "utils_list_to_array h l False = Ok (of_nat (length ns), [])"
  using assms list_rep_length_0 [OF assms] list_rep_for_each [OF assms(1)]
  by (auto simp: utils_list_to_array_def list_rep_def)

lemma list_del_remove1:
  assumes "list_rep h l ns" and "n \<in> set ns"
  shows "list_rep (utils_list_del h l n) l (remove1 n ns)"
proof -
  from assms(2) obtain as bs where ns: "ns = as @ n # bs" "n \<notin> set as" by (meson split_list_first)
  with list_rep_del(1) [of h l as n bs] assms(1) show ?thesis by (simp add: remove1_append)
qed

text \<open>What the operations leave alone.\<close>

lemma list_add_other:
  assumes "list_rep h l ns" and "a \<notin> set (l # n # ns)"
  shows "nd_next (utils_list_add h l n) a = nd_next h a" "nd_prev (utils_list_add h l n) a = nd_prev h a"
proof -
  have "nd_next h l \<in> set (l # ns)" using assms(1) by (cases ns) (auto simp: list_rep_def)
  then have "nd_next h l \<noteq> a" using assms(2) by auto
  with assms(2) show "nd_next (utils_list_add h l n) a = nd_next h a" "nd_prev (utils_list_add h l n) a = nd_prev h a"
    by (auto simp: utils_list_add_def utils_list_node_add_def Let_def)
qed

lemma list_del_other:
  assumes "list_rep h l ns" and "n \<in> set ns" and "a \<notin> set (l # ns)"
  shows "nd_next (utils_list_del h l n) a = nd_next h a" "nd_prev (utils_list_del h l n) a = nd_prev h a"
proof -
  from assms(2) obtain as bs where ns: "ns = as @ n # bs" by (auto simp: in_set_conv_decomp)
  obtain ps p where ps: "l # as = ps @ [p]" by (rule cons_snoc)
  obtain q qs where qs: "bs @ [l] = q # qs" by (cases bs) auto
  have whole: "l # (as @ n # bs) @ [l] = ps @ p # n # q # qs" using ps qs by simp
  from assms(1) have "linked h (ps @ p # n # q # qs)" unfolding list_rep_def ns whole by blast
  then have "nd_prev h n = p" "nd_next h n = q" by (simp_all add: linked_mid)
  moreover have "p \<in> set (l # as)" "q \<in> set (bs @ [l])" by (simp_all add: ps qs)
  ultimately have "nd_prev h n \<noteq> a" "nd_next h n \<noteq> a" "n \<noteq> a" using assms(3) by (auto simp: ns)
  then show "nd_next (utils_list_del h l n) a = nd_next h a" "nd_prev (utils_list_del h l n) a = nd_prev h a"
    by (auto simp: utils_list_del_def Let_def)
qed

lemma list_ops_length:
  "l' \<noteq> l \<Longrightarrow> ls_length (utils_list_add h l n) l' = ls_length h l'"
  "l' \<noteq> l \<Longrightarrow> ls_length (utils_list_del h l n) l' = ls_length h l'"
  "ls_length (utils_list_node_init h n own) = ls_length h"
  by (simp_all add: utils_list_add_def utils_list_node_add_def utils_list_del_def
      utils_list_node_init_def Let_def)

lemma list_ops_owner [simp]:
  "nd_owner (utils_list_add h l n) = nd_owner h"
  "nd_owner (utils_list_del h l n) = nd_owner h"
  "nd_owner (utils_list_node_init h n own) = (nd_owner h)(n := own)"
  by (simp_all add: utils_list_add_def utils_list_node_add_def utils_list_del_def
      utils_list_node_init_def Let_def)

section \<open>Many lists over one heap\<close>

text \<open>
  A family gives, for the head of every list in use, the nodes on it. The lists of a family are
  well linked and do not share nodes.
\<close>

definition footprint :: "('n \<rightharpoonup> 'n list) \<Rightarrow> 'n set" where
  "footprint L = {n. \<exists>l ns. L l = Some ns \<and> n \<in> set (l # ns)}"

definition lists_rep :: "'n list_heap \<Rightarrow> ('n \<rightharpoonup> 'n list) \<Rightarrow> bool" where
  "lists_rep h L \<longleftrightarrow>
     (\<forall>l ns. L l = Some ns \<longrightarrow> list_rep h l ns \<and> length ns < size_max) \<and>
     (\<forall>l ns l' ns'. L l = Some ns \<longrightarrow> L l' = Some ns' \<longrightarrow> l \<noteq> l' \<longrightarrow> set (l # ns) \<inter> set (l' # ns') = {})"

lemma lists_repD:
  assumes "lists_rep h L" and "L l = Some ns"
  shows "list_rep h l ns" "length ns < size_max"
    and "L l' = Some ns' \<Longrightarrow> l \<noteq> l' \<Longrightarrow> a \<in> set (l' # ns') \<Longrightarrow> a \<notin> set (l # ns)"
  using assms unfolding lists_rep_def by blast+

lemma lists_repI:
  assumes "\<And>l ns. L l = Some ns \<Longrightarrow> list_rep h l ns \<and> length ns < size_max"
    and "\<And>l ns l' ns'. L l = Some ns \<Longrightarrow> L l' = Some ns' \<Longrightarrow> l \<noteq> l' \<Longrightarrow> set (l # ns) \<inter> set (l' # ns') = {}"
  shows "lists_rep h L"
  using assms unfolding lists_rep_def by blast

lemma footprintI: "L l = Some ns \<Longrightarrow> n \<in> set (l # ns) \<Longrightarrow> n \<in> footprint L"
  by (auto simp: footprint_def)

lemma footprint_upd:
  "footprint (L(l \<mapsto> ns)) = set (l # ns) \<union> footprint (L(l := None))"
  "footprint (L(l := None)) \<subseteq> footprint L"
  by (auto simp: footprint_def split: if_splits)

text \<open>Replacing one list by another, when the heap changed only on its nodes.\<close>

lemma lists_rep_change:
  assumes r: "lists_rep h L" and L: "L l = Some ns" and new: "list_rep h' l ns'" and len: "length ns' < size_max"
    and fresh: "set ns' \<subseteq> set ns \<union> - footprint L"
    and same: "\<And>a. a \<notin> set (l # ns @ ns') \<Longrightarrow> nd_next h' a = nd_next h a \<and> nd_prev h' a = nd_prev h a"
    and lens: "\<And>l'. l' \<noteq> l \<Longrightarrow> ls_length h' l' = ls_length h l'"
  shows "lists_rep h' (L(l \<mapsto> ns'))"
proof -
  have out: "a \<notin> set (l # ns @ ns')" if "L l' = Some ms" "l' \<noteq> l" "a \<in> set (l' # ms)" for l' ms a
  proof -
    have "a \<notin> set (l # ns)" using lists_repD(3) [OF r L that(1)] that by metis
    moreover have "a \<notin> set ns'" using fresh footprintI [of L l' ms a] that \<open>a \<notin> set (l # ns)\<close> by auto
    ultimately show ?thesis by simp
  qed
  have "list_rep h' l' ms \<and> length ms < size_max" if "L l' = Some ms" "l' \<noteq> l" for l' ms
    using list_rep_frame [OF lists_repD(1) [OF r that(1)], of h'] out [OF that] same lens [OF that(2)]
      lists_repD(2) [OF r that(1)] by blast
  moreover have "set (l # ns') \<inter> set (l' # ms) = {}" if "L l' = Some ms" "l' \<noteq> l" for l' ms
    using out [OF that] by auto
  moreover have "set (l' # ms) \<inter> set (l'' # ms') = {}" if "L l' = Some ms" "L l'' = Some ms'" "l' \<noteq> l''" for l' ms l'' ms'
    using r that unfolding lists_rep_def by blast
  ultimately show ?thesis using new len by (intro lists_repI) (metis Int_commute fun_upd_apply option.inject)+
qed

lemma lists_add:
  assumes r: "lists_rep h L" and L: "L l = Some ns" and n: "n \<notin> footprint L" and len: "Suc (length ns) < size_max"
  shows "lists_rep (utils_list_add h l n) (L(l \<mapsto> n # ns))"
proof (rule lists_rep_change [OF r L])
  note lr = lists_repD(1) [OF r L]
  have "n \<notin> set (l # ns)" using n footprintI [of L l ns n] L by blast
  then show "list_rep (utils_list_add h l n) l (n # ns)" by (rule list_rep_add [OF lr])
  show "nd_next (utils_list_add h l n) a = nd_next h a \<and> nd_prev (utils_list_add h l n) a = nd_prev h a"
    if "a \<notin> set (l # ns @ n # ns)" for a using list_add_other [OF lr, of a n] that by simp
qed (use n len in \<open>simp_all add: list_ops_length\<close>)

lemma lists_del:
  assumes r: "lists_rep h L" and L: "L l = Some ns" and n: "n \<in> set ns"
  shows "lists_rep (utils_list_del h l n) (L(l \<mapsto> remove1 n ns))"
proof (rule lists_rep_change [OF r L])
  note lr = lists_repD(1) [OF r L]
  show "list_rep (utils_list_del h l n) l (remove1 n ns)" by (rule list_del_remove1 [OF lr n])
  show "nd_next (utils_list_del h l n) a = nd_next h a \<and> nd_prev (utils_list_del h l n) a = nd_prev h a"
    if "a \<notin> set (l # ns @ remove1 n ns)" for a using list_del_other [OF lr n, of a] that by simp
  show "length (remove1 n ns) < size_max" 
    using lists_repD(2) [OF r L] by (simp add: length_remove1 less_imp_diff_less)
  show "set (remove1 n ns) \<subseteq> set ns \<union> - footprint L" using set_remove1_subset by fast
qed (simp add: list_ops_length)

lemma lists_pop_head:
  assumes r: "lists_rep h L" and L: "L l = Some ns"
  shows "case ns of [] \<Rightarrow> utils_list_pop_head h l = (None, h)
    | n # ms \<Rightarrow> \<exists>h'. utils_list_pop_head h l = (Some n, h') \<and> lists_rep h' (L(l \<mapsto> ms))"
proof (cases ns)
  case Nil
  with list_rep_length_0 [OF lists_repD(1,2) [OF r L]] show ?thesis by (auto simp: utils_list_pop_head_def)
next
  case (Cons n ms)
  with list_rep_length_0 [OF lists_repD(1,2) [OF r L]] list_rep_first [of h l n ms] lists_repD(1) [OF r L]
  have "utils_list_pop_head h l = (Some n, utils_list_del h l n)" by (auto simp: utils_list_pop_head_def Let_def)
  with lists_del [OF r L, of n] Cons show ?thesis by simp
qed

lemma lists_pop_tail:
  assumes r: "lists_rep h L" and L: "L l = Some ns"
  shows "if ns = [] then utils_list_pop_tail h l = (None, h)
    else \<exists>h'. utils_list_pop_tail h l = (Some (last ns), h') \<and> lists_rep h' (L(l \<mapsto> butlast ns))"
proof (cases ns rule: rev_cases)
  case Nil
  with list_rep_length_0 [OF lists_repD(1,2) [OF r L]] show ?thesis by (auto simp: utils_list_pop_tail_def)
next
  case (snoc ms n)
  with list_rep_length_0 [OF lists_repD(1,2) [OF r L]] list_rep_last [of h l ms n] lists_repD(1) [OF r L]
  have "utils_list_pop_tail h l = (Some n, utils_list_del h l n)" by (auto simp: utils_list_pop_tail_def Let_def)
  moreover have "n \<notin> set ms" using lists_repD(1) [OF r L] snoc by (auto simp: list_rep_def)
  ultimately show ?thesis using lists_del [OF r L, of n] snoc by (simp add: remove1_append)
qed

lemma list_init_fields:
  "nd_next (utils_list_node_init h n own) = (nd_next h)(n := n)"
  "nd_prev (utils_list_node_init h n own) = (nd_prev h)(n := n)"
  "nd_next (utils_list_init h n own) = (nd_next h)(n := n)"
  "nd_prev (utils_list_init h n own) = (nd_prev h)(n := n)"
  "ls_length (utils_list_init h n own) = (ls_length h)(n := 0)"
  by (simp_all add: utils_list_init_def utils_list_node_init_def)

lemma lists_node_init:
  assumes "lists_rep h L" and "n \<notin> footprint L"
  shows "lists_rep (utils_list_node_init h n own) L"
proof -
  have "list_rep (utils_list_node_init h n own) l ns" if "L l = Some ns" for l ns
  proof (rule list_rep_frame [OF lists_repD(1) [OF assms(1) that]])
    show "nd_next (utils_list_node_init h n own) a = nd_next h a \<and> nd_prev (utils_list_node_init h n own) a = nd_prev h a"
      if "a \<in> set (l # ns)" for a
      using footprintI [of L l ns a] that \<open>L l = Some ns\<close> assms(2) by (auto simp: list_init_fields)
  qed (simp add: list_ops_length)
  with assms(1) show ?thesis unfolding lists_rep_def by blast
qed

lemma lists_init:
  fixes h :: "'n list_heap"
  assumes r: "lists_rep h L" and l: "l \<notin> footprint L"
  shows "lists_rep (utils_list_init h l own) (L(l \<mapsto> []))"
proof -
  have ne: "a \<noteq> l" if "L l' = Some ns" "a \<in> set (l' # ns)" for l' ns a using footprintI [of L l' ns a] that l by blast
  have "list_rep (utils_list_init h l own) l' ns" if "L l' = Some ns" for l' ns
    using ne [OF that] by (intro list_rep_frame [OF lists_repD(1) [OF r that]]) (auto simp: list_init_fields)
  moreover have "set [l] \<inter> set (l' # ns) = {}" if "L l' = Some ns" for l' ns
    using ne [OF that] by auto
  moreover have "set (l' # ms) \<inter> set (l'' # ms') = {}" if "L l' = Some ms" "L l'' = Some ms'" "l' \<noteq> l''" for l' ms l'' ms'
    using r that unfolding lists_rep_def by blast
  moreover have "length ns < size_max" if "L l' = Some ns" for l' ns using lists_repD(2) [OF r that] .
  moreover have "list_rep (utils_list_init h l own) l []" "length ([] :: 'n list) < size_max"
    by (simp_all add: list_rep_init size_max_def)
  ultimately show ?thesis by (intro lists_repI) (metis Int_commute fun_upd_apply option.inject)+
qed

lemma lists_drop: "lists_rep h L \<Longrightarrow> lists_rep h (L(l := None))"
  by (auto simp: lists_rep_def split: if_splits)

lemma lists_unlinked: "lists_rep h L \<Longrightarrow> \<not> utils_list_node_linked h n \<Longrightarrow> L l = Some ns \<Longrightarrow> n \<notin> set ns"
  using list_rep_linked lists_repD(1) by metis

section \<open>The interface: sequences of nodes\<close>

text \<open>
  What the clients of the lists (object repository, orphan list, the virtual accelerators of an
  accelerator) rely on, stated over the family of sequences.
\<close>

datatype 'n list_op = L_add 'n 'n | L_del 'n 'n | L_pop_head 'n | L_pop_tail 'n

text \<open>\<open>None\<close>: the call breaks a precondition (no such list, the node is on a list already, or not on it).\<close>

fun seq_step :: "('n \<rightharpoonup> 'n list) \<Rightarrow> 'n list_op \<Rightarrow> ('n option \<times> ('n \<rightharpoonup> 'n list)) option" where
  "seq_step L (L_add l n) = (case L l of None \<Rightarrow> None
     | Some ns \<Rightarrow> if n \<notin> footprint L \<and> Suc (length ns) < size_max then Some (None, L(l \<mapsto> n # ns)) else None)"
| "seq_step L (L_del l n) = (case L l of None \<Rightarrow> None
     | Some ns \<Rightarrow> if n \<in> set ns then Some (Some n, L(l \<mapsto> remove1 n ns)) else None)"
| "seq_step L (L_pop_head l) = (case L l of None \<Rightarrow> None
     | Some [] \<Rightarrow> Some (None, L) | Some (n # ns) \<Rightarrow> Some (Some n, L(l \<mapsto> ns)))"
| "seq_step L (L_pop_tail l) = (case L l of None \<Rightarrow> None
     | Some ns \<Rightarrow> if ns = [] then Some (None, L) else Some (Some (last ns), L(l \<mapsto> butlast ns)))"

fun seq_run :: "('n \<rightharpoonup> 'n list) \<Rightarrow> 'n list_op list \<Rightarrow> ('n option list \<times> ('n \<rightharpoonup> 'n list)) option" where
  "seq_run L [] = Some ([], L)"
| "seq_run L (op # ops) = Option.bind (seq_step L op) (\<lambda>(r, L).
     Option.bind (seq_run L ops) (\<lambda>(rs, L). Some (r # rs, L)))"

fun list_run :: "('h \<Rightarrow> 'n \<Rightarrow> 'n \<Rightarrow> 'h) \<Rightarrow> ('h \<Rightarrow> 'n \<Rightarrow> 'n \<Rightarrow> 'h) \<Rightarrow>
    ('h \<Rightarrow> 'n \<Rightarrow> 'n option \<times> 'h) \<Rightarrow> ('h \<Rightarrow> 'n \<Rightarrow> 'n option \<times> 'h) \<Rightarrow> 'h \<Rightarrow> 'n list_op list \<Rightarrow> 'n option list \<times> 'h" where
  "list_run add del ph pt h [] = ([], h)"
| "list_run add del ph pt h (L_add l n # ops) = (let (rs, h) = list_run add del ph pt (add h l n) ops in (None # rs, h))"
| "list_run add del ph pt h (L_del l n # ops) = (let (rs, h) = list_run add del ph pt (del h l n) ops in (Some n # rs, h))"
| "list_run add del ph pt h (L_pop_head l # ops) =
     (let (r, h) = ph h l; (rs, h) = list_run add del ph pt h ops in (r # rs, h))"
| "list_run add del ph pt h (L_pop_tail l # ops) =
     (let (r, h) = pt h l; (rs, h) = list_run add del ph pt h ops in (r # rs, h))"

locale list_family =
  fixes rep :: "'h \<Rightarrow> ('n \<rightharpoonup> 'n list) \<Rightarrow> bool"
    and add :: "'h \<Rightarrow> 'n \<Rightarrow> 'n \<Rightarrow> 'h"
    and del :: "'h \<Rightarrow> 'n \<Rightarrow> 'n \<Rightarrow> 'h"
    and pop_head :: "'h \<Rightarrow> 'n \<Rightarrow> 'n option \<times> 'h"
    and pop_tail :: "'h \<Rightarrow> 'n \<Rightarrow> 'n option \<times> 'h"
  assumes add_ok: "rep h L \<Longrightarrow> L l = Some ns \<Longrightarrow> n \<notin> footprint L \<Longrightarrow> Suc (length ns) < size_max \<Longrightarrow>
      rep (add h l n) (L(l \<mapsto> n # ns))"
    and del_ok: "rep h L \<Longrightarrow> L l = Some ns \<Longrightarrow> n \<in> set ns \<Longrightarrow> rep (del h l n) (L(l \<mapsto> remove1 n ns))"
    and pop_head_empty: "rep h L \<Longrightarrow> L l = Some [] \<Longrightarrow> pop_head h l = (None, h)"
    and pop_head_ok: "rep h L \<Longrightarrow> L l = Some (n # ns) \<Longrightarrow> \<exists>h'. pop_head h l = (Some n, h') \<and> rep h' (L(l \<mapsto> ns))"
    and pop_tail_empty: "rep h L \<Longrightarrow> L l = Some [] \<Longrightarrow> pop_tail h l = (None, h)"
    and pop_tail_ok: "rep h L \<Longrightarrow> L l = Some ns \<Longrightarrow> ns \<noteq> [] \<Longrightarrow>
      \<exists>h'. pop_tail h l = (Some (last ns), h') \<and> rep h' (L(l \<mapsto> butlast ns))"
    and separate: "rep h L \<Longrightarrow> L l = Some ns \<Longrightarrow> distinct (l # ns) \<and>
      (\<forall>l' ns'. L l' = Some ns' \<longrightarrow> l' \<noteq> l \<longrightarrow> set (l # ns) \<inter> set (l' # ns') = {})"
begin

text \<open>A node taken off one list can be put on another one: how a virtual accelerator moves between
  the orphan list and the accelerators.\<close>

lemma footprint_removed:
  assumes "rep h L" and "L l = Some ns" and "n \<in> set ns"
  shows "n \<notin> footprint (L(l \<mapsto> remove1 n ns))"
  using separate [OF assms(1,2)] assms(2,3) by (auto simp: footprint_def split: if_splits)

lemma move_ok:
  assumes "rep h L" and "L l = Some ns" and "n \<in> set ns" and "L l' = Some ns'" and "l' \<noteq> l"
    and "Suc (length ns') < size_max"
  shows "rep (add (del h l n) l' n) (L(l \<mapsto> remove1 n ns, l' \<mapsto> n # ns'))"
  using del_ok [OF assms(1-3)] footprint_removed [OF assms(1-3)] assms(4-6) by (intro add_ok) simp_all

lemma run_refines:
  assumes "rep h L" and "seq_run L ops = Some (rs, L')"
  shows "\<exists>h'. list_run add del pop_head pop_tail h ops = (rs, h') \<and> rep h' L'"
  using assms
proof (induction ops arbitrary: h L rs)
  case (Cons op ops)
  then obtain r L1 rs1 where st: "seq_step L op = Some (r, L1)" and "seq_run L1 ops = Some (rs1, L')"
    and rs: "rs = r # rs1" by (auto simp: Option.bind_eq_Some_conv)
  then have IH: "rep h1 L1 \<Longrightarrow> \<exists>h'. list_run add del pop_head pop_tail h1 ops = (rs1, h') \<and> rep h' L'" for h1 using Cons.IH by blast
  show ?case
  proof (cases op)
    case (L_add l n)
    with st Cons.prems(1) IH [of "add h l n"] add_ok rs show ?thesis by (auto split: option.splits if_splits)
  next
    case (L_del l n)
    with st Cons.prems(1) IH [of "del h l n"] del_ok rs show ?thesis by (auto split: option.splits if_splits)
  next
    case (L_pop_head l)
    show ?thesis
    proof (cases "L l")
      case (Some ns)
      show ?thesis
      proof (cases ns)
        case Nil
        with Some st L_pop_head IH [of h] Cons.prems(1) pop_head_empty rs show ?thesis by auto
      next
        case (Cons n ms)
        with pop_head_ok [OF Cons.prems(1), of l n ms] Some obtain h1 where "pop_head h l = (Some n, h1)"
          "rep h1 (L(l \<mapsto> ms))" by auto
        with Cons Some st L_pop_head IH [of h1] rs show ?thesis by auto
      qed
    qed (use st L_pop_head in simp)
  next
    case (L_pop_tail l)
    show ?thesis
    proof (cases "L l")
      case (Some ns)
      show ?thesis
      proof (cases "ns = []")
        case True
        with Some st L_pop_tail IH [of h] Cons.prems(1) pop_tail_empty rs show ?thesis by auto
      next
        case False
        with pop_tail_ok [OF Cons.prems(1) Some] obtain h1 where "pop_tail h l = (Some (last ns), h1)"
          "rep h1 (L(l \<mapsto> butlast ns))" by auto
        with False Some st L_pop_tail IH [of h1] rs show ?thesis by auto
      qed
    qed (use st L_pop_tail in simp)
  qed
qed simp

end

interpretation lists: list_family lists_rep utils_list_add utils_list_del utils_list_pop_head utils_list_pop_tail
proof
  fix h :: "'n list_heap" and L l n ns
  assume r: "lists_rep h L"
  show "L l = Some ns \<Longrightarrow> n \<notin> footprint L \<Longrightarrow> Suc (length ns) < size_max \<Longrightarrow>
    lists_rep (utils_list_add h l n) (L(l \<mapsto> n # ns))" by (rule lists_add [OF r])
  show "L l = Some ns \<Longrightarrow> n \<in> set ns \<Longrightarrow> lists_rep (utils_list_del h l n) (L(l \<mapsto> remove1 n ns))"
    by (rule lists_del [OF r])
  show "L l = Some [] \<Longrightarrow> utils_list_pop_head h l = (None, h)" using lists_pop_head [OF r] by fastforce
  show "L l = Some (n # ns) \<Longrightarrow> \<exists>h'. utils_list_pop_head h l = (Some n, h') \<and> lists_rep h' (L(l \<mapsto> ns))"
    using lists_pop_head [OF r] by fastforce
  show "L l = Some [] \<Longrightarrow> utils_list_pop_tail h l = (None, h)" using lists_pop_tail [OF r] by fastforce
  show "L l = Some ns \<Longrightarrow> ns \<noteq> [] \<Longrightarrow>
    \<exists>h'. utils_list_pop_tail h l = (Some (last ns), h') \<and> lists_rep h' (L(l \<mapsto> butlast ns))"
    using lists_pop_tail [OF r] by fastforce
  show "L l = Some ns \<Longrightarrow> distinct (l # ns) \<and>
      (\<forall>l' ns'. L l' = Some ns' \<longrightarrow> l' \<noteq> l \<longrightarrow> set (l # ns) \<inter> set (l' # ns') = {})"
    using r unfolding lists_rep_def list_rep_def by blast
qed

section \<open>Properties of the lists\<close>

text \<open>C8. The pointer lists are sequences: any session of \<open>utils_list_add\<close>, \<open>utils_list_del\<close>,
  \<open>utils_list_pop_head\<close> and \<open>utils_list_pop_tail\<close> calls on several lists over one heap, which respects the
  preconditions, returns the nodes that the same session on plain sequences returns; afterwards walking
  a list forwards, backwards or with \<open>utils_list_to_array\<close> gives exactly its sequence.\<close>

theorem list_sessions:
  assumes "lists_rep h L" and "seq_run L ops = Some (rs, L')"
  shows "\<exists>h'. list_run utils_list_add utils_list_del utils_list_pop_head utils_list_pop_tail h ops = (rs, h') \<and>
    lists_rep h' L' \<and>
    (\<forall>l ns. L' l = Some ns \<longrightarrow> utils_list_for_each h' l = Some ns \<and>
       utils_list_for_each_reverse h' l = Some (rev ns) \<and>
       utils_list_to_array h' l True = Ok (of_nat (length ns), map (nd_owner h') ns) \<and>
       (\<forall>n\<in>set ns. utils_list_node_linked h' n))"
proof -
  from lists.run_refines [OF assms] obtain h' where
    run: "list_run utils_list_add utils_list_del utils_list_pop_head utils_list_pop_tail h ops = (rs, h')"
    and r: "lists_rep h' L'" by blast
  have "utils_list_for_each h' l = Some ns \<and> utils_list_for_each_reverse h' l = Some (rev ns) \<and>
       utils_list_to_array h' l True = Ok (of_nat (length ns), map (nd_owner h') ns) \<and>
       (\<forall>n\<in>set ns. utils_list_node_linked h' n)" if "L' l = Some ns" for l ns
  proof -
    note lr = lists_repD(1,2) [OF r that]
    from list_rep_for_each [OF lr(1)] list_rep_for_each_reverse [OF lr(1)] list_rep_to_array(1) [OF lr]
      list_rep_linked [OF lr(1)] show ?thesis by blast
  qed
  with run r show ?thesis by blast
qed

text \<open>Two lists with heads 0 and 1 over the nodes 2, 3, 4.\<close>

definition list_demo :: "nat list_heap" where
  "list_demo = utils_list_init (utils_list_init \<lparr>nd_next = id, nd_prev = id, nd_owner = of_nat, ls_length = (\<lambda>_. 7)\<rparr> 0 0) 1 1"

lemma list_demo_rep: "lists_rep list_demo [0 \<mapsto> [], 1 \<mapsto> []]"
proof -
  have "lists_rep (utils_list_init \<lparr>nd_next = id, nd_prev = id, nd_owner = of_nat, ls_length = (\<lambda>_. 7)\<rparr> (0 :: nat) 0) [0 \<mapsto> []]"
    by (rule lists_init) (auto simp: lists_rep_def footprint_def)
  then show ?thesis unfolding list_demo_def by (rule lists_init) (auto simp: footprint_def split: if_splits)
qed

theorem list_sessions_witness:
  "\<exists>h'. list_run utils_list_add utils_list_del utils_list_pop_head utils_list_pop_tail list_demo
      [L_add 0 2, L_add 0 3, L_add 0 4, L_del 0 3, L_add 1 3, L_pop_tail 0, L_pop_tail 1, L_pop_head 1] =
      ([None, None, None, Some 3, None, Some 2, Some 3, None], h') \<and>
    utils_list_for_each h' 0 = Some [4]"
proof -
  have "seq_run [0 \<mapsto> [], 1 \<mapsto> []]
      [L_add 0 2, L_add 0 3, L_add 0 4, L_del 0 3, L_add 1 3, L_pop_tail 0, L_pop_tail 1, L_pop_head 1] =
      Some ([None, None, None, Some 3, None, Some 2, Some 3, None], [0 \<mapsto> [4], 1 \<mapsto> []] :: nat \<rightharpoonup> nat list)"
    by (auto simp: footprint_def size_max_def split: if_splits)
  from list_sessions [OF list_demo_rep this] show ?thesis by auto
qed

end
