(* ===== verification/Kv.thy ===== *)
theory Kv
  imports Spinlock
begin

text \<open>
  \<open>src/utils/Kv.c\<close>: the fixed capacity key-value store of the shared segment (task counts per
  assignee, metrics by name). The pairs are an array of \<open>ARAX_KV_CAP\<close> cells of which the first
  \<open>pairs\<close> are in use; the capacity is a build constant and so a parameter. A returned
  \<open>&(kv->kv[itr].value)\<close> is the index \<open>itr\<close>.
\<close>

section \<open>The operations\<close>

record utils_kv_s =
  kv_cells :: "(addr \<times> addr) list"
  kv_pairs :: u64
  kv_lock :: u64

definition utils_kv_init :: "nat \<Rightarrow> utils_kv_s" where
  "utils_kv_init cap = \<lparr>kv_cells = replicate cap (0, 0), kv_pairs = 0, kv_lock = utils_spinlock_init\<rparr>"

text \<open>The scan both operations start with: the first used cell with the key.\<close>

function kv_find :: "(addr \<times> addr) list \<Rightarrow> u64 \<Rightarrow> addr \<Rightarrow> u64 \<Rightarrow> u64 option" where
  "kv_find cells pairs key itr =
     (if itr < pairs then
        (if fst (cells ! unat itr) = key then Some itr else kv_find cells pairs key (itr + 1))
      else None)"
  by pat_completeness auto
termination
proof (relation "measure (\<lambda>(_, pairs, _, itr). unat pairs - unat itr)")
  fix cells :: "(addr \<times> addr) list" and pairs key itr :: u64
  assume "itr < pairs"
  then show "((cells, pairs, key, itr + 1), cells, pairs, key, itr) \<in> measure (\<lambda>(_, pairs, _, itr). unat pairs - unat itr)"
    by (simp add: unat_inc word_less_nat_alt)
qed simp

declare kv_find.simps [simp del]

definition utils_kv_set :: "nat \<Rightarrow> utils_kv_s \<Rightarrow> addr \<Rightarrow> addr \<Rightarrow> utils_kv_s res" where
  "utils_kv_set cap kv key value =
     rbind (utils_spinlock_lock (kv_lock kv)) (\<lambda>l.
     case kv_find (kv_cells kv) (kv_pairs kv) key 0 of
       Some itr \<Rightarrow>
         rbind (utils_spinlock_unlock l) (\<lambda>l.
         Ok (kv\<lparr>kv_cells := (kv_cells kv)[unat itr := (fst (kv_cells kv ! unat itr), value)], kv_lock := l\<rparr>))
     | None \<Rightarrow>
         if unat (kv_pairs kv) < cap then
           rbind (utils_spinlock_unlock l) (\<lambda>l.
           Ok (kv\<lparr>kv_cells := (kv_cells kv)[unat (kv_pairs kv) := (key, value)],
                  kv_pairs := kv_pairs kv + 1, kv_lock := l\<rparr>))
         else
           rbind (utils_spinlock_unlock l) (\<lambda>l.
           rbind (arax_assert False ''!Exceeded ARAX_KV_CAP'') (\<lambda>_.
           rbind (utils_spinlock_unlock l) (\<lambda>l. Ok (kv\<lparr>kv_lock := l\<rparr>)))))"

definition utils_kv_get :: "utils_kv_s \<Rightarrow> addr \<Rightarrow> (u64 option \<times> utils_kv_s) res" where
  "utils_kv_get kv key =
     rbind (utils_spinlock_lock (kv_lock kv)) (\<lambda>l.
     rbind (utils_spinlock_unlock l) (\<lambda>l.
     Ok (kv_find (kv_cells kv) (kv_pairs kv) key 0, kv\<lparr>kv_lock := l\<rparr>)))"

text \<open>The two accesses a caller makes through the pointer it got.\<close>

definition kv_cell_read :: "utils_kv_s \<Rightarrow> u64 \<Rightarrow> addr" where
  "kv_cell_read kv i = snd (kv_cells kv ! unat i)"

section \<open>The store as a map\<close>

definition kv_map :: "utils_kv_s \<Rightarrow> addr \<rightharpoonup> addr" where
  "kv_map kv = map_of (take (unat (kv_pairs kv)) (kv_cells kv))"

definition kv_inv :: "nat \<Rightarrow> utils_kv_s \<Rightarrow> bool" where
  "kv_inv cap kv \<longleftrightarrow> kv_lock kv = 0 \<and> length (kv_cells kv) = cap \<and> cap < 2 ^ 64 \<and>
     unat (kv_pairs kv) \<le> cap \<and> distinct (map fst (take (unat (kv_pairs kv)) (kv_cells kv)))"

lemma kv_find_Some:
  "kv_find cells pairs key itr = Some i \<Longrightarrow> itr \<le> i \<and> i < pairs \<and> fst (cells ! unat i) = key"
proof (induction cells pairs key itr rule: kv_find.induct)
  case (1 cells pairs key itr)
  from "1.prems" show ?case
  proof (subst (asm) kv_find.simps, cases "itr < pairs \<and> fst (cells ! unat itr) \<noteq> key")
    case True
    with "1.prems" have "kv_find cells pairs key (itr + 1) = Some i" by (subst (asm) kv_find.simps) simp
    with "1.IH" True have "itr + 1 \<le> i" "i < pairs" "fst (cells ! unat i) = key" by auto
    then show ?thesis using unat_inc [of itr pairs] True by (simp add: word_le_nat_alt)
  qed (auto split: if_splits)
qed

lemma kv_find_None:
  "kv_find cells pairs key itr = None \<Longrightarrow> itr \<le> i \<Longrightarrow> i < pairs \<Longrightarrow> fst (cells ! unat i) \<noteq> key"
proof (induction cells pairs key itr rule: kv_find.induct)
  case (1 cells pairs key itr)
  have lt: "itr < pairs" using "1.prems" by simp
  with "1.prems"(1) have ne: "fst (cells ! unat itr) \<noteq> key" and n: "kv_find cells pairs key (itr + 1) = None"
    by (auto simp: kv_find.simps [of cells pairs key itr] split: if_splits)
  show ?case
  proof (cases "i = itr")
    case False
    with "1.prems"(2) have "itr + 1 \<le> i" using unat_inc [OF lt] by (simp add: word_le_nat_alt word_unat_eq_iff)
    with "1.IH" [OF lt ne n] "1.prems"(3) show ?thesis by blast
  qed (use ne in simp)
qed

lemma kv_find_map:
  assumes "kv_inv cap kv"
  shows "map_option (kv_cell_read kv) (kv_find (kv_cells kv) (kv_pairs kv) key 0) = kv_map kv key"
proof (cases "kv_find (kv_cells kv) (kv_pairs kv) key 0")
  case None
  have "key \<notin> fst ` set (take (unat (kv_pairs kv)) (kv_cells kv))"
  proof
    assume "key \<in> fst ` set (take (unat (kv_pairs kv)) (kv_cells kv))"
    then obtain j where j: "j < unat (kv_pairs kv)" "fst (kv_cells kv ! j) = key"
      by (auto simp: in_set_conv_nth)
    then have "j < 2 ^ 64" using lt_64_unat [of "kv_pairs kv"] by linarith
    with j kv_find_None [OF None, of "of_nat j"] show False by (simp add: word_less_nat_alt)
  qed
  then have "kv_map kv key = None" by (simp add: kv_map_def map_of_eq_None_iff)
  with None show ?thesis by simp
next
  case (Some i)
  with kv_find_Some [OF this] have i: "i < kv_pairs kv" "fst (kv_cells kv ! unat i) = key" by auto
  then have "(key, kv_cell_read kv i) \<in> set (take (unat (kv_pairs kv)) (kv_cells kv))"
    using assms by (auto simp: in_set_conv_nth kv_inv_def kv_cell_read_def word_less_nat_alt intro!: exI [of _ "unat i"])
  with assms have "kv_map kv key = Some (kv_cell_read kv i)"
    unfolding kv_map_def by (intro map_of_is_SomeI) (simp_all add: kv_inv_def)
  with Some show ?thesis by simp
qed

lemma in_set_update_other:
  assumes "i < length xs" and "fst (xs ! i) = k" and "x \<noteq> k"
  shows "(x, y) \<in> set (xs[i := (k, v)]) \<longleftrightarrow> (x, y) \<in> set xs"
proof
  assume "(x, y) \<in> set xs"
  then obtain j where j: "j < length xs" "xs ! j = (x, y)" by (auto simp: in_set_conv_nth)
  with assms have "j \<noteq> i" by auto
  with j show "(x, y) \<in> set (xs[i := (k, v)])" by (metis length_list_update nth_list_update_neq nth_mem)
next
  assume "(x, y) \<in> set (xs[i := (k, v)])"
  with assms(3) show "(x, y) \<in> set xs" using set_update_subset_insert [of xs i "(k, v)"] by auto
qed

lemma kv_set_old:
  assumes inv: "kv_inv cap kv" and f: "kv_find (kv_cells kv) (kv_pairs kv) key 0 = Some i"
  shows "\<exists>kv'. utils_kv_set cap kv key value = Ok kv' \<and> kv_inv cap kv' \<and> kv_map kv' = (kv_map kv)(key \<mapsto> value)"
proof -
  let ?m = "unat (kv_pairs kv)" and ?c = "kv_cells kv"
  let ?kv = "kv\<lparr>kv_cells := ?c[unat i := (fst (?c ! unat i), value)], kv_lock := 0\<rparr>"
  from kv_find_Some [OF f] have i: "unat i < ?m" "fst (?c ! unat i) = key" by (auto simp: word_less_nat_alt)
  have keys: "map fst (take ?m (?c[unat i := (key, value)])) = map fst (take ?m ?c)"
    using i by (auto intro!: nth_equalityI) (metis fst_conv nth_list_update_eq nth_list_update_neq)
  have upd: "take ?m (?c[unat i := (key, value)]) = (take ?m ?c)[unat i := (key, value)]" by (simp add: take_update_swap)
  have "map_of ((take ?m ?c)[unat i := (key, value)]) = (map_of (take ?m ?c))(key \<mapsto> value)"
  proof -
    let ?t = "take ?m ?c"
    have len: "unat i < length ?t" using i inv by (auto simp: kv_inv_def)
    have d: "distinct (map fst ?t)" "distinct (map fst (?t[unat i := (key, value)]))"
      using inv keys by (simp_all add: kv_inv_def flip: upd)
    have k: "fst (?t ! unat i) = key" using i by simp
    show ?thesis
    proof
      fix x
      show "map_of (?t[unat i := (key, value)]) x = ((map_of ?t)(key \<mapsto> value)) x"
      proof (cases "x = key")
        case True
        have "(key, value) \<in> set (?t[unat i := (key, value)])" using len by (metis length_list_update nth_list_update_eq nth_mem)
        with d(2) True show ?thesis by (simp add: map_of_is_SomeI)
      next
        case False
        note in_set_update_other [OF len k False]
        then have "map_of (?t[unat i := (key, value)]) x = Some y \<longleftrightarrow> map_of ?t x = Some y" for y
          using d by (simp add: map_of_eq_Some_iff)
        with False show ?thesis by (metis fun_upd_other not_Some_eq)
      qed
    qed
  qed
  moreover have "utils_kv_set cap kv key value = Ok ?kv" using f inv by (simp add: utils_kv_set_def kv_inv_def)
  moreover have "kv_inv cap ?kv" using inv keys i by (simp add: kv_inv_def)
  ultimately show ?thesis using i by (intro exI [of _ ?kv]) (simp add: kv_map_def upd)
qed

lemma kv_set_new:
  assumes inv: "kv_inv cap kv" and f: "kv_find (kv_cells kv) (kv_pairs kv) key 0 = None"
    and room: "unat (kv_pairs kv) < cap"
  shows "\<exists>kv'. utils_kv_set cap kv key value = Ok kv' \<and> kv_inv cap kv' \<and> kv_map kv' = (kv_map kv)(key \<mapsto> value)"
proof -
  let ?m = "unat (kv_pairs kv)" and ?c = "kv_cells kv"
  let ?kv = "kv\<lparr>kv_cells := ?c[?m := (key, value)], kv_pairs := kv_pairs kv + 1, kv_lock := 0\<rparr>"
  have "kv_pairs kv < of_nat cap" using inv room by (simp add: kv_inv_def word_less_nat_alt)
  then have m: "unat (kv_pairs kv + 1) = Suc ?m" by (rule unat_inc)
  have tk: "take (Suc ?m) (?c[?m := (key, value)]) = take ?m ?c @ [(key, value)]"
    using inv room by (simp add: kv_inv_def take_Suc_conv_app_nth)
  have "kv_map kv key = None" using kv_find_map [OF inv, of key] f by simp
  then have new: "key \<notin> fst ` set (take ?m ?c)" by (simp add: kv_map_def map_of_eq_None_iff)
  have "kv_map ?kv = (kv_map kv)(key \<mapsto> value)"
  proof -
    have "map_of (take ?m ?c @ [(key, value)]) = (map_of (take ?m ?c))(key \<mapsto> value)"
    proof
      fix x
      from new have "map_of (take ?m ?c) key = None" by (simp add: map_of_eq_None_iff)
      then show "map_of (take ?m ?c @ [(key, value)]) x = ((map_of (take ?m ?c))(key \<mapsto> value)) x"
        by (auto simp: map_add_def split: option.split)
    qed
    then show ?thesis by (simp add: kv_map_def m tk)
  qed
  moreover have "utils_kv_set cap kv key value = Ok ?kv" using f inv room by (simp add: utils_kv_set_def kv_inv_def)
  moreover have "kv_inv cap ?kv" using inv room new by (simp add: kv_inv_def m tk)
  ultimately show ?thesis by blast
qed

lemma kv_card:
  assumes "kv_inv cap kv"
  shows "card (dom (kv_map kv)) = unat (kv_pairs kv)"
proof -
  have "dom (kv_map kv) = set (map fst (take (unat (kv_pairs kv)) (kv_cells kv)))"
    by (simp add: kv_map_def dom_map_of_conv_image_fst)
  then show ?thesis using assms distinct_card by (fastforce simp: kv_inv_def)
qed

lemma kv_set_full:
  assumes "kv_inv cap kv" and "kv_map kv key = None" and "card (dom (kv_map kv)) = cap"
  shows "utils_kv_set cap kv key value = Fault (Assert_failed ''!Exceeded ARAX_KV_CAP'')"
  using assms kv_find_map [OF assms(1), of key] kv_card [OF assms(1)]
  by (simp add: utils_kv_set_def kv_inv_def)

section \<open>The interface: a bounded map\<close>

fun kv_set_all :: "('s \<Rightarrow> 'k \<Rightarrow> 'v \<Rightarrow> 's res) \<Rightarrow> 's \<Rightarrow> ('k \<times> 'v) list \<Rightarrow> 's res" where
  "kv_set_all store s [] = Ok s"
| "kv_set_all store s ((k, v) # kvs) = rbind (store s k v) (\<lambda>s. kv_set_all store s kvs)"

locale bounded_map =
  fixes inv :: "'s \<Rightarrow> bool"
    and contents :: "'s \<Rightarrow> 'k \<rightharpoonup> 'v"
    and cap :: nat
    and store :: "'s \<Rightarrow> 'k \<Rightarrow> 'v \<Rightarrow> 's res"
    and fetch :: "'s \<Rightarrow> 'k \<Rightarrow> ('v option \<times> 's) res"
  assumes store_ok: "inv s \<Longrightarrow> contents s k \<noteq> None \<or> card (dom (contents s)) < cap \<Longrightarrow>
      \<exists>s'. store s k v = Ok s' \<and> inv s' \<and> contents s' = (contents s)(k \<mapsto> v)"
    and store_full: "inv s \<Longrightarrow> contents s k = None \<Longrightarrow> \<not> card (dom (contents s)) < cap \<Longrightarrow> \<not> is_ok (store s k v)"
    and fetch_ok: "inv s \<Longrightarrow> fetch s k = Ok (contents s k, s)"
    and finite_contents: "inv s \<Longrightarrow> finite (dom (contents s))"
begin

text \<open>A batch of stores goes through exactly when all its keys fit, and the last value of a key wins.\<close>

lemma store_all:
  assumes "inv s" and "card (dom (contents s) \<union> fst ` set kvs) \<le> cap"
  shows "\<exists>s'. kv_set_all store s kvs = Ok s' \<and> inv s' \<and> contents s' = contents s ++ map_of (rev kvs)"
  using assms
proof (induction kvs arbitrary: s)
  case (Cons kv kvs)
  obtain k v where kv: "kv = (k, v)" by (cases kv)
  have fin: "finite (dom (contents s) \<union> fst ` set (kv # kvs))" using finite_contents [OF Cons.prems(1)] by simp
  have "contents s k \<noteq> None \<or> card (dom (contents s)) < cap"
  proof (cases "contents s k")
    case None
    then have "dom (contents s) \<subset> dom (contents s) \<union> fst ` set (kv # kvs)" by (auto simp: kv)
    from psubset_card_mono [OF fin this] Cons.prems(2) show ?thesis by linarith
  qed simp
  from store_ok [OF Cons.prems(1) this, of v] obtain s1 where
    s1: "store s k v = Ok s1" "inv s1" "contents s1 = (contents s)(k \<mapsto> v)" by blast
  have dom: "dom (contents s1) \<union> fst ` set kvs = dom (contents s) \<union> fst ` set (kv # kvs)" by (auto simp: s1 kv)
  from Cons.IH [OF s1(2), unfolded dom, OF Cons.prems(2)] obtain s' where
    "kv_set_all store s1 kvs = Ok s'" "inv s'" "contents s' = contents s1 ++ map_of (rev kvs)" by blast
  moreover have "contents s1 ++ map_of (rev kvs) = contents s ++ map_of (rev (kv # kvs))" by (simp add: s1 kv)
  ultimately show ?case using s1(1) by (simp add: kv)
qed simp

lemma store_fetch:
  assumes "inv s" and "store s k v = Ok s'"
  shows "fetch s' k' = Ok (if k' = k then Some v else contents s k', s')"
proof -
  have "contents s k \<noteq> None \<or> card (dom (contents s)) < cap" 
    using store_full [OF assms(1), of k v] assms(2) by (metis is_ok_simps(1))
  from store_ok [OF assms(1) this, of v] assms(2) fetch_ok [of s' k'] show ?thesis by auto
qed

end

definition kv_lookup :: "utils_kv_s \<Rightarrow> addr \<Rightarrow> (addr option \<times> utils_kv_s) res" where
  "kv_lookup kv key = rbind (utils_kv_get kv key) (\<lambda>(i, kv). Ok (map_option (kv_cell_read kv) i, kv))"

lemma kv_cell_read_lock [simp]: "kv_cell_read (kv\<lparr>kv_lock := l\<rparr>) = kv_cell_read kv"
  by (simp add: fun_eq_iff kv_cell_read_def)

lemma bounded_map_kv: "bounded_map (kv_inv cap) kv_map cap (utils_kv_set cap) kv_lookup"
proof
  fix s k v
  assume inv: "kv_inv cap s"
  show "kv_map s k \<noteq> None \<or> card (dom (kv_map s)) < cap \<Longrightarrow>
    \<exists>s'. utils_kv_set cap s k v = Ok s' \<and> kv_inv cap s' \<and> kv_map s' = (kv_map s)(k \<mapsto> v)"
    using kv_set_old [OF inv] kv_set_new [OF inv] kv_find_map [OF inv, of k] kv_card [OF inv]
    by (cases "kv_find (kv_cells s) (kv_pairs s) k 0") auto
  show "kv_map s k = None \<Longrightarrow> \<not> card (dom (kv_map s)) < cap \<Longrightarrow> \<not> is_ok (utils_kv_set cap s k v)"
    using kv_set_full [OF inv, of k] kv_card [OF inv] inv by (simp add: kv_inv_def)
  have "s\<lparr>kv_lock := 0\<rparr> = s" "kv_lock s = 0" using inv by (cases s, simp add: kv_inv_def)+
  then show "kv_lookup s k = Ok (kv_map s k, s)"
    using kv_find_map [OF inv, of k] by (simp add: kv_lookup_def utils_kv_get_def)
  show "finite (dom (kv_map s))" by (simp add: kv_map_def finite_dom_map_of)
qed

text \<open>The build's default capacity, \<open>ARAX_KV_CAP = 32\<close>.\<close>

interpretation kv32: bounded_map "kv_inv 32" kv_map 32 "utils_kv_set 32" kv_lookup
  by (rule bounded_map_kv)

lemma kv_inv_init: "cap < 2 ^ 64 \<Longrightarrow> kv_inv cap (utils_kv_init cap)" "kv_map (utils_kv_init cap) = Map.empty"
  by (simp_all add: kv_inv_def utils_kv_init_def utils_spinlock_init_def kv_map_def)

section \<open>Properties of the store\<close>

text \<open>C32. The key-value store is a map of bounded size: starting from \<open>utils_kv_init\<close>, any sequence of
  \<open>utils_kv_set\<close> calls on at most \<open>ARAX_KV_CAP\<close> different keys succeeds, and afterwards
  \<open>utils_kv_get\<close> points for every key to the last value set for it, or to nothing.\<close>

theorem kv_refines_map:
  assumes "cap < 2 ^ 64" and "card (fst ` set kvs) \<le> cap"
  shows "\<exists>kv. kv_set_all (utils_kv_set cap) (utils_kv_init cap) kvs = Ok kv \<and>
    (\<forall>key. kv_lookup kv key = Ok (map_of (rev kvs) key, kv))"
proof -
  from bounded_map.store_all [OF bounded_map_kv kv_inv_init(1) [OF assms(1)], of kvs] assms(2)
  obtain kv where kv: "kv_set_all (utils_kv_set cap) (utils_kv_init cap) kvs = Ok kv" "kv_inv cap kv"
    "kv_map kv = map_of (rev kvs)" by (auto simp: kv_inv_init(2))
  with bounded_map.fetch_ok [OF bounded_map_kv kv(2)] show ?thesis by auto
qed

theorem kv_refines_map_witness:
  "\<exists>kv. kv_set_all (utils_kv_set 2) (utils_kv_init 2) [(5, 50), (6, 60), (5, 51)] = Ok kv \<and>
    kv_lookup kv 5 = Ok (Some 51, kv) \<and> kv_lookup kv 7 = Ok (None, kv)"
proof -
  have "card (fst ` set [(5 :: addr, 50 :: addr), (6, 60), (5, 51)]) \<le> 2" by (simp add: card_insert_if)
  from kv_refines_map [OF _ this] show ?thesis by auto
qed

text \<open>A store of a new key into a full key-value store trips the assertion
  \<open>Exceeded ARAX_KV_CAP\<close> and a store of a key that is present still succeeds.\<close>

theorem kv_full:
  assumes "kv_inv cap kv" and "card (dom (kv_map kv)) = cap"
  shows "if kv_map kv key = None
    then utils_kv_set cap kv key v = Fault (Assert_failed ''!Exceeded ARAX_KV_CAP'')
    else \<exists>kv'. utils_kv_set cap kv key v = Ok kv' \<and> kv_map kv' = (kv_map kv)(key \<mapsto> v)"
  using kv_set_full [OF assms(1) _ assms(2)] bounded_map.store_ok [OF bounded_map_kv assms(1), of key v] by auto

theorem kv_full_witness:
  "utils_kv_set 1 (utils_kv_init 1\<lparr>kv_cells := [(5, 50)], kv_pairs := 1\<rparr>) 6 60 =
    Fault (Assert_failed ''!Exceeded ARAX_KV_CAP'')"
proof -
  have "kv_inv 1 (utils_kv_init 1\<lparr>kv_cells := [(5, 50)], kv_pairs := 1\<rparr>)"
    by (simp add: kv_inv_def utils_kv_init_def utils_spinlock_init_def)
  from kv_full [OF this, of 6 60] show ?thesis by (simp add: kv_map_def)
qed

end
