(* ===== verification/Async.thy ===== *)
theory Async
  imports Prelude
begin

text \<open>
  The waiting primitives of \<open>src/async\<close>: completions, semaphores and conditions. The build picks one
  of three implementations; \<open>mutex/async.c\<close> (POSIX, the default, whose definitions keep the C names) and
  \<open>spin/async.c\<close> (suffix \<open>_spin\<close>) are modelled here as run by one flow of control: a call that would
  sleep or spin until another thread acts is the fault \<open>Blocked\<close>.

  Of POSIX the model has what the sources use: a normal mutex is locked or not, a semaphore has a
  value, a condition variable has no state of its own.
\<close>

section \<open>POSIX mutexes and semaphores\<close>

type_synonym pthread_mutex_t = bool

definition pthread_mutex_init :: pthread_mutex_t where
  "pthread_mutex_init = False"

definition pthread_mutex_lock :: "pthread_mutex_t \<Rightarrow> pthread_mutex_t res" where
  "pthread_mutex_lock m = (if m then Fault (Blocked ''pthread_mutex_lock'') else Ok True)"

text \<open>\<open>pthread_mutex_trylock\<close> returns 0 when it got the mutex.\<close>

definition pthread_mutex_trylock :: "pthread_mutex_t \<Rightarrow> int \<times> pthread_mutex_t" where
  "pthread_mutex_trylock m = (if m then (16, m) else (0, True))"

definition pthread_mutex_unlock :: "pthread_mutex_t \<Rightarrow> pthread_mutex_t" where
  "pthread_mutex_unlock m = False"

definition sem_value_max :: int where
  "sem_value_max = 2 ^ 31 - 1"

section \<open>\<open>mutex/async.c\<close>\<close>

record async_completion_s =
  compl_mutex :: pthread_mutex_t

record async_semaphore_s =
  sem_val :: int

record async_condition_s =
  cond_mutex :: async_completion_s

definition async_completion_init :: "async_completion_s res" where
  "async_completion_init = rbind (pthread_mutex_lock pthread_mutex_init) (\<lambda>m. Ok \<lparr>compl_mutex = m\<rparr>)"

definition async_completion_complete :: "async_completion_s \<Rightarrow> async_completion_s" where
  "async_completion_complete c =
     (let (_, m) = pthread_mutex_trylock (compl_mutex c)
      in c\<lparr>compl_mutex := pthread_mutex_unlock m\<rparr>)"

definition async_completion_wait :: "async_completion_s \<Rightarrow> async_completion_s res" where
  "async_completion_wait c =
     rbind (pthread_mutex_lock (compl_mutex c)) (\<lambda>m. Ok (c\<lparr>compl_mutex := m\<rparr>))"

definition async_completion_check :: "async_completion_s \<Rightarrow> bool \<times> async_completion_s" where
  "async_completion_check c =
     (let (ret_val, m) = pthread_mutex_trylock (compl_mutex c)
      in if ret_val = 0 then (True, c\<lparr>compl_mutex := pthread_mutex_unlock m\<rparr>) else (False, c))"

definition async_semaphore_init :: async_semaphore_s where
  "async_semaphore_init = \<lparr>sem_val = 0\<rparr>"

definition async_semaphore_value :: "async_semaphore_s \<Rightarrow> int" where
  "async_semaphore_value sem = sem_val sem"

text \<open>\<open>sem_post\<close> leaves the value alone when it is at its maximum (\<open>EOVERFLOW\<close>, not checked).\<close>

definition async_semaphore_inc :: "async_semaphore_s \<Rightarrow> async_semaphore_s" where
  "async_semaphore_inc sem = (if sem_val sem = sem_value_max then sem else sem\<lparr>sem_val := sem_val sem + 1\<rparr>)"

definition async_semaphore_dec :: "async_semaphore_s \<Rightarrow> async_semaphore_s res" where
  "async_semaphore_dec sem =
     (if sem_val sem = 0 then Fault (Blocked ''sem_wait'') else Ok (sem\<lparr>sem_val := sem_val sem - 1\<rparr>))"

definition async_condition_lock :: "async_condition_s \<Rightarrow> async_condition_s res" where
  "async_condition_lock cond = rbind (async_completion_wait (cond_mutex cond)) (\<lambda>m. Ok (cond\<lparr>cond_mutex := m\<rparr>))"

definition async_condition_unlock :: "async_condition_s \<Rightarrow> async_condition_s" where
  "async_condition_unlock cond = cond\<lparr>cond_mutex := async_completion_complete (cond_mutex cond)\<rparr>"

definition async_condition_init :: "async_condition_s res" where
  "async_condition_init =
     rbind async_completion_init (\<lambda>m. Ok (async_condition_unlock \<lparr>cond_mutex = m\<rparr>))"

text \<open>\<open>pthread_cond_wait\<close> gives the mutex up and sleeps: only another thread can go on.\<close>

definition async_condition_wait :: "async_condition_s \<Rightarrow> async_condition_s res" where
  "async_condition_wait cond = Fault (Blocked ''pthread_cond_wait'')"

definition async_condition_notify :: "async_condition_s \<Rightarrow> async_condition_s" where
  "async_condition_notify cond = cond"

section \<open>\<open>spin/async.c\<close>\<close>

record async_completion_spin =
  completed :: u64

record async_semaphore_spin =
  spin_value :: u64

record async_condition_spin =
  spin_mutex :: async_completion_spin
  spin_semaphore :: async_semaphore_spin

definition async_completion_init_spin :: async_completion_spin where
  "async_completion_init_spin = \<lparr>completed = 0\<rparr>"

definition async_completion_complete_spin :: "async_completion_spin \<Rightarrow> async_completion_spin" where
  "async_completion_complete_spin c = (if completed c = 0 then c\<lparr>completed := 1\<rparr> else c)"

definition async_completion_wait_spin :: "async_completion_spin \<Rightarrow> async_completion_spin res" where
  "async_completion_wait_spin c =
     (if completed c = 1 then Ok (c\<lparr>completed := 0\<rparr>) else Fault (Blocked ''async_completion_wait''))"

definition async_completion_check_spin :: "async_completion_spin \<Rightarrow> bool" where
  "async_completion_check_spin c \<longleftrightarrow> (ucast (completed c) :: u32) \<noteq> 0"

definition async_semaphore_init_spin :: async_semaphore_spin where
  "async_semaphore_init_spin = \<lparr>spin_value = 0\<rparr>"

definition async_semaphore_value_spin :: "async_semaphore_spin \<Rightarrow> int" where
  "async_semaphore_value_spin sem = sint (ucast (spin_value sem) :: u32)"

definition async_semaphore_inc_spin :: "async_semaphore_spin \<Rightarrow> async_semaphore_spin" where
  "async_semaphore_inc_spin sem = sem\<lparr>spin_value := spin_value sem + 1\<rparr>"

text \<open>
  The value is read into an \<open>int\<close>; the compare and swap then compares the \<open>size_t\<close> with that
  \<open>int\<close> sign extended, and it can only succeed when nothing was lost.
\<close>

definition async_semaphore_dec_spin :: "async_semaphore_spin \<Rightarrow> async_semaphore_spin res" where
  "async_semaphore_dec_spin sem =
     (let v = async_semaphore_value_spin sem in
      if 1 \<le> v \<and> spin_value sem = word_of_int v then Ok (sem\<lparr>spin_value := word_of_int (v - 1)\<rparr>)
      else Fault (Blocked ''async_semaphore_dec''))"

definition async_condition_init_spin :: async_condition_spin where
  "async_condition_init_spin =
     \<lparr>spin_mutex = async_completion_complete_spin async_completion_init_spin,
      spin_semaphore = async_semaphore_init_spin\<rparr>"

definition async_condition_lock_spin :: "async_condition_spin \<Rightarrow> async_condition_spin res" where
  "async_condition_lock_spin cond =
     rbind (async_completion_wait_spin (spin_mutex cond)) (\<lambda>m. Ok (cond\<lparr>spin_mutex := m\<rparr>))"

definition async_condition_wait_spin :: "async_condition_spin \<Rightarrow> async_condition_spin res" where
  "async_condition_wait_spin cond =
     (let m = async_completion_complete_spin (spin_mutex cond) in
      rbind (async_semaphore_dec_spin (spin_semaphore cond)) (\<lambda>sem.
      rbind (async_completion_wait_spin m) (\<lambda>m. Ok (cond\<lparr>spin_mutex := m, spin_semaphore := sem\<rparr>))))"

definition async_condition_notify_spin :: "async_condition_spin \<Rightarrow> async_condition_spin" where
  "async_condition_notify_spin cond = cond\<lparr>spin_semaphore := async_semaphore_inc_spin (spin_semaphore cond)\<rparr>"

definition async_condition_unlock_spin :: "async_condition_spin \<Rightarrow> async_condition_spin" where
  "async_condition_unlock_spin cond = cond\<lparr>spin_mutex := async_completion_complete_spin (spin_mutex cond)\<rparr>"

section \<open>The interface: completions and locks\<close>

text \<open>
  What the callers rely on, whichever implementation the build picks: a fresh completion is open, it
  can be completed any number of times before it is waited for, a wait consumes the completion, and
  the mutex of a condition alternates between locked and unlocked.
\<close>

locale async_api =
  fixes is_done :: "'c \<Rightarrow> bool"
    and complete :: "'c \<Rightarrow> 'c"
    and wait :: "'c \<Rightarrow> 'c res"
    and check :: "'c \<Rightarrow> bool"
    and fresh :: "'c \<Rightarrow> bool"
    and lock :: "'m \<Rightarrow> 'm res"
    and unlock :: "'m \<Rightarrow> 'm"
    and notify :: "'m \<Rightarrow> 'm"
    and is_free :: "'m \<Rightarrow> bool"
    and wf :: "'c \<Rightarrow> bool"
    and mwf :: "'m \<Rightarrow> bool"
  assumes fresh_open: "fresh c \<Longrightarrow> wf c \<and> \<not> is_done c"
    and complete_done: "wf c \<Longrightarrow> wf (complete c) \<and> is_done (complete c)"
    and wait_done: "wf c \<Longrightarrow> is_done c \<Longrightarrow> \<exists>c'. wait c = Ok c' \<and> wf c' \<and> \<not> is_done c'"
    and wait_open: "wf c \<Longrightarrow> \<not> is_done c \<Longrightarrow> \<exists>m. wait c = Fault (Blocked m)"
    and check_done: "wf c \<Longrightarrow> check c \<longleftrightarrow> is_done c"
    and lock_free: "mwf m \<Longrightarrow> is_free m \<Longrightarrow> \<exists>m'. lock m = Ok m' \<and> mwf m' \<and> \<not> is_free m'"
    and lock_taken: "mwf m \<Longrightarrow> \<not> is_free m \<Longrightarrow> \<exists>x. lock m = Fault (Blocked x)"
    and unlock_free: "mwf m \<Longrightarrow> mwf (unlock m) \<and> is_free (unlock m)"
    and notify_keeps: "mwf m \<Longrightarrow> mwf (notify m) \<and> is_free (notify m) = is_free m"
begin

text \<open>A task is completed any number of times and waited for once.\<close>

lemma complete_wait_once:
  assumes "fresh c" and "0 < n"
  shows "\<exists>c1. wait ((complete ^^ n) c) = Ok c1 \<and> (\<exists>m. wait c1 = Fault (Blocked m)) \<and> \<not> check c1"
proof -
  have "wf ((complete ^^ n) c) \<and> is_done ((complete ^^ n) c)"
    using assms(2)
  proof (induction n)
    case (Suc n)
    have "wf ((complete ^^ n) c)" using Suc.IH fresh_open [OF assms(1)] by (cases n) auto
    then show ?case using complete_done by simp
  qed simp
  with wait_done obtain c1 where c1: "wait ((complete ^^ n) c) = Ok c1" "wf c1" "\<not> is_done c1" by blast
  with wait_open check_done show ?thesis by blast
qed

lemma lock_unlock:
  assumes "mwf m" and "is_free m"
  shows "\<exists>m'. lock m = Ok m' \<and> (\<exists>x. lock m' = Fault (Blocked x)) \<and> (\<exists>m''. lock (unlock (notify m')) = Ok m'')"
  using lock_free [OF assms] lock_taken notify_keeps unlock_free lock_free by metis

end

interpretation async_mutex: async_api
  "\<lambda>c. \<not> compl_mutex c" async_completion_complete async_completion_wait "\<lambda>c. fst (async_completion_check c)"
  "\<lambda>c. async_completion_init = Ok c" async_condition_lock async_condition_unlock async_condition_notify
  "\<lambda>m. \<not> compl_mutex (cond_mutex m)" "\<lambda>_. True" "\<lambda>_. True"
  by unfold_locales
    (auto simp: async_completion_complete_def async_completion_wait_def async_completion_check_def
      async_completion_init_def async_condition_lock_def async_condition_unlock_def async_condition_notify_def
      pthread_mutex_lock_def pthread_mutex_trylock_def pthread_mutex_unlock_def pthread_mutex_init_def)

interpretation async_spin: async_api
  "\<lambda>c. completed c = 1" async_completion_complete_spin async_completion_wait_spin async_completion_check_spin
  "\<lambda>c. c = async_completion_init_spin" async_condition_lock_spin async_condition_unlock_spin async_condition_notify_spin
  "\<lambda>m. completed (spin_mutex m) = 1" "\<lambda>c. completed c \<in> {0, 1}" "\<lambda>m. completed (spin_mutex m) \<in> {0, 1}"
  by unfold_locales
    (auto simp: async_completion_complete_spin_def async_completion_wait_spin_def async_completion_check_spin_def
      async_completion_init_spin_def async_condition_lock_spin_def async_condition_unlock_spin_def
      async_condition_notify_spin_def async_semaphore_inc_spin_def)

text \<open>A condition at rest, as \<open>async_condition_init\<close> leaves it.\<close>

definition cond_free :: async_condition_s where
  "cond_free = \<lparr>cond_mutex = \<lparr>compl_mutex = False\<rparr>\<rparr>"

definition cond_held :: async_condition_s where
  "cond_held = \<lparr>cond_mutex = \<lparr>compl_mutex = True\<rparr>\<rparr>"

lemma async_condition_simps [simp]:
  "async_condition_init = Ok cond_free"
  "async_condition_lock cond_free = Ok cond_held"
  "async_condition_lock cond_held = Fault (Blocked ''pthread_mutex_lock'')"
  "async_condition_unlock cond_held = cond_free"
  "async_condition_unlock cond_free = cond_free"
  "async_condition_notify c = c"
  by (simp_all add: async_condition_init_def async_completion_init_def async_condition_lock_def
      async_condition_unlock_def async_condition_notify_def async_completion_wait_def async_completion_complete_def
      cond_free_def cond_held_def pthread_mutex_lock_def pthread_mutex_trylock_def pthread_mutex_unlock_def
      pthread_mutex_init_def)

lemma cond_held_free [simp]: "cond_held \<noteq> cond_free" "cond_free \<noteq> cond_held"
  by (simp_all add: cond_free_def cond_held_def)

lemma async_condition_cases: "c = cond_free \<or> c = cond_held"
proof (cases c)
  case (fields m)
  then show ?thesis by (cases m) (simp add: cond_free_def cond_held_def)
qed

lemma async_condition_lock_Ok [res_simps]: "async_condition_lock c = Ok c' \<longleftrightarrow> c = cond_free \<and> c' = cond_held"
  using async_condition_cases [of c] by auto

text \<open>C38. The completion protocol a task is waited for with is the same in the POSIX and the spinning
  implementation: after any positive number of \<open>async_completion_complete\<close> calls on a fresh
  completion the first \<open>async_completion_wait\<close> returns, and it consumes the completion, so a second
  wait sleeps and \<open>async_completion_check\<close> denies.\<close>

theorem completion_waits_once:
  assumes "0 < n"
  shows "(\<exists>c c1. async_completion_init = Ok c \<and> async_completion_wait ((async_completion_complete ^^ n) c) = Ok c1 \<and>
      (\<exists>m. async_completion_wait c1 = Fault (Blocked m)) \<and> \<not> fst (async_completion_check c1)) \<and>
    (\<exists>c1. async_completion_wait_spin ((async_completion_complete_spin ^^ n) async_completion_init_spin) = Ok c1 \<and>
      (\<exists>m. async_completion_wait_spin c1 = Fault (Blocked m)) \<and> \<not> async_completion_check_spin c1)"
proof -
  obtain c where c: "async_completion_init = Ok c"
    by (simp add: async_completion_init_def pthread_mutex_lock_def pthread_mutex_init_def)
  from async_mutex.complete_wait_once [OF c assms] async_spin.complete_wait_once [OF refl assms] c
  show ?thesis by blast
qed

theorem completion_waits_once_witness:
  "\<exists>c1. async_completion_wait_spin ((async_completion_complete_spin ^^ 2) async_completion_init_spin) = Ok c1 \<and>
     \<not> async_completion_check_spin c1"
  using completion_waits_once [of 2] by auto

end
