(* ===== verification/Throttle.thy ===== *)
theory Throttle
  imports Async
begin

text \<open>
  \<open>src/core/arax_throttle.c\<close>: the counting throttle that bounds how much memory of the shared segment
  (and of each accelerator) is handed out. \<open>arax_throttle_size_dec\<close> sleeps until enough is available,
  \<open>arax_throttle_size_inc\<close> gives memory back and wakes the sleepers. Modelled is the default build,
  \<open>ARAX_THROTTLE_ENABLE\<close> set and \<open>ARAX_THROTTLE_DEBUG\<close> not.

  First the calls run by one flow of control, then any number of threads interleaved around the
  condition of the throttle.
\<close>

section \<open>The operations\<close>

record arax_throttle_s =
  available :: u64
  capacity :: u64
  ready :: async_condition_s

definition arax_throttle_init :: "u64 \<Rightarrow> u64 \<Rightarrow> arax_throttle_s res" where
  "arax_throttle_init a_sz t_sz =
     rbind (arax_assert (a_sz > 0) ''a_sz > 0'') (\<lambda>_.
     rbind (arax_assert (t_sz > 0) ''t_sz > 0'') (\<lambda>_.
     rbind (arax_assert (t_sz \<ge> a_sz) ''t_sz >= a_sz'') (\<lambda>_.
     rbind async_condition_init (\<lambda>c.
     Ok \<lparr>available = a_sz, capacity = t_sz, ready = c\<rparr>))))"

definition arax_throttle_size_inc :: "arax_throttle_s \<Rightarrow> u64 \<Rightarrow> arax_throttle_s res" where
  "arax_throttle_size_inc thr sz =
     (if sz = 0 then Ok thr
      else
        rbind (async_condition_lock (ready thr)) (\<lambda>c.
        let av = available thr + sz in
        rbind (arax_assert (capacity thr \<ge> av) ''thr->capacity >= thr->available'') (\<lambda>_.
        Ok (thr\<lparr>available := av, ready := async_condition_unlock (async_condition_notify c)\<rparr>))))"

definition arax_throttle_size_dec :: "arax_throttle_s \<Rightarrow> u64 \<Rightarrow> arax_throttle_s res" where
  "arax_throttle_size_dec thr sz =
     (if sz = 0 then Ok thr
      else
        rbind (async_condition_lock (ready thr)) (\<lambda>c.
        rbind (if available thr < sz then async_condition_wait c else Ok c) (\<lambda>c.
        let av = available thr - sz in
        rbind (arax_assert (capacity thr \<ge> av) ''thr->capacity >= thr->available'') (\<lambda>_.
        Ok (thr\<lparr>available := av, ready := async_condition_unlock c\<rparr>)))))"

definition arax_throttle_get_available_size :: "arax_throttle_s \<Rightarrow> u64" where
  "arax_throttle_get_available_size thr = available thr"

definition arax_throttle_get_total_size :: "arax_throttle_s \<Rightarrow> u64" where
  "arax_throttle_get_total_size thr = capacity thr"

section \<open>One flow of control\<close>

definition throttle_inv :: "arax_throttle_s \<Rightarrow> bool" where
  "throttle_inv thr \<longleftrightarrow> ready thr = cond_free \<and> available thr \<le> capacity thr"

lemma throttle_init_ok:
  "0 < a \<Longrightarrow> a \<le> t \<Longrightarrow> arax_throttle_init a t = Ok \<lparr>available = a, capacity = t, ready = cond_free\<rparr>"
  using less_le_trans [of 0 a t] by (simp add: arax_throttle_init_def)

lemma throttle_ready_upd: "ready thr = cond_free \<Longrightarrow> thr\<lparr>available := a, ready := cond_free\<rparr> = thr\<lparr>available := a\<rparr>"
  by (cases thr) simp

lemma throttle_dec_ok:
  assumes "throttle_inv thr" and "sz \<le> available thr"
  shows "arax_throttle_size_dec thr sz = Ok (thr\<lparr>available := available thr - sz\<rparr>)"
    and "throttle_inv (thr\<lparr>available := available thr - sz\<rparr>)"
proof -
  have le: "available thr - sz \<le> capacity thr"
    using assms by (simp add: throttle_inv_def) (metis order_trans word_sub_le)
  with assms show "arax_throttle_size_dec thr sz = Ok (thr\<lparr>available := available thr - sz\<rparr>)"
    "throttle_inv (thr\<lparr>available := available thr - sz\<rparr>)"
    by (auto simp: arax_throttle_size_dec_def throttle_inv_def throttle_ready_upd)
qed

lemma throttle_dec_blocks:
  assumes "throttle_inv thr" and "available thr < sz"
  shows "arax_throttle_size_dec thr sz = Fault (Blocked ''pthread_cond_wait'')"
  using assms by (auto simp: arax_throttle_size_dec_def throttle_inv_def async_condition_wait_def)

lemma throttle_inc_ok:
  assumes "throttle_inv thr" and "unat (available thr) + unat sz \<le> unat (capacity thr)"
  shows "arax_throttle_size_inc thr sz = Ok (thr\<lparr>available := available thr + sz\<rparr>)"
    and "throttle_inv (thr\<lparr>available := available thr + sz\<rparr>)"
    and "unat (available thr + sz) = unat (available thr) + unat sz"
proof -
  show u: "unat (available thr + sz) = unat (available thr) + unat sz"
    using assms(2) lt_64_unat [of "capacity thr"] by (subst unat_add_lem [symmetric]) simp
  with assms show "arax_throttle_size_inc thr sz = Ok (thr\<lparr>available := available thr + sz\<rparr>)"
    "throttle_inv (thr\<lparr>available := available thr + sz\<rparr>)"
    by (auto simp: arax_throttle_size_inc_def throttle_inv_def throttle_ready_upd word_le_nat_alt)
qed

section \<open>The interface: a budget\<close>

text \<open>
  The two clients, the shared segment and the accelerators, take from and give back to a budget:
  what was taken and not given back, together with what is available, is the capacity.
\<close>

datatype budget_op = Take u64 | Give nat

fun budget_run :: "('s \<Rightarrow> u64 \<Rightarrow> 's res) \<Rightarrow> ('s \<Rightarrow> u64 \<Rightarrow> 's res) \<Rightarrow> 's \<Rightarrow> u64 list \<Rightarrow> budget_op list \<Rightarrow> ('s \<times> u64 list) res" where
  "budget_run dec inc s held [] = Ok (s, held)"
| "budget_run dec inc s held (Take sz # ops) = rbind (dec s sz) (\<lambda>s. budget_run dec inc s (sz # held) ops)"
| "budget_run dec inc s held (Give k # ops) =
     (if k < length held
      then rbind (inc s (held ! k)) (\<lambda>s. budget_run dec inc s (take k held @ drop (Suc k) held) ops)
      else budget_run dec inc s held ops)"

locale budget =
  fixes inv :: "'s \<Rightarrow> bool"
    and avail :: "'s \<Rightarrow> nat"
    and total :: "'s \<Rightarrow> nat"
    and dec :: "'s \<Rightarrow> u64 \<Rightarrow> 's res"
    and inc :: "'s \<Rightarrow> u64 \<Rightarrow> 's res"
  assumes dec_ok: "inv s \<Longrightarrow> unat sz \<le> avail s \<Longrightarrow>
      \<exists>s'. dec s sz = Ok s' \<and> inv s' \<and> avail s' = avail s - unat sz \<and> total s' = total s"
    and dec_blocks: "inv s \<Longrightarrow> avail s < unat sz \<Longrightarrow> \<exists>m. dec s sz = Fault (Blocked m)"
    and inc_ok: "inv s \<Longrightarrow> avail s + unat sz \<le> total s \<Longrightarrow>
      \<exists>s'. inc s sz = Ok s' \<and> inv s' \<and> avail s' = avail s + unat sz \<and> total s' = total s"
begin

definition balanced :: "'s \<Rightarrow> u64 list \<Rightarrow> bool" where
  "balanced s held \<longleftrightarrow> avail s + sum_list (map unat held) = total s"

lemma session:
  assumes "inv s" and "balanced s held"
  shows "(\<exists>s' held'. budget_run dec inc s held ops = Ok (s', held') \<and> inv s' \<and> balanced s' held' \<and> total s' = total s) \<or>
    (\<exists>m. budget_run dec inc s held ops = Fault (Blocked m))"
  using assms
proof (induction ops arbitrary: s held)
  case (Cons op ops)
  show ?case
  proof (cases op)
    case (Take sz)
    show ?thesis
    proof (cases "unat sz \<le> avail s")
      case True
      from dec_ok [OF Cons.prems(1) True] obtain s' where s': "dec s sz = Ok s'" "inv s'"
        "avail s' = avail s - unat sz" "total s' = total s" by blast
      with True Cons.prems(2) have "balanced s' (sz # held)" by (simp add: balanced_def)
      from Cons.IH [OF s'(2) this] show ?thesis by (simp add: Take s')
    qed (use dec_blocks [OF Cons.prems(1), of sz] Take in auto)
  next
    case (Give k)
    show ?thesis
    proof (cases "k < length held")
      case True
      let ?rest = "take k held @ drop (Suc k) held"
      have "sum_list (map unat held) = unat (held ! k) + sum_list (map unat ?rest)"
        using arg_cong [OF id_take_nth_drop [OF True], of "\<lambda>xs. sum_list (map unat xs)"] by simp
      moreover from this Cons.prems(2) have "avail s + unat (held ! k) \<le> total s" by (simp add: balanced_def)
      from inc_ok [OF Cons.prems(1) this] obtain s' where s': "inc s (held ! k) = Ok s'" "inv s'"
        "avail s' = avail s + unat (held ! k)" "total s' = total s" by blast
      ultimately have "balanced s' ?rest" using Cons.prems(2) by (simp add: balanced_def)
      from Cons.IH [OF s'(2) this] show ?thesis using True by (simp add: Give s')
    qed (use Cons Give in simp)
  qed
qed simp

end

interpretation throttle: budget throttle_inv "\<lambda>t. unat (available t)" "\<lambda>t. unat (capacity t)"
  arax_throttle_size_dec arax_throttle_size_inc
proof
  fix s sz
  assume inv: "throttle_inv s"
  show "\<exists>s'. arax_throttle_size_dec s sz = Ok s' \<and> throttle_inv s' \<and>
      unat (available s') = unat (available s) - unat sz \<and> unat (capacity s') = unat (capacity s)"
    if "unat sz \<le> unat (available s)"
    using throttle_dec_ok [OF inv, of sz] that by (simp add: word_le_nat_alt unat_sub)
  show "\<exists>m. arax_throttle_size_dec s sz = Fault (Blocked m)" if "unat (available s) < unat sz"
    using throttle_dec_blocks [OF inv, of sz] that by (simp add: word_less_nat_alt)
  show "\<exists>s'. arax_throttle_size_inc s sz = Ok s' \<and> throttle_inv s' \<and>
      unat (available s') = unat (available s) + unat sz \<and> unat (capacity s') = unat (capacity s)"
    if "unat (available s) + unat sz \<le> unat (capacity s)"
    using throttle_inc_ok [OF inv that] by simp
qed

section \<open>Many threads\<close>

text \<open>
  A thread is idle, inside \<open>arax_throttle_size_inc\<close> or inside \<open>arax_throttle_size_dec\<close>. A sleeping
  thread gave the mutex up; it wakes by a notification (or spuriously, as POSIX allows) and then
  competes for the mutex again. \<open>ts_owed\<close> is auxiliary: what was taken and may still be given back;
  a thread only gives back what is owed.
\<close>

datatype thr_pc =
    T_idle
  | Inc_lock u64
  | Inc_add u64
  | Inc_notify
  | Inc_unlock
  | Dec_lock u64
  | Dec_check u64
  | Dec_asleep u64
  | Dec_unlock
  | T_aborted

record thr_sys =
  ts_thr :: arax_throttle_s
  ts_pcs :: "nat \<Rightarrow> thr_pc"
  ts_owed :: nat

definition thr_goto :: "nat \<Rightarrow> thr_pc \<Rightarrow> thr_sys \<Rightarrow> thr_sys" where
  "thr_goto i pc s = s\<lparr>ts_pcs := (ts_pcs s)(i := pc)\<rparr>"

fun thr_wake :: "thr_pc \<Rightarrow> thr_pc" where
  "thr_wake (Dec_asleep sz) = Dec_lock sz"
| "thr_wake pc = pc"

definition thr_checked :: "arax_throttle_s \<Rightarrow> thr_pc \<Rightarrow> thr_pc" where
  "thr_checked thr pc = (if is_ok (arax_assert (capacity thr \<ge> available thr) ''thr->capacity >= thr->available'') then pc else T_aborted)"

inductive thr_step :: "nat \<Rightarrow> thr_sys \<Rightarrow> nat \<Rightarrow> thr_sys \<Rightarrow> bool" for n :: nat where
  inc_call: "i < n \<Longrightarrow> ts_pcs s i = T_idle \<Longrightarrow> sz \<noteq> 0 \<Longrightarrow> unat sz \<le> ts_owed s \<Longrightarrow>
    thr_step n s i (thr_goto i (Inc_lock sz) s\<lparr>ts_owed := ts_owed s - unat sz\<rparr>)"
| inc_lock: "i < n \<Longrightarrow> ts_pcs s i = Inc_lock sz \<Longrightarrow> async_condition_lock (ready (ts_thr s)) = Ok c \<Longrightarrow>
    thr_step n s i (thr_goto i (Inc_add sz) s\<lparr>ts_thr := ts_thr s\<lparr>ready := c\<rparr>\<rparr>)"
| inc_add: "i < n \<Longrightarrow> ts_pcs s i = Inc_add sz \<Longrightarrow> thr = ts_thr s\<lparr>available := available (ts_thr s) + sz\<rparr> \<Longrightarrow>
    thr_step n s i (thr_goto i (thr_checked thr Inc_notify) s\<lparr>ts_thr := thr\<rparr>)"
| inc_notify: "i < n \<Longrightarrow> ts_pcs s i = Inc_notify \<Longrightarrow>
    thr_step n s i (thr_goto i Inc_unlock (s\<lparr>ts_pcs := thr_wake \<circ> ts_pcs s\<rparr>))"
| inc_unlock: "i < n \<Longrightarrow> ts_pcs s i = Inc_unlock \<Longrightarrow>
    thr_step n s i (thr_goto i T_idle s\<lparr>ts_thr := ts_thr s\<lparr>ready := async_condition_unlock (ready (ts_thr s))\<rparr>\<rparr>)"
| dec_call: "i < n \<Longrightarrow> ts_pcs s i = T_idle \<Longrightarrow> sz \<noteq> 0 \<Longrightarrow> thr_step n s i (thr_goto i (Dec_lock sz) s)"
| dec_lock: "i < n \<Longrightarrow> ts_pcs s i = Dec_lock sz \<Longrightarrow> async_condition_lock (ready (ts_thr s)) = Ok c \<Longrightarrow>
    thr_step n s i (thr_goto i (Dec_check sz) s\<lparr>ts_thr := ts_thr s\<lparr>ready := c\<rparr>\<rparr>)"
| dec_sleep: "i < n \<Longrightarrow> ts_pcs s i = Dec_check sz \<Longrightarrow> available (ts_thr s) < sz \<Longrightarrow>
    thr_step n s i (thr_goto i (Dec_asleep sz) s\<lparr>ts_thr := ts_thr s\<lparr>ready := async_condition_unlock (ready (ts_thr s))\<rparr>\<rparr>)"
| dec_spurious: "i < n \<Longrightarrow> ts_pcs s i = Dec_asleep sz \<Longrightarrow> thr_step n s i (thr_goto i (Dec_lock sz) s)"
| dec_take: "i < n \<Longrightarrow> ts_pcs s i = Dec_check sz \<Longrightarrow> \<not> available (ts_thr s) < sz \<Longrightarrow>
    thr = ts_thr s\<lparr>available := available (ts_thr s) - sz\<rparr> \<Longrightarrow>
    thr_step n s i (thr_goto i (thr_checked thr Dec_unlock) s\<lparr>ts_thr := thr, ts_owed := ts_owed s + unat sz\<rparr>)"
| dec_unlock: "i < n \<Longrightarrow> ts_pcs s i = Dec_unlock \<Longrightarrow>
    thr_step n s i (thr_goto i T_idle s\<lparr>ts_thr := ts_thr s\<lparr>ready := async_condition_unlock (ready (ts_thr s))\<rparr>\<rparr>)"

inductive thr_reach :: "nat \<Rightarrow> u64 \<Rightarrow> u64 \<Rightarrow> thr_sys \<Rightarrow> bool" for n :: nat and a :: u64 and t :: u64 where
  start: "arax_throttle_init a t = Ok thr \<Longrightarrow>
    thr_reach n a t \<lparr>ts_thr = thr, ts_pcs = (\<lambda>_. T_idle), ts_owed = unat t - unat a\<rparr>"
| step: "thr_reach n a t s \<Longrightarrow> thr_step n s i s' \<Longrightarrow> thr_reach n a t s'"

fun thr_critical :: "thr_pc \<Rightarrow> bool" where
  "thr_critical (Inc_add sz) = True"
| "thr_critical Inc_notify = True"
| "thr_critical Inc_unlock = True"
| "thr_critical (Dec_check sz) = True"
| "thr_critical Dec_unlock = True"
| "thr_critical _ = False"

fun thr_pending :: "thr_pc \<Rightarrow> nat" where
  "thr_pending (Inc_lock sz) = unat sz"
| "thr_pending (Inc_add sz) = unat sz"
| "thr_pending _ = 0"

lemma thr_wake_simps [simp]:
  "thr_critical (thr_wake pc) = thr_critical pc" "thr_pending (thr_wake pc) = thr_pending pc"
  "thr_wake pc \<noteq> Dec_asleep sz" "thr_wake pc = T_aborted \<longleftrightarrow> pc = T_aborted" "thr_wake pc = Inc_notify \<longleftrightarrow> pc = Inc_notify"
  by (cases pc; simp)+

definition thr_sys_inv :: "nat \<Rightarrow> thr_sys \<Rightarrow> bool" where
  "thr_sys_inv n s \<longleftrightarrow>
     unat (available (ts_thr s)) + ts_owed s + (\<Sum>i<n. thr_pending (ts_pcs s i)) = unat (capacity (ts_thr s)) \<and>
     (\<forall>i j. thr_critical (ts_pcs s i) \<longrightarrow> thr_critical (ts_pcs s j) \<longrightarrow> i = j) \<and>
     (ready (ts_thr s) = cond_held \<longleftrightarrow> (\<exists>i. thr_critical (ts_pcs s i))) \<and>
     (\<forall>i. ts_pcs s i \<noteq> T_aborted) \<and>
     (\<forall>i sz. ts_pcs s i = Dec_asleep sz \<longrightarrow> available (ts_thr s) < sz \<or> (\<exists>j. ts_pcs s j = Inc_notify))"

lemma sum_pending_upd:
  fixes n :: nat
  assumes "i < n"
  shows "(\<Sum>j<n. thr_pending ((p(i := pc)) j)) + thr_pending (p i) = (\<Sum>j<n. thr_pending (p j)) + thr_pending pc"
proof -
  have split: "(\<Sum>j<n. f j) = f i + (\<Sum>j\<in>{..<n} - {i}. f j)" for f :: "nat \<Rightarrow> nat"
    using assms by (intro sum.remove) auto
  have "(\<Sum>j\<in>{..<n} - {i}. thr_pending ((p(i := pc)) j)) = (\<Sum>j\<in>{..<n} - {i}. thr_pending (p j))"
    by (rule sum.cong) auto
  then show ?thesis
    using split [of "\<lambda>j. thr_pending ((p(i := pc)) j)"] split [of "\<lambda>j. thr_pending (p j)"] by simp
qed

text \<open>The owner of the mutex moves inside the critical section, or everybody else stays out.\<close>

lemma thr_inv_move:
  assumes inv: "thr_sys_inv n s" and i: "i < n"
    and sum: "unat (available thr) + owed + thr_pending pc + unat (capacity (ts_thr s)) =
      unat (capacity thr) + unat (available (ts_thr s)) + ts_owed s + thr_pending (ts_pcs s i)"
    and cap: "capacity thr = capacity (ts_thr s)"
    and crit: "thr_critical pc = thr_critical (ts_pcs s i) \<and> ready thr = ready (ts_thr s) \<or>
      thr_critical pc \<and> ready (ts_thr s) = cond_free \<and> ready thr = cond_held \<or>
      thr_critical (ts_pcs s i) \<and> \<not> thr_critical pc \<and> ready thr = cond_free"
    and pc: "pc \<noteq> T_aborted" "ts_pcs s i = Inc_notify \<Longrightarrow> pc = Inc_notify \<or> (\<forall>j sz. ts_pcs s j \<noteq> Dec_asleep sz)"
    and sleep: "pc = Inc_notify \<or> available thr \<le> available (ts_thr s)"
    and asleep: "\<And>sz. pc = Dec_asleep sz \<Longrightarrow> available thr < sz"
  shows "thr_sys_inv n (thr_goto i pc s\<lparr>ts_thr := thr, ts_owed := owed\<rparr>)"
proof -
  have "(\<Sum>j<n. thr_pending (((ts_pcs s)(i := pc)) j)) + thr_pending (ts_pcs s i) =
      (\<Sum>j<n. thr_pending (ts_pcs s j)) + thr_pending pc" by (rule sum_pending_upd [OF i])
  with inv sum cap have 1: "unat (available thr) + owed + (\<Sum>j<n. thr_pending (((ts_pcs s)(i := pc)) j)) = unat (capacity thr)"
    by (simp add: thr_sys_inv_def)
  have mutex: "\<And>i j. thr_critical (ts_pcs s i) \<Longrightarrow> thr_critical (ts_pcs s j) \<Longrightarrow> i = j"
    and held: "ready (ts_thr s) = cond_held \<longleftrightarrow> (\<exists>i. thr_critical (ts_pcs s i))"
    using inv by (auto simp: thr_sys_inv_def)
  have 2: "thr_critical (((ts_pcs s)(i := pc)) k) \<Longrightarrow> thr_critical (((ts_pcs s)(i := pc)) j) \<Longrightarrow> k = j" for k j
  proof -
    assume k: "thr_critical (((ts_pcs s)(i := pc)) k)" and j: "thr_critical (((ts_pcs s)(i := pc)) j)"
    from crit have "thr_critical pc = thr_critical (ts_pcs s i) \<or> (\<forall>k. \<not> thr_critical (ts_pcs s k)) \<or> \<not> thr_critical pc"
      using held by force
    with k j mutex [of k j] mutex [of i j] mutex [of k i] show "k = j" by (auto split: if_splits)
  qed
  have 3: "ready thr = cond_held \<longleftrightarrow> (\<exists>k. thr_critical (((ts_pcs s)(i := pc)) k))"
    using crit
  proof (elim disjE conjE)
    assume same: "thr_critical pc = thr_critical (ts_pcs s i)" "ready thr = ready (ts_thr s)"
    then have "thr_critical (((ts_pcs s)(i := pc)) k) = thr_critical (ts_pcs s k)" for k by simp
    with same held show ?thesis by simp
  next
    assume "thr_critical pc" "ready thr = cond_held"
    then show ?thesis by (auto intro: exI [of _ i])
  next
    assume out: "thr_critical (ts_pcs s i)" "\<not> thr_critical pc" "ready thr = cond_free"
    have "\<not> thr_critical (((ts_pcs s)(i := pc)) k)" for k using mutex [of k i] out by auto
    with out show ?thesis by simp
  qed
  have 4: "\<forall>k. ((ts_pcs s)(i := pc)) k \<noteq> T_aborted" using inv pc by (simp add: thr_sys_inv_def)
  have 5: "available thr < sz \<or> (\<exists>j. ((ts_pcs s)(i := pc)) j = Inc_notify)" if "((ts_pcs s)(i := pc)) k = Dec_asleep sz" for k sz
  proof (cases "k = i")
    case False
    with that inv have "available (ts_thr s) < sz \<or> (\<exists>j. ts_pcs s j = Inc_notify)" by (simp add: thr_sys_inv_def)
    moreover have "ts_pcs s k = Dec_asleep sz" using that False by simp
    ultimately show ?thesis using sleep pc(2) by (metis fun_upd_apply le_less_trans)
  qed (use that asleep in simp)
  show ?thesis
    unfolding thr_sys_inv_def thr_goto_def
    apply (simp del: fun_upd_apply)
    using 1 2 3 4 5 apply blast
    done
qed

lemma thr_goto_keep:
  "thr_goto i pc s = thr_goto i pc s\<lparr>ts_thr := ts_thr s, ts_owed := ts_owed s\<rparr>"
  "thr_goto i pc s\<lparr>ts_thr := thr\<rparr> = thr_goto i pc s\<lparr>ts_thr := thr, ts_owed := ts_owed s\<rparr>"
  "thr_goto i pc s\<lparr>ts_owed := w\<rparr> = thr_goto i pc s\<lparr>ts_thr := ts_thr s, ts_owed := w\<rparr>"
  by (simp_all add: thr_goto_def)

lemma thr_checked_ok: "available thr \<le> capacity thr \<Longrightarrow> thr_checked thr pc = pc"
  by (simp add: thr_checked_def)

lemma thr_step_inv:
  assumes st: "thr_step n s i s'" and inv: "thr_sys_inv n s"
  shows "thr_sys_inv n s'"
  using st
proof cases
  case (inc_call sz)
  then show ?thesis unfolding inc_call(1) by (subst thr_goto_keep(3), intro thr_inv_move [OF inv]) auto
next
  case (inc_lock sz c)
  then show ?thesis unfolding inc_lock(1)
    by (subst thr_goto_keep(2), intro thr_inv_move [OF inv]) (auto simp: res_simps)
next
  case (inc_add sz thr)
  have "thr_pending (ts_pcs s i) \<le> (\<Sum>j<n. thr_pending (ts_pcs s j))"
    using inc_add(2) by (intro member_le_sum) auto
  with inv inc_add have le: "unat (available (ts_thr s)) + unat sz \<le> unat (capacity (ts_thr s))"
    by (simp add: thr_sys_inv_def)
  then have u: "unat (available (ts_thr s) + sz) = unat (available (ts_thr s)) + unat sz"
    using lt_64_unat [of "capacity (ts_thr s)"] by (subst unat_add_lem [symmetric]) simp
  with le have ok: "available thr \<le> capacity thr" by (simp add: inc_add(4) word_le_nat_alt)
  show ?thesis unfolding inc_add(1) thr_checked_ok [OF ok]
    using inc_add u by (subst thr_goto_keep(2), intro thr_inv_move [OF inv]) auto
next
  case inc_notify
  let ?s = "s\<lparr>ts_pcs := thr_wake \<circ> ts_pcs s\<rparr>"
  have woken: "thr_sys_inv n ?s" using inv by (simp add: thr_sys_inv_def)
  show ?thesis unfolding inc_notify(1) using inc_notify
    by (subst thr_goto_keep(1), intro thr_inv_move [OF woken]) auto
next
  case inc_unlock
  then show ?thesis unfolding inc_unlock(1) using async_condition_cases [of "ready (ts_thr s)"]
    by (subst thr_goto_keep(2), intro thr_inv_move [OF inv]) auto
next
  case (dec_call sz)
  then show ?thesis unfolding dec_call(1) by (subst thr_goto_keep(1), intro thr_inv_move [OF inv]) auto
next
  case (dec_lock sz c)
  then show ?thesis unfolding dec_lock(1)
    by (subst thr_goto_keep(2), intro thr_inv_move [OF inv]) (auto simp: res_simps)
next
  case (dec_sleep sz)
  then show ?thesis unfolding dec_sleep(1) using async_condition_cases [of "ready (ts_thr s)"]
    by (subst thr_goto_keep(2), intro thr_inv_move [OF inv]) auto
next
  case (dec_spurious sz)
  then show ?thesis unfolding dec_spurious(1) by (subst thr_goto_keep(1), intro thr_inv_move [OF inv]) auto
next
  case (dec_take sz thr)
  then have le: "sz \<le> available (ts_thr s)" by simp
  then have u: "unat (available (ts_thr s) - sz) = unat (available (ts_thr s)) - unat sz"
    "unat sz \<le> unat (available (ts_thr s))" by (simp_all add: unat_sub word_le_nat_alt)
  have "unat (available (ts_thr s)) \<le> unat (capacity (ts_thr s))" using inv by (simp add: thr_sys_inv_def)
  with u have ok: "available thr \<le> capacity thr" "available thr \<le> available (ts_thr s)"
    by (simp_all add: dec_take(5) word_le_nat_alt)
  show ?thesis unfolding dec_take(1) thr_checked_ok [OF ok(1)]
    using dec_take u ok by (intro thr_inv_move [OF inv]) auto
next
  case dec_unlock
  then show ?thesis unfolding dec_unlock(1) using async_condition_cases [of "ready (ts_thr s)"]
    by (subst thr_goto_keep(2), intro thr_inv_move [OF inv]) auto
qed

lemma thr_reach_inv: "thr_reach n a t s \<Longrightarrow> thr_sys_inv n s \<and> capacity (ts_thr s) = t"
proof (induction rule: thr_reach.induct)
  case (start thr)
  then show ?case by (auto simp: thr_sys_inv_def arax_throttle_init_def res_simps word_le_nat_alt)
next
  case (step s i s')
  moreover from this(2) have "capacity (ts_thr s') = capacity (ts_thr s)"
    by cases (auto simp: thr_goto_def)
  ultimately show ?case using thr_step_inv by simp
qed

section \<open>Properties of the throttle\<close>

text \<open>One flow of control: any sequence of \<open>arax_throttle_size_dec\<close> calls and
  \<open>arax_throttle_size_inc\<close> calls that give back an amount taken before never trips an assertion; it
  either sleeps in a \<open>size_dec\<close> for want of memory, or ends with what is available plus what is still
  held being exactly the capacity.\<close>

theorem throttle_sessions:
  assumes "0 < t"
  shows "\<exists>thr. arax_throttle_init t t = Ok thr \<and>
    ((\<exists>thr' held. budget_run arax_throttle_size_dec arax_throttle_size_inc thr [] ops = Ok (thr', held) \<and>
        unat (arax_throttle_get_available_size thr') + sum_list (map unat held) = unat (arax_throttle_get_total_size thr') \<and>
        arax_throttle_get_total_size thr' = t) \<or>
     (\<exists>m. budget_run arax_throttle_size_dec arax_throttle_size_inc thr [] ops = Fault (Blocked m)))"
proof -
  let ?thr = "\<lparr>available = t, capacity = t, ready = cond_free\<rparr>"
  have "throttle_inv ?thr" "throttle.balanced ?thr []" by (simp_all add: throttle_inv_def throttle.balanced_def)
  from throttle.session [OF this, of ops] throttle_init_ok [OF assms order_refl] show ?thesis
    by (auto simp: throttle.balanced_def arax_throttle_get_available_size_def arax_throttle_get_total_size_def word_unat_eq_iff)
qed

theorem throttle_sessions_witness:
  "\<exists>thr' held. budget_run arax_throttle_size_dec arax_throttle_size_inc
      \<lparr>available = 100, capacity = 100, ready = cond_free\<rparr> [] [Take 60, Take 30, Give 1] = Ok (thr', held) \<and>
    unat (arax_throttle_get_available_size thr') + sum_list (map unat held) = 100"
  using throttle_sessions [of 100 "[Take 60, Take 30, Give 1]"]
  by (auto simp: arax_throttle_init_def arax_throttle_size_dec_def arax_throttle_size_inc_def Let_def)

text \<open>C4. Any number of threads: as long as threads only give back what was taken, at every moment the
  available amount plus what is owed plus what is on its way back is the capacity, at most one thread
  is inside the critical section, no assertion of the throttle fires, and no wake-up is lost: a
  sleeping thread either still lacks memory or its notification is about to be sent.\<close>

theorem throttle_concurrent:
  assumes "thr_reach n a t s"
  shows "unat (available (ts_thr s)) + ts_owed s + (\<Sum>i<n. thr_pending (ts_pcs s i)) = unat t \<and>
    (\<forall>i j. thr_critical (ts_pcs s i) \<and> thr_critical (ts_pcs s j) \<longrightarrow> i = j) \<and>
    (\<forall>i. ts_pcs s i \<noteq> T_aborted) \<and>
    (\<forall>i sz. ts_pcs s i = Dec_asleep sz \<longrightarrow> available (ts_thr s) < sz \<or> (\<exists>j. ts_pcs s j = Inc_notify))"
  using thr_reach_inv [OF assms] unfolding thr_sys_inv_def by blast

definition thr_demo :: "thr_pc \<Rightarrow> async_condition_s \<Rightarrow> thr_sys" where
  "thr_demo pc c = \<lparr>ts_thr = \<lparr>available = 5, capacity = 10, ready = c\<rparr>, ts_pcs = (\<lambda>_. T_idle)(0 := pc), ts_owed = 5\<rparr>"

lemma thr_demo_reach: "thr_reach 2 5 10 (thr_demo (Dec_asleep 7) cond_free)"
proof -
  have "thr_reach 2 5 10 (thr_demo T_idle cond_free)"
    using thr_reach.start [of 5 10 _ 2] throttle_init_ok [of 5 10] by (simp add: thr_demo_def fun_upd_def)
  then have "thr_reach 2 5 10 (thr_demo (Dec_lock 7) cond_free)"
    by (rule thr_reach.step) (use thr_step.dec_call [of 0 2 "thr_demo T_idle cond_free" 7] in \<open>simp add: thr_demo_def thr_goto_def\<close>)
  then have "thr_reach 2 5 10 (thr_demo (Dec_check 7) cond_held)"
    by (rule thr_reach.step) (use thr_step.dec_lock [of 0 2 "thr_demo (Dec_lock 7) cond_free" 7 cond_held] in \<open>simp add: thr_demo_def thr_goto_def\<close>)
  then show ?thesis
    by (rule thr_reach.step) (use thr_step.dec_sleep [of 0 2 "thr_demo (Dec_check 7) cond_held" 7] in \<open>simp add: thr_demo_def thr_goto_def\<close>)
qed

theorem throttle_concurrent_witness:
  "thr_reach 2 5 10 (thr_demo (Dec_asleep 7) cond_free) \<and>
   unat (available (ts_thr (thr_demo (Dec_asleep 7) cond_free))) + 5 = 10"
  using throttle_concurrent [OF thr_demo_reach] thr_demo_reach by (simp add: thr_demo_def)

end
