(* ===== verification/Bitmap.thy ===== *)
theory Bitmap
  imports Spinlock
begin

text \<open>
  \<open>src/utils/bitmap.c\<close>, the page bitmap of the shared segment: \<open>size_bits\<close> bits kept in
  64 bit chunks, a set bit is an allocated page. Pointers into the \<open>bits\<close> array (\<open>free_p\<close>,
  \<open>end\<close>, \<open>chunk\<close>) are indices of chunks; sizes and bit numbers are \<open>size_t\<close> words.

  The abstract view is the set of allocated bit numbers (\<open>alloc_set\<close>). The lemmas show what
  each operation does to that set, that \<open>used_bits\<close> counts it, and how far the set can reach.
\<close>

section \<open>The code\<close>

record utils_bitmap =
  bm_lock :: u64
  free_p :: nat
  bm_end :: nat
  used_bits :: u64
  size_bits :: u64
  bm_bits :: "u64 list"

definition BITMAP_NOT_FOUND :: u64 where
  "BITMAP_NOT_FOUND = -1"

text \<open>
  \<open>utils_bitmap_init\<close>: \<open>size_bits += 63; size_bits /= 64\<close> wraps as \<open>size_t\<close> does, and the
  \<open>memset\<close> clears \<open>size_bits * 8\<close> bytes, which is every chunk up to \<open>end\<close>.
\<close>

definition utils_bitmap_init :: "u64 \<Rightarrow> utils_bitmap" where
  "utils_bitmap_init sz =
     (let chunks = unat ((sz + 63) div 64) in
      \<lparr>bm_lock = utils_spinlock_init, free_p = 0, bm_end = chunks,
       used_bits = 0, size_bits = sz, bm_bits = replicate chunks 0\<rparr>)"

definition utils_bitmap_size :: "utils_bitmap \<Rightarrow> u64" where
  "utils_bitmap_size bmp = size_bits bmp"

definition utils_bitmap_used :: "utils_bitmap \<Rightarrow> u64" where
  "utils_bitmap_used bmp = used_bits bmp"

definition utils_bitmap_free :: "utils_bitmap \<Rightarrow> u64" where
  "utils_bitmap_free bmp = size_bits bmp - used_bits bmp"

text \<open>\<open>find_end_small\<close> writes through its \<open>chunk\<close> pointer on success: \<open>Some\<close> of the new chunk.\<close>

definition find_end_small :: "u64 \<Rightarrow> u64 \<Rightarrow> u64 option" where
  "find_end_small bits chunk =
     (let msk = (if bits \<noteq> 64 then push_bit (unat bits) 1 - 1 else BITMAP_NOT_FOUND)
      in if msk AND chunk = 0 then Some (chunk OR msk) else None)"

text \<open>The \<open>for\<close> loop that slides \<open>mask\<close> over a chunk, \<open>shift <= 64 - bits\<close>.\<close>

function find_gap :: "u64 \<Rightarrow> nat \<Rightarrow> u64 \<Rightarrow> nat \<Rightarrow> (nat \<times> u64) option" where
  "find_gap usable lim msk shift =
     (if shift \<le> lim then
        (if msk AND usable = 0 then Some (shift, msk)
         else find_gap usable lim (push_bit 1 msk) (Suc shift))
      else None)"
  by pat_completeness auto
termination
  by (relation "measure (\<lambda>(_, lim, _, shift). Suc lim - shift)") auto

declare find_gap.simps [simp del]

definition usable_bits :: "utils_bitmap \<Rightarrow> nat \<Rightarrow> u64" where
  "usable_bits bmp i =
     (let chunk = bm_bits bmp ! i; shift = size_bits bmp mod 64
      in if Suc i = bm_end bmp \<and> shift \<noteq> 0 then chunk OR push_bit (unat shift) (-1) else chunk)"

definition find_start_small :: "utils_bitmap \<Rightarrow> u64 \<Rightarrow> nat \<Rightarrow> u64 \<times> utils_bitmap" where
  "find_start_small bmp bits i =
     (let chunk = bm_bits bmp ! i; usable = usable_bits bmp i in
      if usable = 0 then
        (of_nat i * 8 * 8,
         bmp\<lparr>bm_bits := (bm_bits bmp)[i := (if bits = 64 then BITMAP_NOT_FOUND
                                            else push_bit (unat bits) 1 - 1)],
             used_bits := used_bits bmp + bits\<rparr>)
      else if chunk = BITMAP_NOT_FOUND then (BITMAP_NOT_FOUND, bmp)
      else if bits \<le> of_nat (64 - popcountl usable) then
        (case find_gap usable (unat (64 - bits)) (push_bit (unat bits) 1 - 1) 0 of
           None \<Rightarrow> (BITMAP_NOT_FOUND, bmp)
         | Some (shift, msk) \<Rightarrow>
             (of_nat i * 8 * 8 + of_nat shift,
              bmp\<lparr>bm_bits := (bm_bits bmp)[i := chunk OR msk],
                  used_bits := used_bits bmp + bits\<rparr>))
      else
        (let free_end = (if chunk \<noteq> 0 then clzl chunk else 64) in
         if free_end = 0 then (BITMAP_NOT_FOUND, bmp)
         else if Suc i = bm_end bmp then (BITMAP_NOT_FOUND, bmp)
         else (case find_end_small (bits - of_nat free_end) (bm_bits bmp ! Suc i) of
                 None \<Rightarrow> (BITMAP_NOT_FOUND, bmp)
               | Some next \<Rightarrow>
                   (of_nat i * 8 * 8 + of_nat (64 - free_end),
                    bmp\<lparr>bm_bits := (bm_bits bmp)[Suc i := next,
                                                 i := chunk OR push_bit (64 - free_end) (-1)],
                        used_bits := used_bits bmp + bits\<rparr>))))"

text \<open>\<open>memset(bits + from, v, 8 * n)\<close> on whole chunks.\<close>

definition fill_chunks :: "u64 list \<Rightarrow> nat \<Rightarrow> nat \<Rightarrow> u64 \<Rightarrow> u64 list" where
  "fill_chunks bs from n v = take from bs @ replicate n v @ drop (from + n) bs"

definition find_start_big :: "utils_bitmap \<Rightarrow> u64 \<Rightarrow> nat \<Rightarrow> u64 \<times> utils_bitmap" where
  "find_start_big bmp bits i =
     (let bs = bm_bits bmp; chunk = bs ! i in
      if chunk = BITMAP_NOT_FOUND then (BITMAP_NOT_FOUND, bmp)
      else
        let clz = clzl chunk;
            first_mask = (if chunk = 0 then BITMAP_NOT_FOUND
                          else if clz \<noteq> 0 then push_bit (64 - clz) (-1) else 0);
            remainder = (if chunk = 0 then bits - 64 else bits - of_nat clz);
            free_end = (if chunk = 0 then 0 else 64 - clz);
            found = of_nat i * 8 * 8 + of_nat free_end
        in
        if first_mask = 0 then (BITMAP_NOT_FOUND, bmp)
        else if Suc i = bm_end bmp then (BITMAP_NOT_FOUND, bmp)
        else if remainder < 65 then
          (case find_end_small remainder (bs ! Suc i) of
             None \<Rightarrow> (BITMAP_NOT_FOUND, bmp)
           | Some next \<Rightarrow>
               (found, bmp\<lparr>bm_bits := bs[Suc i := next, i := chunk OR first_mask],
                           used_bits := used_bits bmp + bits\<rparr>))
        else
          let span = unat (remainder div 64);
              last_remainder = remainder AND 63;
              last_mask = push_bit (unat last_remainder) (of_bool (last_remainder \<noteq> 0)) - 1;
              lst = Suc i + span
          in
          if bm_end bmp \<le> i + span + of_bool (last_remainder \<noteq> 0) then (BITMAP_NOT_FOUND, bmp)
          else if (\<exists>c\<in>set (take span (drop (Suc i) bs)). c \<noteq> 0) then (BITMAP_NOT_FOUND, bmp)
          else if last_remainder \<noteq> 0 \<and> bs ! lst AND last_mask \<noteq> 0 then (BITMAP_NOT_FOUND, bmp)
          else
            let bs1 = (if last_remainder \<noteq> 0 then bs[lst := bs ! lst OR last_mask] else bs);
                bs2 = fill_chunks bs1 (Suc i) span (-1)
            in (found, bmp\<lparr>bm_bits := bs2[i := chunk OR first_mask],
                           used_bits := used_bits bmp + bits\<rparr>))"

definition find_start :: "utils_bitmap \<Rightarrow> u64 \<Rightarrow> nat \<Rightarrow> u64 \<times> utils_bitmap" where
  "find_start bmp bits i =
     (if bits < 65 then find_start_small bmp bits i else find_start_big bmp bits i)"

text \<open>One \<open>for (chunk = from; chunk < to; chunk++)\<close> loop of \<open>utils_bitmap_alloc_bits\<close>.\<close>

fun scan_chunks :: "utils_bitmap \<Rightarrow> u64 \<Rightarrow> nat list \<Rightarrow> u64 \<times> utils_bitmap" where
  "scan_chunks bmp bits [] = (BITMAP_NOT_FOUND, bmp)"
| "scan_chunks bmp bits (i # is) =
     (let (found, bmp') = find_start bmp bits i
      in if found \<noteq> BITMAP_NOT_FOUND then (found, bmp') else scan_chunks bmp' bits is)"

text \<open>The body of \<open>utils_bitmap_alloc_bits\<close> between taking and releasing the lock.\<close>

definition alloc_search :: "utils_bitmap \<Rightarrow> u64 \<Rightarrow> u64 \<times> utils_bitmap" where
  "alloc_search bmp1 bits =
     (let bmp = (if free_p bmp1 = bm_end bmp1 then bmp1\<lparr>free_p := 0\<rparr> else bmp1) in
      if utils_bitmap_free bmp < bits then (BITMAP_NOT_FOUND, bmp)
      else
        let (found1, bmp3) = scan_chunks bmp bits [free_p bmp..<bm_end bmp];
            (found, bmp4) = (if found1 \<noteq> BITMAP_NOT_FOUND then (found1, bmp3)
                             else scan_chunks bmp3 bits [0..<free_p bmp3])
        in if found \<noteq> BITMAP_NOT_FOUND then (found, bmp4\<lparr>free_p := unat (found div 64)\<rparr>)
           else (found, bmp4))"

definition utils_bitmap_alloc_bits :: "utils_bitmap \<Rightarrow> u64 \<Rightarrow> (u64 \<times> utils_bitmap) res" where
  "utils_bitmap_alloc_bits bmp bits =
     rbind (utils_spinlock_lock (bm_lock bmp)) (\<lambda>l.
       let (found, bmp') = alloc_search (bmp\<lparr>bm_lock := l\<rparr>) bits
       in rbind (utils_spinlock_unlock (bm_lock bmp')) (\<lambda>l. Ok (found, bmp'\<lparr>bm_lock := l\<rparr>)))"

definition utils_bitmap_free_bits :: "utils_bitmap \<Rightarrow> u64 \<Rightarrow> u64 \<Rightarrow> utils_bitmap res" where
  "utils_bitmap_free_bits bmp start bits =
     rbind (utils_spinlock_lock (bm_lock bmp)) (\<lambda>l.
     let bs = bm_bits bmp; bmp1 = bmp\<lparr>bm_lock := l\<rparr> in
     rbind
      (if bits = 1 then
         (let c = unat (start div 64) in
          Ok (bmp1\<lparr>bm_bits := bs[c := bs ! c AND NOT (push_bit (unat (start AND 63)) 1)],
                   used_bits := used_bits bmp1 - 1\<rparr>))
       else
         let e = start + bits;
             start_chunk = unat (start div 64);
             end_chunk = unat ((e - 1) div 64);
             start' = start AND 63;
             e' = e AND 63
         in
         if start_chunk = end_chunk then
           let msk = (if bits \<noteq> 64
                       then push_bit (unat (start' AND 63)) (push_bit (unat bits) 1 - 1)
                       else BITMAP_NOT_FOUND)
           in rbind (arax_assert (bs ! start_chunk AND msk = msk)
                       ''(bmp->bits[start_chunk] & mask) == mask'') (\<lambda>_.
              Ok (bmp1\<lparr>bm_bits := bs[start_chunk := bs ! start_chunk AND NOT msk],
                       used_bits := used_bits bmp1 - bits\<rparr>))
         else
           let span = end_chunk - start_chunk - 1;
               start_mask = push_bit (unat start') (-1);
               end_mask = (if e' \<noteq> 0 then drop_bit (unat (64 - e')) (-1) else -1)
           in rbind (arax_assert (bs ! start_chunk AND start_mask = start_mask)
                       ''(bmp->bits[start_chunk] & start_mask) == start_mask'') (\<lambda>_.
              rbind (arax_assert (bs ! end_chunk AND end_mask = end_mask)
                       ''(bmp->bits[end_chunk] & end_mask) == end_mask'') (\<lambda>_.
              let bs1 = bs[start_chunk := bs ! start_chunk AND NOT start_mask];
                  bs2 = bs1[end_chunk := bs1 ! end_chunk AND NOT end_mask];
                  bs3 = (if span \<noteq> 0 then fill_chunks bs2 (Suc start_chunk) span 0 else bs2)
              in Ok (bmp1\<lparr>bm_bits := bs3, used_bits := used_bits bmp1 - bits\<rparr>))))
      (\<lambda>bmp2. rbind (utils_spinlock_unlock (bm_lock bmp2)) (\<lambda>l. Ok (bmp2\<lparr>bm_lock := l\<rparr>))))"

definition utils_bitmap_count_allocated :: "utils_bitmap \<Rightarrow> u64" where
  "utils_bitmap_count_allocated bmp =
     fold (\<lambda>b allocated. if bm_bits bmp ! b \<noteq> 0
                         then allocated + of_nat (popcountl (bm_bits bmp ! b)) else allocated)
       [0..<unat ((size_bits bmp + 63) div 64)] 0"

text \<open>
  \<open>utils_bitmap_print_bits\<close>: the text it prints on \<open>stderr\<close>, least significant bit first, a
  blank after each chunk.
\<close>

definition utils_bitmap_print_bits :: "utils_bitmap \<Rightarrow> string" where
  "utils_bitmap_print_bits bmp =
     concat (map (\<lambda>b. map (\<lambda>s. if bit (bm_bits bmp ! b) s then CHR ''1'' else CHR ''0'') [0..<64] @ '' '')
       [0..<unat ((size_bits bmp + 63) div 64)]) @ [CHR 0x0A]"

section \<open>The abstract view: the set of allocated bits\<close>

definition alloc_set :: "u64 list \<Rightarrow> nat set" where
  "alloc_set bs = {j. j div 64 < length bs \<and> bit (bs ! (j div 64)) (j mod 64)}"

lemma alloc_set_iff: "j \<in> alloc_set bs \<longleftrightarrow> j div 64 < length bs \<and> bit (bs ! (j div 64)) (j mod 64)"
  by (simp add: alloc_set_def)

lemma alloc_set_bound: "alloc_set bs \<subseteq> {..<64 * length bs}"
  by (auto simp: alloc_set_def)

lemma alloc_set_finite [simp]: "finite (alloc_set bs)"
  using alloc_set_bound by (rule finite_subset) simp

lemma alloc_set_zeros [simp]: "alloc_set (replicate n 0) = {}"
  by (auto simp: alloc_set_def)

lemma alloc_set_update:
  "i < length bs \<Longrightarrow> j \<in> alloc_set (bs[i := c]) \<longleftrightarrow>
     (if j div 64 = i then bit c (j mod 64) else j \<in> alloc_set bs)"
  by (auto simp: alloc_set_def nth_list_update)

lemma chunk_interval:
  "s + n \<le> 64 \<Longrightarrow> j \<in> {64 * i + s..<64 * i + s + n} \<longleftrightarrow>
     j div 64 = i \<and> s \<le> j mod 64 \<and> j mod 64 < s + (n::nat)"
proof -
  assume sn: "s + n \<le> 64"
  define q r where "q = j div 64" and "r = j mod 64"
  then have j: "j = 64 * q + r" and r: "r < 64" by simp_all
  consider "q < i" | "q = i" | "i < q" by linarith
  then have "j \<in> {64 * i + s..<64 * i + s + n} \<longleftrightarrow> q = i \<and> s \<le> r \<and> r < s + n"
    using sn r by cases (simp_all add: j)
  then show ?thesis by (simp add: q_def r_def)
qed

text \<open>
  \<open>claims bs bs' s n\<close>: the step from \<open>bs\<close> to \<open>bs'\<close> takes exactly the \<open>n\<close> bits from \<open>s\<close>, all of
  them free before, and touches no other bit.
\<close>

definition claims :: "u64 list \<Rightarrow> u64 list \<Rightarrow> nat \<Rightarrow> nat \<Rightarrow> bool" where
  "claims bs bs' s n \<longleftrightarrow> length bs' = length bs \<and> s + n \<le> 64 * length bs \<and>
     alloc_set bs \<inter> {s..<s + n} = {} \<and> alloc_set bs' = alloc_set bs \<union> {s..<s + n}"

lemma claims_append:
  assumes "claims bs bs1 s n" and "claims bs1 bs2 (s + n) m"
  shows "claims bs bs2 s (n + m)"
proof -
  have "{s..<s + (n + m)} = {s..<s + n} \<union> {s + n..<s + n + m}" by auto
  with assms show ?thesis unfolding claims_def by auto
qed

lemma claims_chunk:
  assumes i: "i < length bs" and sn: "s + n \<le> 64"
    and m: "\<And>k. bit m k \<longleftrightarrow> s \<le> k \<and> k < s + n"
    and free: "\<And>k. bit m k \<Longrightarrow> \<not> bit (bs ! i) k"
  shows "claims bs (bs[i := bs ! i OR m]) (64 * i + s) n"
proof -
  have sub: "j \<in> {64 * i + s..<64 * i + s + n} \<longleftrightarrow> j div 64 = i \<and> bit m (j mod 64)" for j
    using chunk_interval [OF sn] m by blast
  have "alloc_set (bs[i := bs ! i OR m]) = alloc_set bs \<union> {64 * i + s..<64 * i + s + n}"
  proof (rule set_eqI)
    fix j
    show "j \<in> alloc_set (bs[i := bs ! i OR m]) \<longleftrightarrow> j \<in> alloc_set bs \<union> {64 * i + s..<64 * i + s + n}"
      using i unfolding Un_iff sub
      by (cases "j div 64 = i") (simp_all add: alloc_set_update alloc_set_iff bit_or_iff)
  qed
  moreover have "alloc_set bs \<inter> {64 * i + s..<64 * i + s + n} = {}"
  proof (rule equals0I)
    fix j assume j: "j \<in> alloc_set bs \<inter> {64 * i + s..<64 * i + s + n}"
    then have "j div 64 = i" and "bit m (j mod 64)" unfolding Int_iff sub by simp_all
    with j free [of "j mod 64"] show False by (simp add: alloc_set_iff)
  qed
  moreover have "64 * i + s + n \<le> 64 * length bs" using i sn by simp
  ultimately show ?thesis by (simp add: claims_def)
qed

lemma fill_chunks_length: "a + n \<le> length bs \<Longrightarrow> length (fill_chunks bs a n v) = length bs"
  by (simp add: fill_chunks_def)

lemma fill_chunks_nth:
  "a + n \<le> length bs \<Longrightarrow> q < length bs \<Longrightarrow>
     fill_chunks bs a n v ! q = (if a \<le> q \<and> q < a + n then v else bs ! q)"
  by (auto simp: fill_chunks_def nth_append)

lemma chunks_interval:
  "j \<in> {64 * a..<64 * a + 64 * n} \<longleftrightarrow> a \<le> j div 64 \<and> j div 64 < a + (n::nat)"
proof -
  have "64 * a \<le> j \<longleftrightarrow> a \<le> j div 64" and "j < 64 * (a + n) \<longleftrightarrow> j div 64 < a + n"
    using less_eq_div_iff_mult_less_eq [of 64 a j] div_less_iff_less_mult [of 64 j "a + n"]
    by (simp_all add: mult.commute)
  then show ?thesis by simp
qed

lemma claims_fill:
  assumes len: "a + n \<le> length bs" and zero: "\<And>q. a \<le> q \<Longrightarrow> q < a + n \<Longrightarrow> bs ! q = 0"
  shows "claims bs (fill_chunks bs a n (-1)) (64 * a) (64 * n)"
proof -
  note int = chunks_interval [of _ a n]
  have "alloc_set (fill_chunks bs a n (-1)) = alloc_set bs \<union> {64 * a..<64 * a + 64 * n}"
  proof (rule set_eqI)
    fix j
    show "j \<in> alloc_set (fill_chunks bs a n (-1)) \<longleftrightarrow> j \<in> alloc_set bs \<union> {64 * a..<64 * a + 64 * n}"
      using len unfolding Un_iff int
      by (cases "a \<le> j div 64 \<and> j div 64 < a + n")
        (auto simp: alloc_set_iff fill_chunks_length fill_chunks_nth)
  qed
  moreover have "alloc_set bs \<inter> {64 * a..<64 * a + 64 * n} = {}"
  proof (rule equals0I)
    fix j assume j: "j \<in> alloc_set bs \<inter> {64 * a..<64 * a + 64 * n}"
    then have "bs ! (j div 64) = 0" using zero unfolding Int_iff int by blast
    with j show False by (simp add: alloc_set_iff)
  qed
  ultimately show ?thesis using len by (simp add: claims_def fill_chunks_length)
qed

section \<open>Shape invariant\<close>

text \<open>What \<open>utils_bitmap_init\<close> establishes and nothing changes; \<open>size_bits + 63\<close> does not wrap.\<close>

definition bm_shape :: "utils_bitmap \<Rightarrow> bool" where
  "bm_shape bmp \<longleftrightarrow> bm_end bmp = length (bm_bits bmp) \<and> unat (size_bits bmp) + 63 < 2 ^ 64 \<and>
     length (bm_bits bmp) = (unat (size_bits bmp) + 63) div 64 \<and> free_p bmp \<le> bm_end bmp"

lemma bm_shape_len: "bm_shape bmp \<Longrightarrow> length (bm_bits bmp) < 2 ^ 58"
  unfolding bm_shape_def by (simp, linarith)

lemma bm_shape_claims:
  "bm_shape bmp \<Longrightarrow> claims (bm_bits bmp) bs s n \<Longrightarrow> f \<le> bm_end bmp \<Longrightarrow>
     bm_shape (bmp\<lparr>free_p := f, bm_bits := bs, used_bits := u\<rparr>)"
  by (simp add: bm_shape_def claims_def)

lemma bit_number:
  assumes "q < 2 ^ 58" and "s < 64"
  shows "unat (of_nat q * 8 * 8 + of_nat s :: u64) = 64 * q + s"
proof -
  have "(of_nat q * 8 * 8 + of_nat s :: u64) = of_nat (64 * q + s)" by simp
  moreover have "64 * q + s < 2 ^ 64" using assms by simp
  ultimately show ?thesis by (simp only: unat_of_nat) simp
qed

lemma not_found_iff: "w = BITMAP_NOT_FOUND \<longleftrightarrow> unat w = 2 ^ 64 - 1"
proof
  assume "w = BITMAP_NOT_FOUND"
  then show "unat w = 2 ^ 64 - 1" by (simp add: BITMAP_NOT_FOUND_def unsigned_minus_1_eq_mask mask_eq_exp_minus_1)
next
  assume "unat w = 2 ^ 64 - 1"
  moreover have "unat (-1 :: u64) = 2 ^ 64 - 1" by (simp add: unsigned_minus_1_eq_mask mask_eq_exp_minus_1)
  ultimately show "w = BITMAP_NOT_FOUND" unfolding BITMAP_NOT_FOUND_def by (metis word_unat_eq_iff)
qed

text \<open>What \<open>find_start\<close> and its callers promise: nothing found and nothing changed, or the
  \<open>bits\<close> bits from \<open>found\<close> were free, are now taken, and are accounted for.\<close>

definition find_spec :: "utils_bitmap \<Rightarrow> u64 \<Rightarrow> u64 \<times> utils_bitmap \<Rightarrow> bool" where
  "find_spec bmp bits r = (case r of (found, bmp') \<Rightarrow>
     if found = BITMAP_NOT_FOUND then bmp' = bmp
     else \<exists>bs. claims (bm_bits bmp) bs (unat found) (unat bits) \<and>
               bmp' = bmp\<lparr>bm_bits := bs, used_bits := used_bits bmp + bits\<rparr>)"

lemma find_spec_fail [simp]: "find_spec bmp bits (BITMAP_NOT_FOUND, bmp)"
  by (simp add: find_spec_def)

lemma find_specI:
  assumes sh: "bm_shape bmp" and c: "claims (bm_bits bmp) bs (64 * q + s) (unat bits)"
    and b: "0 < bits" and s: "s < 64"
  shows "find_spec bmp bits (of_nat q * 8 * 8 + of_nat s,
           bmp\<lparr>bm_bits := bs, used_bits := used_bits bmp + bits\<rparr>)"
proof -
  from b have b0: "0 < unat bits" by (simp add: unat_gt_0)
  from c have "64 * q + s + unat bits \<le> 64 * length (bm_bits bmp)" by (simp add: claims_def)
  with b0 bm_shape_len [OF sh] have lt: "64 * q + s < 64 * 2 ^ 58 - 64" and q: "q < 2 ^ 58"
    by linarith+
  from bit_number [OF q s] have u: "unat (of_nat q * 8 * 8 + of_nat s :: u64) = 64 * q + s" .
  with lt have "of_nat q * 8 * 8 + of_nat s \<noteq> BITMAP_NOT_FOUND" by (simp add: not_found_iff)
  with u c show ?thesis by (auto simp: find_spec_def)
qed

section \<open>Finding free bits\<close>

lemma find_end_small_Some:
  assumes "find_end_small b c = Some c'" and "b \<le> 64"
  shows "c' = c OR mask (unat b)" and "k < unat b \<Longrightarrow> \<not> bit c k"
proof -
  have m: "(if b \<noteq> 64 then push_bit (unat b) 1 - 1 else BITMAP_NOT_FOUND) = mask (unat b)"
    by (simp add: bits_simps BITMAP_NOT_FOUND_def)
  from assms(1) show "c' = c OR mask (unat b)"
    by (simp add: find_end_small_def Let_def m split: if_splits)
  from assms(1) have "mask (unat b) AND c = 0"
    by (simp add: find_end_small_def Let_def m split: if_splits)
  moreover have "unat b \<le> 64" using assms(2) by (simp add: word_le_nat_alt)
  ultimately show "k < unat b \<Longrightarrow> \<not> bit c k" by (simp add: and_eq_0_iff_u64 bits_simps)
qed

lemma claims_end_small:
  assumes "find_end_small b (bs ! i) = Some c'" and b: "b \<le> 64" and "i < length bs"
  shows "claims bs (bs[i := c']) (64 * i) (unat b)"
proof -
  have "unat b \<le> 64" using b by (simp add: word_le_nat_alt)
  then have "claims bs (bs[i := bs ! i OR mask (unat b)]) (64 * i + 0) (unat b)"
    using assms(3) find_end_small_Some(2) [OF assms(1) b]
    by (intro claims_chunk) (auto simp: bits_simps)
  then show ?thesis by (simp add: find_end_small_Some(1) [OF assms(1) b])
qed

lemma find_gap_Some:
  "find_gap u lim m s = Some (s', m') \<Longrightarrow> s \<le> s' \<and> s' \<le> lim \<and> m' = push_bit (s' - s) m \<and> m' AND u = 0"
proof (induction u lim m s rule: find_gap.induct)
  case (1 u lim m s)
  show ?case
  proof (cases "s \<le> lim \<and> m AND u \<noteq> 0")
    case True
    with "1.prems" have "find_gap u lim (push_bit 1 m) (Suc s) = Some (s', m')"
      by (simp add: find_gap.simps [of u lim m s])
    with "1.IH" True have ih: "Suc s \<le> s' \<and> s' \<le> lim \<and> m' = push_bit (s' - Suc s) (push_bit 1 m) \<and> m' AND u = 0"
      by blast
    then have "s' - s = (s' - Suc s) + 1" by linarith
    then have "push_bit (s' - s) m = push_bit (s' - Suc s) (push_bit 1 m)"
      by (simp only: push_bit_push_bit)
    with ih show ?thesis by (metis Suc_leD)
  next
    case False
    with "1.prems" show ?thesis by (auto simp: find_gap.simps [of u lim m s] split: if_splits)
  qed
qed

lemma usable_bits_sub: "bit (bm_bits bmp ! i) k \<Longrightarrow> bit (usable_bits bmp i) k"
  by (simp add: usable_bits_def Let_def bit_or_iff)

lemma usable_bits_not_last: "Suc i \<noteq> bm_end bmp \<Longrightarrow> usable_bits bmp i = bm_bits bmp ! i"
  by (simp add: usable_bits_def Let_def)

text \<open>A request that spills from the free end of one chunk into the start of the next.\<close>

lemma claims_spill:
  assumes i: "Suc i < length bs" and fe: "0 < fe" "fe \<le> 64" "\<And>k. 64 - fe \<le> k \<Longrightarrow> \<not> bit (bs ! i) k"
    and rest: "find_end_small r (bs ! Suc i) = Some nx" "r \<le> 64"
  shows "claims bs (bs[Suc i := nx, i := bs ! i OR push_bit (64 - fe) (-1)]) (64 * i + (64 - fe)) (fe + unat r)"
proof -
  let ?b1 = "bs[i := bs ! i OR push_bit (64 - fe) (-1)]"
  have c1: "claims bs ?b1 (64 * i + (64 - fe)) fe"
    using i fe by (intro claims_chunk) (auto simp: bits_simps)
  have "claims ?b1 (?b1[Suc i := nx]) (64 * Suc i) (unat r)"
    using rest i by (intro claims_end_small) simp_all
  moreover have "64 * Suc i = 64 * i + (64 - fe) + fe" using fe by simp
  ultimately have "claims ?b1 (?b1[Suc i := nx]) (64 * i + (64 - fe) + fe) (unat r)" by (simp only:)
  with c1 have "claims bs (?b1[Suc i := nx]) (64 * i + (64 - fe)) (fe + unat r)"
    by (rule claims_append)
  then show ?thesis by (simp add: list_update_swap)
qed

lemma find_start_small_spec:
  assumes sh: "bm_shape bmp" and i: "i < bm_end bmp" and b: "0 < bits" "bits \<le> 64"
  shows "find_spec bmp bits (find_start_small bmp bits i)"
proof -
  let ?bs = "bm_bits bmp" let ?c = "?bs ! i" let ?u = "usable_bits bmp i" let ?n = "unat bits"
  have il: "i < length ?bs" using i sh by (simp add: bm_shape_def)
  have n: "0 < ?n" "?n \<le> 64" using b by (simp_all add: unat_gt_0 word_le_nat_alt)
  note m = pow_minus_1_mask [of ?n]
  consider (empty) "?u = 0" | (full) "?u \<noteq> 0" "?c = BITMAP_NOT_FOUND"
    | (inside) "?u \<noteq> 0" "?c \<noteq> BITMAP_NOT_FOUND" "?n \<le> 64 - popcountl ?u"
    | (spill) "?u \<noteq> 0" "?c \<noteq> BITMAP_NOT_FOUND" "\<not> ?n \<le> 64 - popcountl ?u"
    by blast
  then show ?thesis
  proof cases
    case empty
    then have c0: "?c = 0" using usable_bits_sub [of bmp i] by (simp add: u64_eq_0_iff) blast
    have "claims ?bs (?bs[i := ?c OR mask ?n]) (64 * i + 0) ?n"
      using il n c0 by (intro claims_chunk) (auto simp: bits_simps)
    moreover have "(if bits = 64 then BITMAP_NOT_FOUND else mask ?n) = ?c OR mask ?n"
      using c0 by (simp add: BITMAP_NOT_FOUND_def)
    ultimately have "find_spec bmp bits (of_nat i * 8 * 8 + of_nat 0,
        bmp\<lparr>bm_bits := ?bs[i := (if bits = 64 then BITMAP_NOT_FOUND else mask ?n)], used_bits := used_bits bmp + bits\<rparr>)"
      using sh b by (intro find_specI) simp_all
    with empty show ?thesis by (simp add: find_start_small_def m split: if_splits)
  next
    case full
    then show ?thesis by (simp add: find_start_small_def)
  next
    case inside
    have le: "bits \<le> of_nat (64 - popcountl ?u)" using inside by (subst le_of_nat_u64) simp_all
    have lim: "unat (64 - bits) = 64 - ?n" using b by (subst unat_sub) simp_all
    show ?thesis
    proof (cases "find_gap ?u (64 - ?n) (mask ?n) 0")
      case None
      with inside le lim show ?thesis by (simp add: find_start_small_def m Let_def)
    next
      case (Some p)
      then obtain s m' where p: "find_gap ?u (64 - ?n) (mask ?n) 0 = Some (s, m')" by (cases p) auto
      from find_gap_Some [OF p] have s: "s + ?n \<le> 64" "m' = push_bit s (mask ?n)" "m' AND ?u = 0"
        using n by auto
      have "claims ?bs (?bs[i := ?c OR m']) (64 * i + s) ?n"
        using il s usable_bits_sub [of bmp i]
        by (intro claims_chunk) (auto simp: bits_simps and_eq_0_iff_u64)
      then have "find_spec bmp bits (of_nat i * 8 * 8 + of_nat s,
          bmp\<lparr>bm_bits := ?bs[i := ?c OR m'], used_bits := used_bits bmp + bits\<rparr>)"
        using sh b s n by (intro find_specI) simp_all
      with p inside le lim show ?thesis by (simp add: find_start_small_def m Let_def)
    qed
  next
    case spill
    have le: "\<not> bits \<le> of_nat (64 - popcountl ?u)" using spill by (subst le_of_nat_u64) simp_all
    show ?thesis
    proof (cases "clzl ?c = 0 \<or> ?c = 0 \<and> Suc i = bm_end bmp \<or> Suc i = bm_end bmp")
      case True
      with spill le show ?thesis
        by (cases "?c = 0") (auto simp: find_start_small_def Let_def usable_bits_not_last)
    next
      case False
      then have u: "?u = ?c" and si: "Suc i < length ?bs"
        using il sh by (auto simp: usable_bits_not_last bm_shape_def)
      let ?fe = "clzl ?c"
      have fe: "?fe < ?n" "0 < ?fe"
        using spill(3) [unfolded u] popcountl_clzl [of ?c] clzl_le [of ?c] False by linarith+
      have r: "unat (bits - of_nat ?fe) = ?n - ?fe" "bits - of_nat ?fe \<le> 64"
        using fe n by (simp_all add: unat_sub_of_nat word_le_nat_alt)
      show ?thesis
      proof (cases "find_end_small (bits - of_nat ?fe) (?bs ! Suc i)")
        case None
        with spill le u False show ?thesis by (simp add: find_start_small_def Let_def)
      next
        case (Some nx)
        have "claims ?bs (?bs[Suc i := nx, i := ?c OR push_bit (64 - ?fe) (-1)])
            (64 * i + (64 - ?fe)) (?fe + unat (bits - of_nat ?fe))"
          using si fe n Some r clzl_top_clear [of ?c] by (intro claims_spill) simp_all
        then have "find_spec bmp bits (of_nat i * 8 * 8 + of_nat (64 - ?fe),
            bmp\<lparr>bm_bits := ?bs[Suc i := nx, i := ?c OR push_bit (64 - ?fe) (-1)],
                used_bits := used_bits bmp + bits\<rparr>)"
          using sh b fe r by (intro find_specI) simp_all
        with Some spill le u False show ?thesis by (simp add: find_start_small_def Let_def)
      qed
    qed
  qed
qed

lemma claims_prepend:
  assumes "claims bs bs1 (s + n) m" and "claims bs1 bs2 s n"
  shows "claims bs bs2 s (n + m)"
proof -
  have "{s..<s + (n + m)} = {s..<s + n} \<union> {s + n..<s + n + m}" by auto
  with assms show ?thesis unfolding claims_def by auto
qed

lemma claims_none: "s \<le> 64 * length bs \<Longrightarrow> claims bs bs s 0"
  by (simp add: claims_def)

text \<open>A run of whole chunks, a part of the chunk after it and the free end of the one before.\<close>

lemma claims_big:
  fixes bs :: "u64 list" and lr :: nat
  assumes i: "i < length bs" and fe: "fe \<le> 64" "\<And>k. 64 - fe \<le> k \<Longrightarrow> \<not> bit (bs ! i) k"
    and zero: "\<forall>c\<in>set (take span (drop (Suc i) bs)). c = 0"
    and fits: "i + span + of_bool (lr \<noteq> 0) < length bs"
    and lr: "lr < 64" "lr \<noteq> 0 \<longrightarrow> bs ! (Suc i + span) AND mask lr = 0"
  defines "bs1 \<equiv> (if lr \<noteq> 0 then bs[Suc i + span := bs ! (Suc i + span) OR mask lr] else bs)"
  defines "bs2 \<equiv> fill_chunks bs1 (Suc i) span (-1)"
  shows "claims bs (bs2[i := bs ! i OR push_bit (64 - fe) (-1)]) (64 * i + (64 - fe)) (fe + (64 * span + lr))"
proof -
  let ?l = "Suc i + span"
  have len1: "length bs1 = length bs" by (simp add: bs1_def)
  have zq: "bs1 ! q = 0" if "Suc i \<le> q" "q < Suc i + span" for q
  proof -
    have "bs ! q = take span (drop (Suc i) bs) ! (q - Suc i)" using that fits by simp
    also have "\<dots> \<in> set (take span (drop (Suc i) bs))" using that fits by (intro nth_mem) simp
    finally show ?thesis using zero that by (simp add: bs1_def)
  qed
  have c1: "claims bs bs1 (64 * ?l) lr"
  proof (cases "lr = 0")
    case True
    then show ?thesis using fits by (simp add: bs1_def claims_none)
  next
    case False
    then have "claims bs (bs[?l := bs ! ?l OR mask lr]) (64 * ?l + 0) lr"
      using fits lr by (intro claims_chunk) (auto simp: bits_simps and_eq_0_iff_u64)
    with False show ?thesis by (simp add: bs1_def)
  qed
  have c2: "claims bs1 bs2 (64 * Suc i) (64 * span)"
    unfolding bs2_def using fits zq by (intro claims_fill) (simp_all add: len1)
  have "64 * ?l = 64 * Suc i + 64 * span" by simp
  with c1 c2 have c12: "claims bs bs2 (64 * Suc i) (64 * span + lr)"
    by (metis claims_prepend)
  have keep: "bs2 ! i = bs ! i"
    using fits len1 by (simp add: bs2_def fill_chunks_nth) (simp add: bs1_def)
  have "claims bs2 (bs2[i := bs2 ! i OR push_bit (64 - fe) (-1)]) (64 * i + (64 - fe)) fe"
    using i fe keep fits len1 by (intro claims_chunk) (auto simp: bits_simps bs2_def fill_chunks_length)
  moreover have "64 * Suc i = 64 * i + (64 - fe) + fe" using fe by simp
  ultimately show ?thesis using c12 keep by (metis claims_prepend)
qed

lemma find_start_big_spec:
  assumes sh: "bm_shape bmp" and i: "i < bm_end bmp" and b: "65 \<le> bits"
  shows "find_spec bmp bits (find_start_big bmp bits i)"
proof -
  let ?bs = "bm_bits bmp" let ?c = "?bs ! i" let ?fe = "clzl ?c" let ?n = "unat bits"
  let ?r = "bits - of_nat ?fe" let ?lr = "?r AND 63"
  have il: "i < length ?bs" and e: "bm_end bmp = length ?bs" using i sh by (simp_all add: bm_shape_def)
  have n: "65 \<le> ?n" using b by (simp add: word_le_nat_alt)
  have fe: "?fe \<le> 64" by (rule clzl_le)
  have r: "unat ?r = ?n - ?fe" using n fe by (simp add: unat_sub_of_nat)
  have mask: "(if ?c = 0 then BITMAP_NOT_FOUND else if ?fe \<noteq> 0 then push_bit (64 - ?fe) (-1) else 0)
      = (if ?fe = 0 then 0 else push_bit (64 - ?fe) (-1))"
    and rem: "(if ?c = 0 then bits - 64 else bits - of_nat ?fe) = ?r"
    and off: "(if ?c = 0 then 0 else 64 - ?fe) = 64 - ?fe"
    by (auto simp: BITMAP_NOT_FOUND_def)
  have nz: "push_bit (64 - ?fe) (-1) \<noteq> (0 :: u64)" if "?fe \<noteq> 0"
    using that by (auto simp: u64_eq_0_iff bits_simps intro!: exI [of _ 63])
  note defs = find_start_big_def Let_def mask rem off
  show ?thesis
  proof (cases "?c = BITMAP_NOT_FOUND \<or> ?fe = 0 \<or> Suc i = bm_end bmp")
    case True
    then consider "?c = BITMAP_NOT_FOUND" | "?c \<noteq> BITMAP_NOT_FOUND" "?fe = 0"
      | "?c \<noteq> BITMAP_NOT_FOUND" "?fe \<noteq> 0" "Suc i = bm_end bmp" by argo
    then show ?thesis
      unfolding defs by cases (simp_all only: simp_thms if_True if_False if_cancel refl find_spec_fail)
  next
    case False
    then have si: "Suc i < length ?bs" using il e by simp
    show ?thesis
    proof (cases "?r < 65")
      case True
      then have r64: "?r \<le> 64" "unat ?r \<le> 64" by (simp_all add: word_le_nat_alt word_less_nat_alt)
      show ?thesis
      proof (cases "find_end_small ?r (?bs ! Suc i)")
        case None
        with False True nz show ?thesis by (simp add: defs)
      next
        case (Some nx)
        have "claims ?bs (?bs[Suc i := nx, i := ?c OR push_bit (64 - ?fe) (-1)])
            (64 * i + (64 - ?fe)) (?fe + unat ?r)"
          using si fe False Some r64 clzl_top_clear [of ?c] by (intro claims_spill) simp_all
        then have "find_spec bmp bits (of_nat i * 8 * 8 + of_nat (64 - ?fe),
            bmp\<lparr>bm_bits := ?bs[Suc i := nx, i := ?c OR push_bit (64 - ?fe) (-1)], used_bits := used_bits bmp + bits\<rparr>)"
          using sh b n r fe False by (intro find_specI) (simp_all add: word_gt_0_no [symmetric] word_less_nat_alt)
        with False True Some nz show ?thesis by (simp add: defs)
      qed
    next
      case big: False
      let ?span = "unat (?r div 64)" let ?m = "push_bit (unat ?lr) (of_bool (?lr \<noteq> 0)) - 1 :: u64"
      let ?bs1 = "if ?lr \<noteq> 0 then ?bs[Suc i + ?span := ?bs ! (Suc i + ?span) OR ?m] else ?bs"
      let ?bs3 = "(fill_chunks ?bs1 (Suc i) ?span (-1))[i := ?c OR push_bit (64 - ?fe) (-1)]"
      have lr: "unat ?lr = unat ?r mod 64" "?lr \<noteq> 0 \<longleftrightarrow> unat ?lr \<noteq> 0"
        by (rule unat_and_63) (simp add: unat_eq_zero)
      have m: "?m = mask (unat ?lr)" if "?lr \<noteq> 0" using that by (simp add: bits_simps)
      show ?thesis
      proof (cases "bm_end bmp \<le> i + ?span + of_bool (?lr \<noteq> 0) \<or>
          (\<exists>c\<in>set (take ?span (drop (Suc i) ?bs)). c \<noteq> 0) \<or>
          ?lr \<noteq> 0 \<and> ?bs ! (Suc i + ?span) AND ?m \<noteq> 0")
        case True
        with False big nz show ?thesis by (auto simp: defs)
      next
        case ok: False
        have "claims ?bs ?bs3 (64 * i + (64 - ?fe)) (?fe + (64 * ?span + unat ?lr))"
          using ok il fe clzl_top_clear [of ?c] lr m e
          by (cases "?lr = 0") (use claims_big [of i ?bs ?fe ?span "unat ?lr"] in \<open>simp_all add: not_le\<close>)
        moreover have "?fe + (64 * ?span + unat ?lr) = ?n" using lr r n fe by simp
        ultimately have "find_spec bmp bits (of_nat i * 8 * 8 + of_nat (64 - ?fe),
            bmp\<lparr>bm_bits := ?bs3, used_bits := used_bits bmp + bits\<rparr>)"
          using sh n False by (intro find_specI) (simp_all add: word_less_nat_alt)
        with False big ok nz show ?thesis by (cases "?lr = 0") (simp_all add: defs)
      qed
    qed
  qed
qed

lemma find_start_spec:
  assumes "bm_shape bmp" and "i < bm_end bmp" and "0 < bits"
  shows "find_spec bmp bits (find_start bmp bits i)"
proof (cases "bits < 65")
  case True
  then have "bits \<le> 64" by (simp add: word_le_nat_alt word_less_nat_alt)
  with assms True show ?thesis by (simp add: find_start_def find_start_small_spec)
next
  case False
  with assms show ?thesis by (simp add: find_start_def find_start_big_spec)
qed

lemma scan_chunks_spec:
  assumes "bm_shape bmp" and "0 < bits" and "set is \<subseteq> {..<bm_end bmp}"
  shows "find_spec bmp bits (scan_chunks bmp bits is)"
  using assms(3)
proof (induction "is")
  case (Cons i "is")
  obtain found bmp' where f: "find_start bmp bits i = (found, bmp')" by fastforce
  have "find_spec bmp bits (found, bmp')"
    using find_start_spec [of bmp i bits] assms Cons.prems f by simp
  with Cons f show ?case
    by (cases "found = BITMAP_NOT_FOUND") (simp_all add: find_spec_def)
qed simp

section \<open>Allocation\<close>

text \<open>
  The contract of an allocation: the lock is free again, the geometry is unchanged, and either
  nothing was found and no bit changed, or \<open>found\<close> is the first of \<open>bits\<close> bits that were free.
\<close>

definition alloc_spec :: "utils_bitmap \<Rightarrow> u64 \<Rightarrow> u64 \<Rightarrow> utils_bitmap \<Rightarrow> bool" where
  "alloc_spec bmp bits found bmp' \<longleftrightarrow>
     bm_lock bmp' = bm_lock bmp \<and> size_bits bmp' = size_bits bmp \<and> bm_shape bmp' \<and>
     (if found = BITMAP_NOT_FOUND then bm_bits bmp' = bm_bits bmp \<and> used_bits bmp' = used_bits bmp
      else claims (bm_bits bmp) (bm_bits bmp') (unat found) (unat bits) \<and>
           used_bits bmp' = used_bits bmp + bits \<and> free_p bmp' = unat found div 64)"

lemma alloc_spec_fail:
  "bm_shape bmp \<Longrightarrow> f \<le> bm_end bmp \<Longrightarrow> alloc_spec bmp bits BITMAP_NOT_FOUND (bmp\<lparr>free_p := f\<rparr>)"
  by (simp add: alloc_spec_def bm_shape_def)

lemma alloc_spec_found:
  assumes "bm_shape bmp" and "0 < bits" and "found \<noteq> BITMAP_NOT_FOUND"
    and "find_spec (bmp\<lparr>free_p := f\<rparr>) bits (found, bmp')"
  shows "alloc_spec bmp bits found (bmp'\<lparr>free_p := unat (found div 64)\<rparr>)"
proof -
  from assms(3,4) obtain bs where c: "claims (bm_bits bmp) bs (unat found) (unat bits)"
    and b': "bmp' = bmp\<lparr>free_p := f, bm_bits := bs, used_bits := used_bits bmp + bits\<rparr>"
    by (auto simp: find_spec_def)
  from c have "unat found + unat bits \<le> 64 * length (bm_bits bmp)" by (simp add: claims_def)
  moreover have "0 < unat bits" using assms(2) by (simp add: unat_gt_0)
  ultimately have "unat found div 64 \<le> length (bm_bits bmp)" by linarith
  with c b' assms show ?thesis
    by (auto simp: alloc_spec_def bm_shape_def claims_def)
qed

lemma alloc_search_spec:
  assumes sh: "bm_shape bmp" and b: "0 < bits"
  shows "case alloc_search bmp bits of (found, bmp') \<Rightarrow> alloc_spec bmp bits found bmp'"
proof -
  define f where "f = (if free_p bmp = bm_end bmp then 0 else free_p bmp)"
  let ?b = "bmp\<lparr>free_p := f\<rparr>"
  have eb: "(if free_p bmp = bm_end bmp then bmp\<lparr>free_p := 0\<rparr> else bmp) = ?b" by (simp add: f_def)
  have f: "f \<le> bm_end bmp" and shb: "bm_shape ?b" using sh by (auto simp: f_def bm_shape_def)
  obtain f1 b1 where s1: "scan_chunks ?b bits [f..<bm_end bmp] = (f1, b1)" by fastforce
  have i1: "find_spec ?b bits (f1, b1)"
    using s1 by (subst s1 [symmetric], intro scan_chunks_spec shb b) auto
  obtain f2 b2 where s2: "scan_chunks ?b bits [0..<f] = (f2, b2)" by fastforce
  have i2: "find_spec ?b bits (f2, b2)"
    using s2 f by (subst s2 [symmetric], intro scan_chunks_spec shb b) auto
  show ?thesis
  proof (cases "utils_bitmap_free ?b < bits")
    case True
    then show ?thesis using alloc_spec_fail [OF sh f] by (simp add: alloc_search_def eb Let_def)
  next
    case False
    show ?thesis
    proof (cases "f1 = BITMAP_NOT_FOUND")
      case nf: True
      then have b1: "b1 = ?b" using i1 by (simp add: find_spec_def)
      show ?thesis
      proof (cases "f2 = BITMAP_NOT_FOUND")
        case True
        then have "b2 = ?b" using i2 by (simp add: find_spec_def)
        with True False nf b1 s1 s2 show ?thesis
          using alloc_spec_fail [OF sh f] by (simp add: alloc_search_def eb Let_def)
      next
        case found: False
        with False nf b1 s1 s2 show ?thesis
          using alloc_spec_found [OF sh b found i2] by (simp add: alloc_search_def eb Let_def)
      qed
    next
      case found: False
      with False s1 show ?thesis
        using alloc_spec_found [OF sh b found i1] by (simp add: alloc_search_def eb Let_def)
    qed
  qed
qed

lemma alloc_bits_total:
  assumes sh: "bm_shape bmp" and l: "bm_lock bmp = 0" and b: "0 < bits"
  shows "\<exists>found bmp'. utils_bitmap_alloc_bits bmp bits = Ok (found, bmp') \<and> alloc_spec bmp bits found bmp'"
proof -
  obtain found b1 where s: "alloc_search (bmp\<lparr>bm_lock := 1\<rparr>) bits = (found, b1)" by fastforce
  have "bm_shape (bmp\<lparr>bm_lock := 1\<rparr>)" using sh by (simp add: bm_shape_def)
  from alloc_search_spec [OF this b] s have sp: "alloc_spec (bmp\<lparr>bm_lock := 1\<rparr>) bits found b1" by simp
  then have "bm_lock b1 = 1" by (simp add: alloc_spec_def)
  with l s have "utils_bitmap_alloc_bits bmp bits = Ok (found, b1\<lparr>bm_lock := 0\<rparr>)"
    by (simp add: utils_bitmap_alloc_bits_def)
  moreover have "alloc_spec bmp bits found (b1\<lparr>bm_lock := 0\<rparr>)"
    using sp l by (auto simp: alloc_spec_def bm_shape_def)
  ultimately show ?thesis by blast
qed

section \<open>Releasing\<close>

definition releases :: "u64 list \<Rightarrow> u64 list \<Rightarrow> nat \<Rightarrow> nat \<Rightarrow> bool" where
  "releases bs bs' s n \<longleftrightarrow> length bs' = length bs \<and> alloc_set bs' = alloc_set bs - {s..<s + n}"

lemma releases_chunk:
  assumes i: "i < length bs" and sn: "s + n \<le> 64" and m: "\<And>k. bit m k \<longleftrightarrow> s \<le> k \<and> k < s + n"
  shows "releases bs (bs[i := bs ! i AND NOT m]) (64 * i + s) n"
proof -
  have sub: "j \<in> {64 * i + s..<64 * i + s + n} \<longleftrightarrow> j div 64 = i \<and> bit m (j mod 64)" for j
    using chunk_interval [OF sn] m by blast
  have "alloc_set (bs[i := bs ! i AND NOT m]) = alloc_set bs - {64 * i + s..<64 * i + s + n}"
  proof (rule set_eqI)
    fix j
    have "bit (NOT m) (j mod 64) \<longleftrightarrow> \<not> bit m (j mod 64)" by (simp add: bit_not_iff)
    then show "j \<in> alloc_set (bs[i := bs ! i AND NOT m]) \<longleftrightarrow> j \<in> alloc_set bs - {64 * i + s..<64 * i + s + n}"
      using i unfolding Diff_iff sub
      by (cases "j div 64 = i") (simp_all add: alloc_set_update alloc_set_iff bit_and_iff)
  qed
  then show ?thesis by (simp add: releases_def)
qed

lemma releases_fill:
  assumes len: "a + n \<le> length bs"
  shows "releases bs (fill_chunks bs a n 0) (64 * a) (64 * n)"
proof -
  note int = chunks_interval [of _ a n]
  have "alloc_set (fill_chunks bs a n 0) = alloc_set bs - {64 * a..<64 * a + 64 * n}"
  proof (rule set_eqI)
    fix j
    show "j \<in> alloc_set (fill_chunks bs a n 0) \<longleftrightarrow> j \<in> alloc_set bs - {64 * a..<64 * a + 64 * n}"
      using len unfolding Diff_iff int
      by (cases "a \<le> j div 64 \<and> j div 64 < a + n") (auto simp: alloc_set_iff fill_chunks_length fill_chunks_nth)
  qed
  with len show ?thesis by (simp add: releases_def fill_chunks_length)
qed

text \<open>Bits that are allocated pass the assertions of the code.\<close>

lemma allocated_chunk:
  assumes sub: "{64 * i + s..<64 * i + s + n} \<subseteq> alloc_set bs" and sn: "s + n \<le> 64"
    and m: "\<And>k. bit m k \<longleftrightarrow> s \<le> k \<and> k < s + n"
  shows "bs ! i AND m = m"
  unfolding and_eq_self_iff_u64
proof (intro allI impI)
  fix k assume k: "bit m k"
  with m sn have "64 * i + k \<in> {64 * i + s..<64 * i + s + n}" and "k < 64" by auto
  with sub have "64 * i + k \<in> alloc_set bs" by blast
  with \<open>k < 64\<close> show "bit (bs ! i) k" by (simp add: alloc_set_iff)
qed

lemma bit_low_mask [bits_simps]: "bit (drop_bit n (-1) :: u64) k \<longleftrightarrow> k + n < 64"
  by (auto simp: bit_simps)

lemma bit_single [bits_simps]: "bit ((2 :: u64) ^ n) k \<longleftrightarrow> k = n \<and> k < 64"
  by (auto simp: bit_simps)

text \<open>The three pieces of a release that crosses chunks, in the order of the code.\<close>

lemma releases_cross:
  assumes lt: "sc < ec" and ec: "ec < length bs" and s: "s < 64" and el: "el \<le> 64"
    and m1: "\<And>k. bit m1 k \<longleftrightarrow> s \<le> k \<and> k < 64" and m2: "\<And>k. bit m2 k \<longleftrightarrow> k < el"
  defines "bs1 \<equiv> bs[sc := bs ! sc AND NOT m1]"
  defines "bs2 \<equiv> bs1[ec := bs1 ! ec AND NOT m2]"
  defines "span \<equiv> ec - sc - 1"
  shows "releases bs (if span \<noteq> 0 then fill_chunks bs2 (Suc sc) span 0 else bs2)
           (64 * sc + s) (64 * (ec - sc) + el - s)"
proof -
  have r1: "releases bs bs1 (64 * sc + s) (64 - s)"
    unfolding bs1_def using assms by (intro releases_chunk) auto
  have r2: "releases bs1 bs2 (64 * ec + 0) el"
    unfolding bs2_def using assms by (intro releases_chunk) (auto simp: bs1_def)
  have len: "length bs2 = length bs" by (simp add: bs1_def bs2_def)
  have r3: "releases bs2 (if span \<noteq> 0 then fill_chunks bs2 (Suc sc) span 0 else bs2) (64 * Suc sc) (64 * span)"
    using lt ec len releases_fill [of "Suc sc" span bs2]
    by (auto simp: span_def releases_def)
  have "{64 * sc + s..<64 * sc + s + (64 * (ec - sc) + el - s)} =
      {64 * sc + s..<64 * sc + s + (64 - s)} \<union> {64 * ec..<64 * ec + el} \<union> {64 * Suc sc..<64 * Suc sc + 64 * span}"
    using lt s el by (auto simp: span_def)
  with r1 r2 r3 show ?thesis unfolding releases_def by auto
qed


lemma div64: "64 * (x div 64) + x mod 64 = (x::nat)" "x mod 64 < (64::nat)"
  by simp_all

lemma span_length:
  "sc < ec \<Longrightarrow> 64 * ec + el = S + N \<Longrightarrow> 64 * sc + s = S \<Longrightarrow> 64 * (ec - sc) + el - s = (N::nat)"
  by (simp add: diff_mult_distrib2)

text \<open>The contract of a release: exactly the \<open>bits\<close> bits from \<open>start\<close> are free afterwards.\<close>

definition free_spec :: "utils_bitmap \<Rightarrow> u64 \<Rightarrow> u64 \<Rightarrow> utils_bitmap \<Rightarrow> bool" where
  "free_spec bmp start bits bmp' \<longleftrightarrow>
     releases (bm_bits bmp) (bm_bits bmp') (unat start) (unat bits) \<and>
     used_bits bmp' = used_bits bmp - bits \<and> bm_lock bmp' = bm_lock bmp \<and> free_p bmp' = free_p bmp \<and>
     bm_end bmp' = bm_end bmp \<and> size_bits bmp' = size_bits bmp"

lemma free_bits_one:
  assumes l: "bm_lock bmp = 0" and rng: "unat start < 64 * length (bm_bits bmp)"
  shows "\<exists>bmp'. utils_bitmap_free_bits bmp start 1 = Ok bmp' \<and> free_spec bmp start 1 bmp'"
proof -
  let ?bs = "bm_bits bmp" let ?c = "unat start div 64" let ?s = "unat start mod 64"
  have "releases ?bs (?bs[?c := ?bs ! ?c AND NOT (2 ^ ?s)]) (64 * ?c + ?s) 1"
    using rng by (intro releases_chunk) (auto simp: bits_simps)
  then have "releases ?bs (?bs[?c := ?bs ! ?c AND NOT (2 ^ ?s)]) (unat start) (unat (1 :: u64))" by simp
  then show ?thesis
    using l by (auto simp: free_spec_def utils_bitmap_free_bits_def Let_def unat_and_63)
qed

lemma free_bits_within:
  assumes l: "bm_lock bmp = 0" and b: "bits \<noteq> 1" "0 < bits"
    and rng: "unat start + unat bits \<le> 64 * length (bm_bits bmp)" "length (bm_bits bmp) < 2 ^ 58"
    and same: "unat start div 64 = (unat start + unat bits - 1) div 64"
    and al: "{unat start..<unat start + unat bits} \<subseteq> alloc_set (bm_bits bmp)"
  shows "\<exists>bmp'. utils_bitmap_free_bits bmp start bits = Ok bmp' \<and> free_spec bmp start bits bmp'"
proof -
  let ?bs = "bm_bits bmp" let ?S = "unat start" let ?N = "unat bits"
  let ?c = "?S div 64" let ?s = "?S mod 64"
  have N: "0 < ?N" using b by (simp add: unat_gt_0)
  have e: "unat (start + bits) = ?S + ?N" using rng by (subst unat_add_lem [THEN iffD1]) simp_all
  then have e1: "unat (start + bits - 1) = ?S + ?N - 1" using N by (subst unat_minus_one) auto
  have sn: "?s + ?N \<le> 64" using same N div64 [of ?S] div64 [of "?S + ?N - 1"] by linarith
  define m :: u64 where "m = (if bits \<noteq> 64 then push_bit ?s (mask ?N) else BITMAP_NOT_FOUND)"
  have m: "bit m k \<longleftrightarrow> ?s \<le> k \<and> k < ?s + ?N" for k
    using sn by (cases "bits = 64") (auto simp: m_def bits_simps BITMAP_NOT_FOUND_def dest: bit_u64_less)
  have S: "64 * ?c + ?s = ?S" by simp
  have as: "?bs ! ?c AND m = m"
    using al sn m by (intro allocated_chunk [where s = ?s and n = ?N]) (simp_all only: S)
  have "releases ?bs (?bs[?c := ?bs ! ?c AND NOT m]) (64 * ?c + ?s) ?N"
    using rng sn m N by (intro releases_chunk) auto
  then have "releases ?bs (?bs[?c := ?bs ! ?c AND NOT m]) ?S ?N" by simp
  then show ?thesis
    using l b same e1 as
    by (auto simp: free_spec_def utils_bitmap_free_bits_def Let_def unat_and_63 bits_simps m_def)
qed

lemma free_bits_across:
  assumes l: "bm_lock bmp = 0" and b: "bits \<noteq> 1" "0 < bits"
    and rng: "unat start + unat bits \<le> 64 * length (bm_bits bmp)" "length (bm_bits bmp) < 2 ^ 58"
    and diff: "unat start div 64 < (unat start + unat bits - 1) div 64"
    and al: "{unat start..<unat start + unat bits} \<subseteq> alloc_set (bm_bits bmp)"
  shows "\<exists>bmp'. utils_bitmap_free_bits bmp start bits = Ok bmp' \<and> free_spec bmp start bits bmp'"
proof -
  let ?bs = "bm_bits bmp" let ?S = "unat start" let ?N = "unat bits"
  let ?sc = "?S div 64" let ?s = "?S mod 64" let ?ec = "(?S + ?N - 1) div 64"
  let ?e' = "(start + bits) AND 63"
  have N: "0 < ?N" using b by (simp add: unat_gt_0)
  have e: "unat (start + bits) = ?S + ?N" using rng by (subst unat_add_lem [THEN iffD1]) simp_all
  then have e1: "unat (start + bits - 1) = ?S + ?N - 1" using N by (subst unat_minus_one) auto
  define el where "el = ?S + ?N - 64 * ?ec"
  have el: "0 < el" "el \<le> 64" unfolding el_def using N div64 [of "?S + ?N - 1"] by linarith+
  have ue: "unat ?e' = (?S + ?N) mod 64" by (simp add: unat_and_63 e)
  have ueq: "(?S + ?N) mod 64 = (if el = 64 then 0 else el)"
  proof -
    have SN: "?S + ?N = 64 * ?ec + el" using el unfolding el_def by linarith
    have "x = 64 * q + el \<Longrightarrow> x mod 64 = (if el = 64 then 0 else el)" for x q :: nat
      using el by simp
    with SN show ?thesis by blast
  qed
  define m2 :: u64 where "m2 = (if ?e' \<noteq> 0 then drop_bit (unat (64 - ?e')) (-1) else -1)"
  have m2: "bit m2 k \<longleftrightarrow> k < el" for k
  proof (cases "el = 64")
    case True
    then have "?e' = 0" using ue ueq by (simp add: unat_eq_zero [symmetric])
    with True show ?thesis by (auto simp: m2_def dest: bit_u64_less)
  next
    case False
    then have u: "unat ?e' = el" using ue ueq by simp
    then have nz: "?e' \<noteq> 0" using el by (metis less_numeral_extra(3) unat_0)
    have "?e' \<le> 64" using u el by (simp add: word_le_nat_alt)
    then have "unat (64 - ?e') = 64 - el" using u by (simp add: unat_sub)
    with nz el show ?thesis by (auto simp: m2_def bits_simps)
  qed
  let ?m1 = "push_bit ?s (-1) :: u64"
  have S: "64 * ?sc + ?s = ?S" by simp
  have "64 - ?s \<le> ?N" using diff div64 [of ?S] div64 [of "?S + ?N - 1"] by linarith
  then have "{?S..<?S + (64 - ?s)} \<subseteq> {?S..<?S + ?N}" by (intro ivl_subset [THEN iffD2] disjI2 conjI add_left_mono order_refl)
  then have "{?S..<?S + (64 - ?s)} \<subseteq> alloc_set ?bs" using al by (rule subset_trans)
  then have a1: "?bs ! ?sc AND ?m1 = ?m1"
    using div64(2) [of ?S] by (intro allocated_chunk [where s = ?s and n = "64 - ?s"]) (simp_all only: S, auto simp: bits_simps)
  have "64 * ?ec + el = ?S + ?N" and "?S \<le> 64 * ?ec"
    using el diff div64 [of ?S] unfolding el_def by linarith+
  then have "{64 * ?ec..<64 * ?ec + el} \<subseteq> alloc_set ?bs" by (intro subset_trans [OF _ al]) simp
  then have a2: "?bs ! ?ec AND m2 = m2"
    using el m2 by (intro allocated_chunk [where s = 0 and n = el]) simp_all
  have len: "64 * (?ec - ?sc) + el - ?s = ?N"
    by (rule span_length [OF diff \<open>64 * ?ec + el = ?S + ?N\<close> S])
  define bs3 where "bs3 = (let bs1 = ?bs[?sc := ?bs ! ?sc AND NOT ?m1]; bs2 = bs1[?ec := bs1 ! ?ec AND NOT m2]
      in if ?ec - ?sc - 1 \<noteq> 0 then fill_chunks bs2 (Suc ?sc) (?ec - ?sc - 1) 0 else bs2)"
  have ec: "?ec < length ?bs" using rng N by linarith
  have "releases ?bs bs3 (64 * ?sc + ?s) (64 * (?ec - ?sc) + el - ?s)"
    unfolding bs3_def Let_def
    by (rule releases_cross [OF diff ec div64(2) el(2)]) (simp_all only: bit_high_mask m2)
  then have rel: "releases ?bs bs3 ?S ?N" unfolding S len .
  have ne: "?sc \<noteq> ?ec" using diff by simp
  have "utils_bitmap_free_bits bmp start bits =
      Ok (bmp\<lparr>bm_lock := 1, bm_bits := bs3, used_bits := used_bits bmp - bits, bm_lock := 0\<rparr>)"
    using b(1) ne a1 a2
    by (simp only: utils_bitmap_free_bits_def Let_def unat_and_63 l e1 unat_div_64 m2_def [symmetric] bs3_def
        utils_spinlock_simps rbind.simps if_False arax_assert_simps simp_thms) simp
  with rel l show ?thesis by (simp add: free_spec_def)
qed

lemma free_bits_total:
  assumes sh: "bm_shape bmp" and l: "bm_lock bmp = 0" and b: "0 < bits"
    and al: "{unat start..<unat start + unat bits} \<subseteq> alloc_set (bm_bits bmp)"
  shows "\<exists>bmp'. utils_bitmap_free_bits bmp start bits = Ok bmp' \<and> free_spec bmp start bits bmp'"
proof -
  have N: "0 < unat bits" using b by (simp add: unat_gt_0)
  then have "unat start + unat bits - 1 \<in> {unat start..<unat start + unat bits}" by simp
  with al have "unat start + unat bits - 1 \<in> {..<64 * length (bm_bits bmp)}"
    using alloc_set_bound [of "bm_bits bmp"] by blast
  then have rng: "unat start + unat bits \<le> 64 * length (bm_bits bmp)" using N by simp
  consider "bits = 1" | "bits \<noteq> 1" "unat start div 64 = (unat start + unat bits - 1) div 64"
    | "bits \<noteq> 1" "unat start div 64 < (unat start + unat bits - 1) div 64"
    using N div_le_mono [of "unat start" "unat start + unat bits - 1" 64] by linarith
  then show ?thesis
  proof cases
    case 1
    with rng l show ?thesis using free_bits_one [of bmp start] by simp
  next
    case 2
    then show ?thesis using free_bits_within [OF l _ b rng bm_shape_len [OF sh] _ al] by blast
  next
    case 3
    then show ?thesis using free_bits_across [OF l _ b rng bm_shape_len [OF sh] _ al] by blast
  qed
qed

section \<open>The counter\<close>

lemma alloc_set_snoc: "alloc_set (bs @ [c]) = alloc_set bs \<union> (\<lambda>k. 64 * length bs + k) ` {k. bit c k}"
proof (rule set_eqI)
  fix j
  have img: "j \<in> (\<lambda>k. 64 * length bs + k) ` {k. bit c k} \<Longrightarrow> j div 64 = length bs"
    using bit_u64_less [of c] by fastforce
  consider "j div 64 < length bs" | "j div 64 = length bs" | "length bs < j div 64" by linarith
  then show "j \<in> alloc_set (bs @ [c]) \<longleftrightarrow> j \<in> alloc_set bs \<union> (\<lambda>k. 64 * length bs + k) ` {k. bit c k}"
  proof cases
    case 2
    then have j: "64 * length bs + j mod 64 = j" using div64 [of j] by simp
    have "64 * length bs + j mod 64 \<in> (\<lambda>k. 64 * length bs + k) ` {k. bit c k} \<longleftrightarrow> bit c (j mod 64)"
      by auto
    with 2 show ?thesis unfolding j by (simp add: alloc_set_iff)
  qed (use img in \<open>auto simp: alloc_set_iff nth_append\<close>)
qed

lemma card_alloc_set: "card (alloc_set bs) = sum_list (map popcountl bs)"
proof (induction bs rule: rev_induct)
  case Nil
  show ?case by (simp add: alloc_set_def)
next
  case (snoc c bs)
  have "alloc_set bs \<inter> (\<lambda>k. 64 * length bs + k) ` {k. bit c k} = {}"
    using alloc_set_bound [of bs] by auto
  then have "card (alloc_set (bs @ [c])) = card (alloc_set bs) + card ((\<lambda>k. 64 * length bs + k) ` {k. bit c k})"
    by (simp add: alloc_set_snoc card_Un_disjoint)
  with snoc show ?case by (simp add: card_image popcountl_card)
qed

lemma count_allocated_card:
  assumes "bm_shape bmp"
  shows "utils_bitmap_count_allocated bmp = of_nat (card (alloc_set (bm_bits bmp)))"
proof -
  let ?bs = "bm_bits bmp"
  let ?f = "\<lambda>b allocated. if ?bs ! b \<noteq> 0 then allocated + of_nat (popcountl (?bs ! b)) else (allocated :: u64)"
  have len: "unat ((size_bits bmp + 63) div 64) = length ?bs"
    using assms unat_add_lem [of "size_bits bmp" 63] by (simp add: bm_shape_def)
  have f: "?f b a = a + of_nat (popcountl (?bs ! b))" for b a by simp
  have "fold ?f xs a = a + of_nat (sum_list (map (\<lambda>b. popcountl (?bs ! b)) xs))" for xs a
    unfolding f by (induction xs arbitrary: a) (simp_all add: algebra_simps)
  moreover have "map (\<lambda>b. popcountl (?bs ! b)) [0..<length ?bs] = map popcountl ?bs"
    by (rule nth_equalityI) simp_all
  ultimately show ?thesis
    unfolding utils_bitmap_count_allocated_def len by (simp add: card_alloc_set)
qed

text \<open>The invariant of a bitmap at rest: shape, free lock, and a counter that counts.\<close>

definition bm_inv :: "utils_bitmap \<Rightarrow> bool" where
  "bm_inv bmp \<longleftrightarrow> bm_shape bmp \<and> bm_lock bmp = 0 \<and> used_bits bmp = of_nat (card (alloc_set (bm_bits bmp)))"

lemma bm_inv_init:
  assumes "unat sz + 63 < 2 ^ 64"
  shows "bm_inv (utils_bitmap_init sz)" and "alloc_set (bm_bits (utils_bitmap_init sz)) = {}"
    and "size_bits (utils_bitmap_init sz) = sz"
proof -
  have "unat (sz + 63) = unat sz + 63" using assms by (subst unat_add_lem [THEN iffD1]) simp_all
  then show "bm_inv (utils_bitmap_init sz)"
    using assms by (simp add: bm_inv_def bm_shape_def utils_bitmap_init_def Let_def utils_spinlock_init_def)
qed (simp_all add: utils_bitmap_init_def Let_def)

lemma bm_inv_alloc:
  assumes inv: "bm_inv bmp" and sp: "alloc_spec bmp bits found bmp'"
  shows "bm_inv bmp'"
proof (cases "found = BITMAP_NOT_FOUND")
  case True
  with assms show ?thesis by (simp add: bm_inv_def alloc_spec_def)
next
  case False
  with sp have "claims (bm_bits bmp) (bm_bits bmp') (unat found) (unat bits)" by (simp add: alloc_spec_def)
  then have "card (alloc_set (bm_bits bmp')) = card (alloc_set (bm_bits bmp)) + unat bits"
    by (simp add: claims_def card_Un_disjoint)
  with False assms show ?thesis by (simp add: bm_inv_def alloc_spec_def)
qed

lemma bm_inv_free:
  assumes inv: "bm_inv bmp" and sp: "free_spec bmp start bits bmp'"
    and al: "{unat start..<unat start + unat bits} \<subseteq> alloc_set (bm_bits bmp)"
  shows "bm_inv bmp'"
proof -
  from sp have "releases (bm_bits bmp) (bm_bits bmp') (unat start) (unat bits)" by (simp add: free_spec_def)
  then have eq: "alloc_set (bm_bits bmp') = alloc_set (bm_bits bmp) - {unat start..<unat start + unat bits}"
    and len: "length (bm_bits bmp') = length (bm_bits bmp)" by (simp_all add: releases_def)
  from al have le: "unat bits \<le> card (alloc_set (bm_bits bmp))"
    using card_mono [OF alloc_set_finite al] by simp
  have "card (alloc_set (bm_bits bmp')) = card (alloc_set (bm_bits bmp)) - unat bits"
    unfolding eq using al by (subst card_Diff_subset) simp_all
  with le have "of_nat (card (alloc_set (bm_bits bmp'))) = of_nat (card (alloc_set (bm_bits bmp))) - bits"
    by (simp add: of_nat_diff)
  with inv sp len show ?thesis by (simp add: bm_inv_def bm_shape_def free_spec_def)
qed


section \<open>Requests for a single bit\<close>

lemma find_gap_None:
  "find_gap u lim m s = None \<Longrightarrow> s \<le> s' \<Longrightarrow> s' \<le> lim \<Longrightarrow> push_bit (s' - s) m AND u \<noteq> 0"
proof (induction u lim m s rule: find_gap.induct)
  case (1 u lim m s)
  then have mu: "m AND u \<noteq> 0" and rec: "find_gap u lim (push_bit 1 m) (Suc s) = None"
    by (auto simp: find_gap.simps [of u lim m s] split: if_splits)
  show ?case
  proof (cases "s' = s")
    case True
    with mu show ?thesis by simp
  next
    case False
    with "1.prems" have lt: "Suc s \<le> s'" by simp
    with "1.IH" mu rec "1.prems" have "push_bit (s' - Suc s) (push_bit 1 m) AND u \<noteq> 0" by simp
    moreover have "s' - s = (s' - Suc s) + 1" using lt by simp
    then have "push_bit (s' - s) m = push_bit (s' - Suc s) (push_bit 1 m)" by (simp only: push_bit_push_bit)
    ultimately show ?thesis by simp
  qed
qed

text \<open>A chunk with a usable clear bit serves a request for one bit.\<close>

lemma find_start_one:
  assumes sh: "bm_shape bmp" and i: "i < bm_end bmp" and k: "k < 64" "\<not> bit (usable_bits bmp i) k"
  shows "fst (find_start bmp 1 i) \<noteq> BITMAP_NOT_FOUND"
proof -
  let ?u = "usable_bits bmp i" let ?c = "bm_bits bmp ! i"
  have q: "i < 2 ^ 58" using i sh bm_shape_len [OF sh] by (simp add: bm_shape_def)
  have nf: "of_nat i * 8 * 8 + of_nat s \<noteq> BITMAP_NOT_FOUND" if "s < 64" for s
  proof -
    have "i < 2 ^ 58 - 1" using i sh by (simp add: bm_shape_def) linarith
    then have "64 * i + s < 2 ^ 64 - 1" using that by simp
    then show ?thesis using bit_number [OF q that] by (simp add: not_found_iff)
  qed
  have c: "?c \<noteq> BITMAP_NOT_FOUND" using k usable_bits_sub [of bmp i k] by (auto simp: BITMAP_NOT_FOUND_def)
  have pc: "popcountl ?u < 64"
    using k popcountl_le [of ?u] popcountl_eq_64 [of ?u] by (cases "popcountl ?u = 64") auto
  then have le: "1 \<le> (of_nat (64 - popcountl ?u) :: u64)" by (subst le_of_nat_u64) simp_all
  have "push_bit (k - 0) 1 AND ?u = 0" using k by (simp add: and_eq_0_iff_u64 bits_simps)
  then obtain s m where g: "find_gap ?u 63 1 0 = Some (s, m)"
    using find_gap_None [of ?u 63 1 0 k] k by (cases "find_gap ?u 63 1 0") auto
  from find_gap_Some [OF g] have s: "s < 64" by simp
  show ?thesis
    using nf [OF s] nf [of 0] g c le by (auto simp: find_start_def find_start_small_def Let_def)
qed

lemma scan_chunks_hit:
  assumes sh: "bm_shape bmp" and sub: "set is \<subseteq> {..<bm_end bmp}"
    and hit: "i \<in> set is" "fst (find_start bmp bits i) \<noteq> BITMAP_NOT_FOUND" and b: "0 < bits"
  shows "fst (scan_chunks bmp bits is) \<noteq> BITMAP_NOT_FOUND"
  using sub hit(1)
proof (induction "is")
  case (Cons j js)
  obtain f b where fb: "find_start bmp bits j = (f, b)" by fastforce
  have "find_spec bmp bits (f, b)"
    using find_start_spec [of bmp j bits] sh assms(5) Cons.prems fb by simp
  then have "f = BITMAP_NOT_FOUND \<Longrightarrow> b = bmp" by (simp add: find_spec_def)
  with Cons hit(2) fb show ?case by (cases "f = BITMAP_NOT_FOUND") auto
qed simp

lemma last_chunk_bits:
  assumes "j < n" and "Suc (j div 64) = (n + 63) div 64" and "n mod 64 \<noteq> 0"
  shows "j mod 64 < n mod (64::nat)"
proof -
  have "n + 63 = 64 * (n div 64 + 1) + (n mod 64 - 1)" using assms(3) div64 [of n] by simp
  moreover have "n mod 64 - 1 < 64" using div64(2) [of n] by linarith
  ultimately have "(n + 63) div 64 = n div 64 + 1" by (metis div_mult_self4 div_less add.commute add_0 zero_neq_numeral)
  with assms(2) have "j div 64 = n div 64" by simp
  with assms(1) show ?thesis using div64(1) [of j] div64(1) [of n] by linarith
qed

lemma usable_bits_clear:
  assumes sh: "bm_shape bmp" and j: "j < unat (size_bits bmp)" "j \<notin> alloc_set (bm_bits bmp)"
  shows "\<not> bit (usable_bits bmp (j div 64)) (j mod 64)" and "j div 64 < bm_end bmp"
proof -
  have len: "length (bm_bits bmp) = (unat (size_bits bmp) + 63) div 64" "bm_end bmp = length (bm_bits bmp)"
    using sh by (simp_all add: bm_shape_def)
  show lt: "j div 64 < bm_end bmp" using j(1) len by linarith
  then have nb: "\<not> bit (bm_bits bmp ! (j div 64)) (j mod 64)" using j(2) len by (simp add: alloc_set_iff)
  show "\<not> bit (usable_bits bmp (j div 64)) (j mod 64)"
  proof (cases "Suc (j div 64) = bm_end bmp")
    case True
    have "j mod 64 < unat (size_bits bmp) mod 64" if "unat (size_bits bmp) mod 64 \<noteq> 0"
      using True j(1) len that by (intro last_chunk_bits) simp_all
    with nb show ?thesis
      by (auto simp: usable_bits_def Let_def bit_or_iff bits_simps unat_mod unat_eq_zero [symmetric])
  next
    case False
    with nb show ?thesis by (simp add: usable_bits_not_last)
  qed
qed

lemma alloc_one_found:
  assumes inv: "bm_inv bmp" and tight: "alloc_set (bm_bits bmp) \<subseteq> {..<unat (size_bits bmp)}"
    and j: "j < unat (size_bits bmp)" "j \<notin> alloc_set (bm_bits bmp)"
  shows "\<exists>found bmp'. utils_bitmap_alloc_bits bmp 1 = Ok (found, bmp') \<and> found \<noteq> BITMAP_NOT_FOUND"
proof -
  have sh: "bm_shape bmp" and l: "bm_lock bmp = 0"
    and used: "used_bits bmp = of_nat (card (alloc_set (bm_bits bmp)))" using inv by (simp_all add: bm_inv_def)
  define f where "f = (if free_p bmp = bm_end bmp then 0 else free_p bmp)"
  let ?b = "bmp\<lparr>bm_lock := 1, free_p := f\<rparr>" let ?i = "j div 64"
  have f: "f \<le> bm_end bmp" and shb: "bm_shape ?b" using sh by (auto simp: f_def bm_shape_def)
  have eb: "(if free_p bmp = bm_end bmp then bmp\<lparr>bm_lock := 1, free_p := 0\<rparr> else bmp\<lparr>bm_lock := 1\<rparr>) = ?b"
    by (simp add: f_def)
  have "alloc_set (bm_bits bmp) \<subset> {..<unat (size_bits bmp)}" using tight j by blast
  then have "card (alloc_set (bm_bits bmp)) < unat (size_bits bmp)"
    using psubset_card_mono [of "{..<unat (size_bits bmp)}"] by simp
  then have room: "\<not> utils_bitmap_free ?b < 1"
    using lt_64_unat [of "size_bits bmp"] used
    by (auto simp: utils_bitmap_free_def word_less_nat_alt unat_sub_of_nat)
  have ub: "usable_bits ?b ?i = usable_bits bmp ?i" by (simp add: usable_bits_def Let_def)
  have hit: "fst (find_start ?b 1 ?i) \<noteq> BITMAP_NOT_FOUND"
    using usable_bits_clear [OF sh j] by (intro find_start_one [OF shb]) (simp_all add: ub)
  have i: "?i < bm_end bmp" by (rule usable_bits_clear [OF sh j])
  obtain f1 b1 where s1: "scan_chunks ?b 1 [f..<bm_end bmp] = (f1, b1)" by fastforce
  have sp1: "find_spec ?b 1 (f1, b1)"
    unfolding s1 [symmetric] by (intro scan_chunks_spec [OF shb]) auto
  have found: "fst (alloc_search (bmp\<lparr>bm_lock := 1\<rparr>) 1) \<noteq> BITMAP_NOT_FOUND"
  proof (cases "f1 = BITMAP_NOT_FOUND")
    case False
    with s1 room show ?thesis by (simp add: alloc_search_def eb Let_def)
  next
    case True
    then have b1: "b1 = ?b" using sp1 by (simp add: find_spec_def)
    have "set [f..<bm_end bmp] \<subseteq> {..<bm_end ?b}" by auto
    from scan_chunks_hit [OF shb this _ hit] have "\<not> f \<le> ?i" using i s1 True by auto
    then have h2: "fst (scan_chunks ?b 1 [0..<f]) \<noteq> BITMAP_NOT_FOUND"
      using f i by (intro scan_chunks_hit [OF shb _ _ hit]) auto
    with True s1 room b1 show ?thesis
      by (auto simp: alloc_search_def eb Let_def split: prod.split)
  qed
  obtain fd b2 where ab: "utils_bitmap_alloc_bits bmp 1 = Ok (fd, b2)"
    using alloc_bits_total [OF sh l, of 1] by auto
  then have "fd = fst (alloc_search (bmp\<lparr>bm_lock := 1\<rparr>) 1)"
    by (auto simp: utils_bitmap_alloc_bits_def l res_simps split: prod.splits)
  with ab found show ?thesis by simp
qed

section \<open>The interface of a run allocator\<close>

text \<open>
  What a client of the bitmap may rely on: runs of units handed out are free before and taken
  afterwards, a release gives exactly the run back, nothing else moves.
\<close>

locale run_allocator =
  fixes inv :: "'s \<Rightarrow> bool"
    and taken :: "'s \<Rightarrow> nat set"
    and alloc :: "'s \<Rightarrow> u64 \<Rightarrow> (u64 \<times> 's) res"
    and release :: "'s \<Rightarrow> u64 \<Rightarrow> u64 \<Rightarrow> 's res"
    and none :: u64
  assumes alloc_ok: "inv s \<Longrightarrow> 0 < n \<Longrightarrow> \<exists>f s'. alloc s n = Ok (f, s') \<and> inv s' \<and>
      (if f = none then taken s' = taken s
       else taken s \<inter> {unat f..<unat f + unat n} = {} \<and> taken s' = taken s \<union> {unat f..<unat f + unat n})"
    and release_ok: "inv s \<Longrightarrow> 0 < n \<Longrightarrow> {unat f..<unat f + unat n} \<subseteq> taken s \<Longrightarrow>
      \<exists>s'. release s f n = Ok s' \<and> inv s' \<and> taken s' = taken s - {unat f..<unat f + unat n}"
begin

lemma alloc_then_release:
  assumes "inv s" and "0 < n" and "alloc s n = Ok (f, s')" and "f \<noteq> none"
  shows "\<exists>s''. release s' f n = Ok s'' \<and> inv s'' \<and> taken s'' = taken s"
proof -
  from alloc_ok [OF assms(1,2)] assms(3,4) have i: "inv s'" and d: "taken s \<inter> {unat f..<unat f + unat n} = {}"
    and t: "taken s' = taken s \<union> {unat f..<unat f + unat n}" by (auto split: if_splits)
  from release_ok [OF i assms(2), of f] t obtain s'' where
    "release s' f n = Ok s''" "inv s''" "taken s'' = taken s' - {unat f..<unat f + unat n}" by blast
  with t d show ?thesis by blast
qed

end

text \<open>
  A client session: a list of requests, each for a new run or for the release of a run that is
  still live, by its position in the ledger of live runs (start, length).
\<close>

datatype run_req = Get u64 | Put nat

fun run_session ::
  "('s \<Rightarrow> u64 \<Rightarrow> (u64 \<times> 's) res) \<Rightarrow> ('s \<Rightarrow> u64 \<Rightarrow> u64 \<Rightarrow> 's res) \<Rightarrow> u64 \<Rightarrow>
     's \<Rightarrow> (u64 \<times> u64) list \<Rightarrow> run_req list \<Rightarrow> ('s \<times> (u64 \<times> u64) list) res" where
  "run_session al rel nf s led [] = Ok (s, led)"
| "run_session al rel nf s led (Get n # rs) =
     (if n = 0 then run_session al rel nf s led rs
      else rbind (al s n) (\<lambda>(f, s').
        run_session al rel nf s' (if f = nf then led else (f, n) # led) rs))"
| "run_session al rel nf s led (Put k # rs) =
     (if k < length led
      then rbind (rel s (fst (led ! k)) (snd (led ! k))) (\<lambda>s'.
             run_session al rel nf s' (take k led @ drop (Suc k) led) rs)
      else run_session al rel nf s led rs)"

definition run_of :: "u64 \<times> u64 \<Rightarrow> nat set" where
  "run_of r = {unat (fst r)..<unat (fst r) + unat (snd r)}"

text \<open>The ledger agrees with the allocator: runs are non-empty, disjoint, and cover what is taken.\<close>

definition ledger_ok :: "nat set \<Rightarrow> (u64 \<times> u64) list \<Rightarrow> bool" where
  "ledger_ok T led \<longleftrightarrow> T = (\<Union>r\<in>set led. run_of r) \<and> (\<forall>r\<in>set led. 0 < snd r) \<and>
     sorted_wrt (\<lambda>r r'. run_of r \<inter> run_of r' = {}) led"

lemma ledger_ok_Nil: "ledger_ok {} []"
  by (simp add: ledger_ok_def)

lemma ledger_ok_Cons:
  "ledger_ok T led \<Longrightarrow> 0 < n \<Longrightarrow> T \<inter> run_of (f, n) = {} \<Longrightarrow> ledger_ok (T \<union> run_of (f, n)) ((f, n) # led)"
  unfolding ledger_ok_def by auto

lemma ledger_ok_remove:
  assumes ok: "ledger_ok T led" and k: "k < length led"
  shows "ledger_ok (T - run_of (led ! k)) (take k led @ drop (Suc k) led)"
proof -
  have led: "led = take k led @ led ! k # drop (Suc k) led" using k by (rule id_take_nth_drop)
  define xs y zs where "xs = take k led" and "y = led ! k" and "zs = drop (Suc k) led"
  have "ledger_ok T (xs @ y # zs)" using ok led by (simp add: xs_def y_def zs_def)
  then have "ledger_ok (T - run_of y) (xs @ zs)"
    unfolding ledger_ok_def sorted_wrt_append by auto
  then show ?thesis by (simp add: xs_def y_def zs_def)
qed

lemma ledger_ok_nth: "ledger_ok T led \<Longrightarrow> k < length led \<Longrightarrow> run_of (led ! k) \<subseteq> T \<and> 0 < snd (led ! k)"
  by (auto simp: ledger_ok_def)

context run_allocator
begin

text \<open>Every session runs to its end, and its live runs stay disjoint and accounted for.\<close>

lemma session_ok:
  assumes "inv s" and "ledger_ok (taken s) led"
  shows "\<exists>s' led'. run_session alloc release none s led rs = Ok (s', led') \<and> inv s' \<and> ledger_ok (taken s') led'"
  using assms
proof (induction rs arbitrary: s led)
  case Nil
  then show ?case by simp
next
  case (Cons r rs)
  show ?case
  proof (cases r)
    case (Get n)
    show ?thesis
    proof (cases "n = 0")
      case True
      with Get Cons show ?thesis by simp
    next
      case False
      then have "0 < n" by (simp add: word_gt_0)
      from alloc_ok [OF Cons.prems(1) this] obtain f s1 where a: "alloc s n = Ok (f, s1)" and i: "inv s1"
        and t: "if f = none then taken s1 = taken s
          else taken s \<inter> run_of (f, n) = {} \<and> taken s1 = taken s \<union> run_of (f, n)"
        by (auto simp: run_of_def)
      have "ledger_ok (taken s1) (if f = none then led else (f, n) # led)"
        using t Cons.prems(2) \<open>0 < n\<close> by (auto intro: ledger_ok_Cons split: if_splits)
      from Cons.IH [OF i this] show ?thesis using Get False a by simp
    qed
  next
    case (Put k)
    show ?thesis
    proof (cases "k < length led")
      case True
      from ledger_ok_nth [OF Cons.prems(2) True] release_ok [OF Cons.prems(1), of "snd (led ! k)" "fst (led ! k)"]
      obtain s1 where "release s (fst (led ! k)) (snd (led ! k)) = Ok s1" "inv s1" "taken s1 = taken s - run_of (led ! k)"
        by (auto simp: run_of_def)
      with Cons.IH [of s1] ledger_ok_remove [OF Cons.prems(2) True] show ?thesis using Put True by simp
    next
      case False
      with Put Cons show ?thesis by simp
    qed
  qed
qed

end

interpretation bitmap: run_allocator bm_inv "\<lambda>bmp. alloc_set (bm_bits bmp)" utils_bitmap_alloc_bits
  utils_bitmap_free_bits BITMAP_NOT_FOUND
proof
  fix s :: utils_bitmap and n :: u64
  assume i: "bm_inv s" and n: "0 < n"
  then obtain f s' where "utils_bitmap_alloc_bits s n = Ok (f, s')" and sp: "alloc_spec s n f s'"
    using alloc_bits_total [of s n] by (auto simp: bm_inv_def)
  with bm_inv_alloc [OF i sp] show "\<exists>f s'. utils_bitmap_alloc_bits s n = Ok (f, s') \<and> bm_inv s' \<and>
      (if f = BITMAP_NOT_FOUND then alloc_set (bm_bits s') = alloc_set (bm_bits s)
       else alloc_set (bm_bits s) \<inter> {unat f..<unat f + unat n} = {} \<and>
         alloc_set (bm_bits s') = alloc_set (bm_bits s) \<union> {unat f..<unat f + unat n})"
    by (auto simp: alloc_spec_def claims_def split: if_splits)
next
  fix s :: utils_bitmap and n f :: u64
  assume i: "bm_inv s" and n: "0 < n" and al: "{unat f..<unat f + unat n} \<subseteq> alloc_set (bm_bits s)"
  then obtain s' where "utils_bitmap_free_bits s f n = Ok s'" and sp: "free_spec s f n s'"
    using free_bits_total [of s n f] by (auto simp: bm_inv_def)
  with bm_inv_free [OF i sp al] show "\<exists>s'. utils_bitmap_free_bits s f n = Ok s' \<and> bm_inv s' \<and>
      alloc_set (bm_bits s') = alloc_set (bm_bits s) - {unat f..<unat f + unat n}"
    by (auto simp: free_spec_def releases_def)
qed

section \<open>Properties\<close>

text \<open>
  C3. An allocation on a bitmap at rest always returns; either no bit changes, or the
  \<open>bits\<close> bits from \<open>found\<close> were all free, are exactly the bits that become taken, lie inside the
  chunk array, and are added to \<open>used_bits\<close>. The invariant holds again afterwards.
\<close>

theorem bitmap_alloc_correct:
  assumes "bm_inv bmp" and "0 < bits"
  shows "\<exists>found bmp'. utils_bitmap_alloc_bits bmp bits = Ok (found, bmp') \<and> bm_inv bmp' \<and>
    size_bits bmp' = size_bits bmp \<and>
    (if found = BITMAP_NOT_FOUND then bm_bits bmp' = bm_bits bmp \<and> used_bits bmp' = used_bits bmp
     else (\<forall>j. unat found \<le> j \<and> j < unat found + unat bits \<longrightarrow> j \<notin> alloc_set (bm_bits bmp)) \<and>
       alloc_set (bm_bits bmp') = alloc_set (bm_bits bmp) \<union> {unat found..<unat found + unat bits} \<and>
       unat found + unat bits \<le> 64 * bm_end bmp \<and> used_bits bmp' = used_bits bmp + bits)"
proof -
  obtain found bmp' where a: "utils_bitmap_alloc_bits bmp bits = Ok (found, bmp')"
    and sp: "alloc_spec bmp bits found bmp'"
    using alloc_bits_total [of bmp bits] assms by (auto simp: bm_inv_def)
  show ?thesis
    using a sp bm_inv_alloc [OF assms(1) sp] assms
    by (auto simp: alloc_spec_def claims_def bm_inv_def bm_shape_def split: if_splits)
qed

theorem bitmap_alloc_correct_witness:
  "\<exists>found bmp'. utils_bitmap_alloc_bits (utils_bitmap_init 128) 70 = Ok (found, bmp') \<and> bm_inv bmp'"
proof -
  have "bm_inv (utils_bitmap_init 128)" by (rule bm_inv_init) simp
  from bitmap_alloc_correct [OF this, of 70] show ?thesis by auto
qed

text \<open>
  C31. Releasing a run that is allocated always returns (none of the assertions fails), clears
  exactly that run, whatever chunks it spans, and takes it off \<open>used_bits\<close>.
\<close>

theorem bitmap_free_correct:
  assumes "bm_inv bmp" and "0 < bits" and "{unat start..<unat start + unat bits} \<subseteq> alloc_set (bm_bits bmp)"
  shows "\<exists>bmp'. utils_bitmap_free_bits bmp start bits = Ok bmp' \<and> bm_inv bmp' \<and>
    alloc_set (bm_bits bmp') = alloc_set (bm_bits bmp) - {unat start..<unat start + unat bits} \<and>
    used_bits bmp' = used_bits bmp - bits \<and> size_bits bmp' = size_bits bmp \<and> free_p bmp' = free_p bmp"
proof -
  obtain bmp' where f: "utils_bitmap_free_bits bmp start bits = Ok bmp'" and sp: "free_spec bmp start bits bmp'"
    using free_bits_total [of bmp bits start] assms by (auto simp: bm_inv_def)
  show ?thesis
    using f sp bm_inv_free [OF assms(1) sp assms(3)] by (auto simp: free_spec_def releases_def)
qed

theorem bitmap_free_correct_witness:
  "\<exists>bmp'. utils_bitmap_free_bits ((utils_bitmap_init 64)\<lparr>bm_bits := [240], used_bits := 4\<rparr>) 4 4 = Ok bmp' \<and>
     alloc_set (bm_bits bmp') = alloc_set [240] - {4..<8}"
proof -
  let ?b = "(utils_bitmap_init 64)\<lparr>bm_bits := [240], used_bits := 4\<rparr>"
  have a: "j \<in> alloc_set [240] \<longleftrightarrow> 4 \<le> j \<and> j < 8" for j
  proof -
    have e: "push_bit 4 (mask 4) = (240 :: u64)" by (simp add: mask_eq_exp_minus_1)
    show ?thesis using bit_shifted_mask [of 4 4 j, unfolded e] by (auto simp: alloc_set_iff div_eq_0_iff)
  qed
  have s: "alloc_set [240] = {4..<8}" by (rule set_eqI) (simp only: a atLeastLessThan_iff)
  then have "bm_inv ?b"
    by (simp add: bm_inv_def bm_shape_def utils_bitmap_init_def utils_spinlock_init_def)
  from bitmap_free_correct [OF this, of 4 4] show ?thesis by (auto simp: s)
qed

text \<open>
  Over any session of allocations and releases that starts from \<open>utils_bitmap_init\<close>, no
  call faults, no two live runs share a bit, the live runs are exactly the set bits, and the slow
  recount \<open>utils_bitmap_count_allocated\<close> equals \<open>utils_bitmap_used\<close>.
\<close>

theorem bitmap_sessions:
  assumes "unat sz + 63 < 2 ^ 64"
  shows "\<exists>bmp led. run_session utils_bitmap_alloc_bits utils_bitmap_free_bits BITMAP_NOT_FOUND
      (utils_bitmap_init sz) [] reqs = Ok (bmp, led) \<and>
    sorted_wrt (\<lambda>r r'. run_of r \<inter> run_of r' = {}) led \<and>
    alloc_set (bm_bits bmp) = (\<Union>r\<in>set led. run_of r) \<and>
    utils_bitmap_count_allocated bmp = utils_bitmap_used bmp"
proof -
  obtain bmp led where r: "run_session utils_bitmap_alloc_bits utils_bitmap_free_bits BITMAP_NOT_FOUND
      (utils_bitmap_init sz) [] reqs = Ok (bmp, led)"
    and i: "bm_inv bmp" and l: "ledger_ok (alloc_set (bm_bits bmp)) led"
    using bitmap.session_ok [OF bm_inv_init(1) [OF assms], of "[]" reqs] bm_inv_init(2) [OF assms] ledger_ok_Nil
    by auto
  have "utils_bitmap_count_allocated bmp = utils_bitmap_used bmp"
    using i count_allocated_card [of bmp] by (simp add: bm_inv_def utils_bitmap_used_def)
  with r l show ?thesis by (auto simp: ledger_ok_def)
qed

theorem bitmap_sessions_witness:
  "\<exists>bmp led. run_session utils_bitmap_alloc_bits utils_bitmap_free_bits BITMAP_NOT_FOUND
      (utils_bitmap_init 100) [] [Get 30, Get 30, Put 1] = Ok (bmp, led) \<and>
    utils_bitmap_count_allocated bmp = utils_bitmap_used bmp"
  using bitmap_sessions [of 100 "[Get 30, Get 30, Put 1]"] by auto

text \<open>A request for one bit never fails while a bit of the bitmap is free.
\<close>

theorem bitmap_alloc_one_complete:
  assumes "bm_inv bmp" and "alloc_set (bm_bits bmp) \<subseteq> {..<unat (size_bits bmp)}"
    and "\<exists>j<unat (size_bits bmp). j \<notin> alloc_set (bm_bits bmp)"
  shows "\<exists>found bmp'. utils_bitmap_alloc_bits bmp 1 = Ok (found, bmp') \<and> found \<noteq> BITMAP_NOT_FOUND"
  using assms alloc_one_found by blast

theorem bitmap_alloc_one_complete_witness:
  "\<exists>found bmp'. utils_bitmap_alloc_bits (utils_bitmap_init 64) 1 = Ok (found, bmp') \<and> found \<noteq> BITMAP_NOT_FOUND"
proof -
  have i: "bm_inv (utils_bitmap_init 64)" "alloc_set (bm_bits (utils_bitmap_init 64)) = {}"
    "size_bits (utils_bitmap_init 64) = 64" using bm_inv_init [of 64] by simp_all
  have "\<exists>j<unat (size_bits (utils_bitmap_init 64)). j \<notin> alloc_set (bm_bits (utils_bitmap_init 64))"
    unfolding i by (rule exI [of _ 0]) simp
  from bitmap_alloc_one_complete [OF i(1) _ this] show ?thesis by (simp add: i)
qed

text \<open>When \<open>size_bits\<close> is a multiple of 64, every run handed out ends within \<open>size_bits\<close>.
\<close>

theorem bitmap_alloc_in_size:
  assumes "bm_inv bmp" and "0 < bits" and "64 dvd unat (size_bits bmp)"
    and "utils_bitmap_alloc_bits bmp bits = Ok (found, bmp')" and "found \<noteq> BITMAP_NOT_FOUND"
  shows "unat found + unat bits \<le> unat (size_bits bmp)"
proof -
  from assms have "alloc_spec bmp bits found bmp'" using alloc_bits_total [of bmp bits] by (auto simp: bm_inv_def)
  with assms(5) have "unat found + unat bits \<le> 64 * length (bm_bits bmp)" by (simp add: alloc_spec_def claims_def)
  moreover have "64 * length (bm_bits bmp) = unat (size_bits bmp)"
    using assms(1,3) by (auto simp: bm_inv_def bm_shape_def dvd_def)
  ultimately show ?thesis by simp
qed

theorem bitmap_alloc_in_size_witness:
  "\<exists>bmp'. utils_bitmap_alloc_bits (utils_bitmap_init 64) 5 = Ok (0, bmp') \<and> unat (0 :: u64) + unat (5 :: u64) \<le> 64"
proof -
  have i: "bm_inv (utils_bitmap_init 64)" "size_bits (utils_bitmap_init 64) = 64"
    using bm_inv_init [of 64] by simp_all
  have "case utils_bitmap_alloc_bits (utils_bitmap_init 64) 5 of Ok (f, _) \<Rightarrow> f = 0 | Fault _ \<Rightarrow> False"
    by code_simp
  then obtain b where b: "utils_bitmap_alloc_bits (utils_bitmap_init 64) 5 = Ok (0, b)"
    by (auto split: res.splits)
  have "(0 :: u64) \<noteq> BITMAP_NOT_FOUND" by (simp add: BITMAP_NOT_FOUND_def)
  from bitmap_alloc_in_size [OF i(1) _ _ b this] b i(2) show ?thesis by simp
qed

text \<open>The tail of the last chunk is not protected against requests that spill into it: in a
  bitmap of 100 bits, after two allocations of 30 bits and the release of the first, a request for
  45 bits is granted the run 60..104.
\<close>

theorem bitmap_alloc_overruns_tail:
  "case run_session utils_bitmap_alloc_bits utils_bitmap_free_bits BITMAP_NOT_FOUND
      (utils_bitmap_init 100) [] [Get 30, Get 30, Put 1, Get 45] of
     Ok (bmp, led) \<Rightarrow> led = [(60, 45), (30, 30)] \<and> size_bits bmp = 100 \<and> unat (size_bits bmp) < 60 + 45
   | Fault _ \<Rightarrow> False"
  by code_simp

end
