(* ===== verification/Alloc.thy ===== *)
theory Alloc
  imports Bitmap
begin

text \<open>
  \<open>src/alloc\<close>: the allocator of the shared segment. \<open>dlmalloc/alloc.c\<close> (the default build, whose
  definitions keep the C names) lays a page bitmap and a page area over the segment and serves page
  runs to the mspace allocator; \<open>tlsf/alloc.c\<close> (suffix \<open>_tlsf\<close>) wraps a TLSF pool in a spinlock.

  The mspace and TLSF allocators proper are parameters of the model: a record of operations on the
  allocator state, whose history of calls stands for their private state. Page requests of the
  mspace code go through \<open>arax_mmap\<close> and \<open>arax_ummap\<close>, which are modelled.
\<close>

section \<open>\<open>dlmalloc/alloc.c\<close>\<close>

datatype mspace_event = M_malloc u64 addr | M_free addr

record arch_alloc =
  al_root :: "mspace_event list"
  al_start :: addr
  al_bmp :: utils_bitmap

record mspace_ops =
  create_mspace :: "arch_alloc \<Rightarrow> arch_alloc res"
  destroy_mspace :: "arch_alloc \<Rightarrow> arch_alloc res"
  mspace_malloc :: "arch_alloc \<Rightarrow> u64 \<Rightarrow> (addr \<times> arch_alloc) res"
  mspace_free :: "arch_alloc \<Rightarrow> addr \<Rightarrow> arch_alloc res"
  mspace_mallinfo :: "arch_alloc \<Rightarrow> u32 \<times> u32"
  mspace_inspect_all :: "arch_alloc \<Rightarrow> (addr \<times> addr \<times> u64) list"

definition BIT_ALLOCATOR_BLOCK :: u64 where
  "BIT_ALLOCATOR_BLOCK = 4096"

definition BIT_ALLOCATOR_BLOCK_MASK :: u64 where
  "BIT_ALLOCATOR_BLOCK_MASK = BIT_ALLOCATOR_BLOCK - 1"

definition BITS_PER_PAGE :: u64 where
  "BITS_PER_PAGE = BIT_ALLOCATOR_BLOCK * 8"

text \<open>
  \<open>inner\<close> is \<open>sizeof(struct arch_alloc_inner_s)\<close>, the offset of the chunk array that follows the
  structure. The segment layout is computed first, then the bitmap and the mspace are set up in it.
\<close>

definition alloc_layout :: "u64 \<Rightarrow> addr \<Rightarrow> u64 \<Rightarrow> addr \<times> u64" where
  "alloc_layout inner alloc sz =
     (let usable_area = alloc + inner;
          alligned_start = (usable_area + BIT_ALLOCATOR_BLOCK_MASK) AND NOT BIT_ALLOCATOR_BLOCK_MASK;
          alligned_size = sz - (alligned_start - alloc);
          alligned_pages = alligned_size div BIT_ALLOCATOR_BLOCK;
          bitmap_pages = (alligned_pages + (BITS_PER_PAGE - 1)) div BITS_PER_PAGE
      in (alligned_start + BIT_ALLOCATOR_BLOCK * bitmap_pages, alligned_pages - bitmap_pages))"

definition arch_alloc_init_once :: "mspace_ops \<Rightarrow> u64 \<Rightarrow> addr \<Rightarrow> u64 \<Rightarrow> (int \<times> arch_alloc) res" where
  "arch_alloc_init_once ops inner alloc sz =
     (let (start, pages) = alloc_layout inner alloc sz in
      rbind (create_mspace ops \<lparr>al_root = [], al_start = start, al_bmp = utils_bitmap_init pages\<rparr>) (\<lambda>a.
      Ok (0, a)))"

text \<open>\<open>arch_alloc_init_always\<close> makes the allocator of the pipe the process wide one.\<close>

definition arch_alloc_init_always :: "arch_alloc \<Rightarrow> arch_alloc" where
  "arch_alloc_init_always alloc = alloc"

definition arch_alloc_allocate :: "mspace_ops \<Rightarrow> arch_alloc \<Rightarrow> u64 \<Rightarrow> (addr \<times> arch_alloc) res" where
  "arch_alloc_allocate ops alloc sz = mspace_malloc ops alloc sz"

definition arch_alloc_free_fn :: "mspace_ops \<Rightarrow> arch_alloc \<Rightarrow> addr \<Rightarrow> arch_alloc res" where
  "arch_alloc_free_fn ops alloc mem = mspace_free ops alloc mem"

text \<open>The macro \<open>arch_alloc_free\<close> also clears the variable it is given.\<close>

definition arch_alloc_free :: "mspace_ops \<Rightarrow> arch_alloc \<Rightarrow> addr \<Rightarrow> (addr \<times> arch_alloc) res" where
  "arch_alloc_free ops alloc mem = rbind (arch_alloc_free_fn ops alloc mem) (\<lambda>a. Ok (0, a))"

definition arch_alloc_exit :: "mspace_ops \<Rightarrow> arch_alloc \<Rightarrow> arch_alloc res" where
  "arch_alloc_exit ops alloc = destroy_mspace ops alloc"

record arch_alloc_stats_s =
  total_bytes :: u64
  used_bytes :: u64

definition arch_alloc_mspace_mallinfo :: "mspace_ops \<Rightarrow> arch_alloc \<Rightarrow> arch_alloc_stats_s \<Rightarrow> arch_alloc_stats_s" where
  "arch_alloc_mspace_mallinfo ops alloc stats =
     (let (arena, uordblks) = mspace_mallinfo ops alloc
      in stats\<lparr>total_bytes := total_bytes stats + ucast arena, used_bytes := used_bytes stats + ucast uordblks\<rparr>)"

definition arch_alloc_stats :: "mspace_ops \<Rightarrow> arch_alloc \<Rightarrow> arch_alloc_stats_s" where
  "arch_alloc_stats ops alloc = arch_alloc_mspace_mallinfo ops alloc \<lparr>total_bytes = 0, used_bytes = 0\<rparr>"

definition arch_alloc_inspect :: "mspace_ops \<Rightarrow> arch_alloc \<Rightarrow> (addr \<Rightarrow> addr \<Rightarrow> u64 \<Rightarrow> 'a \<Rightarrow> 'a) \<Rightarrow> 'a \<Rightarrow> 'a" where
  "arch_alloc_inspect ops alloc inspector arg =
     fold (\<lambda>(s, e, sz) a. inspector s e sz a) (mspace_inspect_all ops alloc) arg"

definition arax_mmap :: "arch_alloc \<Rightarrow> u64 \<Rightarrow> (addr \<times> arch_alloc) res" where
  "arax_mmap alloc s =
     rbind (arax_assert (s AND BIT_ALLOCATOR_BLOCK_MASK = 0) ''!(s & BIT_ALLOCATOR_BLOCK_MASK)'') (\<lambda>_.
     rbind (utils_bitmap_alloc_bits (al_bmp alloc) (s div BIT_ALLOCATOR_BLOCK)) (\<lambda>(off, bmp).
     rbind (arax_assert (off \<noteq> BITMAP_NOT_FOUND) ''off != BITMAP_NOT_FOUND'') (\<lambda>_.
     Ok (al_start alloc + off * BIT_ALLOCATOR_BLOCK, alloc\<lparr>al_bmp := bmp\<rparr>))))"

definition arax_ummap :: "arch_alloc \<Rightarrow> addr \<Rightarrow> u64 \<Rightarrow> (addr \<times> arch_alloc) res" where
  "arax_ummap alloc a s =
     (let start = (a - al_start alloc) div BIT_ALLOCATOR_BLOCK;
          size_blocks = s div BIT_ALLOCATOR_BLOCK in
      rbind (utils_bitmap_free_bits (al_bmp alloc) start size_blocks) (\<lambda>bmp.
      Ok (0, alloc\<lparr>al_bmp := bmp\<rparr>)))"

text \<open>The new allocator is a block of the parent; its pages come from the same bitmap.\<close>

definition arch_alloc_create_sub_alloc :: "mspace_ops \<Rightarrow> u64 \<Rightarrow> arch_alloc \<Rightarrow> (addr \<times> arch_alloc \<times> arch_alloc) res" where
  "arch_alloc_create_sub_alloc ops inner parent =
     rbind (arch_alloc_allocate ops parent inner) (\<lambda>(alloc, parent).
     if alloc = 0 then Fault (Bad_access ''alloc->root'')
     else rbind (create_mspace ops (parent\<lparr>al_root := []\<rparr>)) (\<lambda>sub.
       Ok (alloc, parent\<lparr>al_bmp := al_bmp sub\<rparr>, sub)))"

definition arch_alloc_get_bitmap :: "arch_alloc \<Rightarrow> utils_bitmap" where
  "arch_alloc_get_bitmap alloc = al_bmp alloc"

section \<open>\<open>tlsf/alloc.c\<close>\<close>

record arch_alloc_tlsf =
  tl_root :: "mspace_event list"
  tl_lock :: u64

record tlsf_ops =
  tlsf_create_with_pool :: "addr \<Rightarrow> u64 \<Rightarrow> mspace_event list"
  tlsf_malloc :: "mspace_event list \<Rightarrow> u64 \<Rightarrow> addr \<times> mspace_event list"
  tlsf_free :: "mspace_event list \<Rightarrow> addr \<Rightarrow> mspace_event list"
  tlsf_destroy :: "mspace_event list \<Rightarrow> mspace_event list"
  tlsf_walk_pool :: "mspace_event list \<Rightarrow> (addr \<times> u64 \<times> int) list"

definition arch_alloc_init_once_tlsf :: "tlsf_ops \<Rightarrow> u64 \<Rightarrow> addr \<Rightarrow> u64 \<Rightarrow> int \<times> arch_alloc_tlsf" where
  "arch_alloc_init_once_tlsf ops inner alloc sz =
     (0, \<lparr>tl_root = tlsf_create_with_pool ops (alloc + inner) (sz - inner), tl_lock = utils_spinlock_init\<rparr>)"

definition arch_alloc_init_always_tlsf :: "arch_alloc_tlsf \<Rightarrow> arch_alloc_tlsf" where
  "arch_alloc_init_always_tlsf alloc = alloc"

definition arch_alloc_allocate_tlsf :: "tlsf_ops \<Rightarrow> arch_alloc_tlsf \<Rightarrow> u64 \<Rightarrow> (addr \<times> arch_alloc_tlsf) res" where
  "arch_alloc_allocate_tlsf ops alloc sz =
     rbind (utils_spinlock_lock (tl_lock alloc)) (\<lambda>l.
     let (data, root) = tlsf_malloc ops (tl_root alloc) sz in
     rbind (utils_spinlock_unlock l) (\<lambda>l. Ok (data, alloc\<lparr>tl_root := root, tl_lock := l\<rparr>)))"

definition arch_alloc_free_tlsf :: "tlsf_ops \<Rightarrow> arch_alloc_tlsf \<Rightarrow> addr \<Rightarrow> arch_alloc_tlsf res" where
  "arch_alloc_free_tlsf ops alloc mem =
     rbind (utils_spinlock_lock (tl_lock alloc)) (\<lambda>l.
     let root = tlsf_free ops (tl_root alloc) mem in
     rbind (utils_spinlock_unlock l) (\<lambda>l. Ok (alloc\<lparr>tl_root := root, tl_lock := l\<rparr>)))"

definition arch_alloc_exit_tlsf :: "tlsf_ops \<Rightarrow> arch_alloc_tlsf \<Rightarrow> arch_alloc_tlsf" where
  "arch_alloc_exit_tlsf ops alloc = alloc\<lparr>tl_root := tlsf_destroy ops (tl_root alloc)\<rparr>"

definition arch_alloc_stats_tlsf :: "arch_alloc_tlsf \<Rightarrow> arch_alloc_stats_s" where
  "arch_alloc_stats_tlsf alloc = \<lparr>total_bytes = 0, used_bytes = 0\<rparr>"

definition inspect_walker :: "(addr \<Rightarrow> addr \<Rightarrow> u64 \<Rightarrow> 'a \<Rightarrow> 'a) \<Rightarrow> addr \<times> u64 \<times> int \<Rightarrow> 'a \<Rightarrow> 'a" where
  "inspect_walker inspector b arg = (case b of (ptr, sz, used) \<Rightarrow> inspector ptr (ptr + sz) (word_of_int used * sz) arg)"

definition arch_alloc_inspect_tlsf :: "tlsf_ops \<Rightarrow> arch_alloc_tlsf \<Rightarrow> (addr \<Rightarrow> addr \<Rightarrow> u64 \<Rightarrow> 'a \<Rightarrow> 'a) \<Rightarrow> 'a \<Rightarrow> 'a" where
  "arch_alloc_inspect_tlsf ops alloc inspector arg =
     fold (inspect_walker inspector) (tlsf_walk_pool ops (tl_root alloc)) arg"

definition arax_mmap_tlsf :: "u64 \<Rightarrow> addr" where
  "arax_mmap_tlsf s = 0"

definition arax_ummap_tlsf :: "addr \<Rightarrow> u64 \<Rightarrow> addr" where
  "arax_ummap_tlsf a s = 0"

definition arch_alloc_create_sub_alloc_tlsf :: "arch_alloc_tlsf \<Rightarrow> arch_alloc_tlsf" where
  "arch_alloc_create_sub_alloc_tlsf parent = parent"

section \<open>The layout\<close>

lemmas block_defs = BIT_ALLOCATOR_BLOCK_MASK_def BIT_ALLOCATOR_BLOCK_def BITS_PER_PAGE_def

text \<open>\<open>(x + 4095) & ~4095\<close> rounds up to the next page.\<close>

lemma and_not_mask_u64: "(y :: u64) AND NOT (mask n) = y - take_bit n y"
proof -
  have "y = (y AND NOT (mask n)) + take_bit n y"
    by (subst disjunctive_add_eq_or) (auto intro!: bit_word_eqI simp: bit_simps)
  then show ?thesis by (metis add_diff_cancel_right')
qed

lemma align_up:
  assumes "unat x + 4095 < 2 ^ 64"
  shows "unat ((x + BIT_ALLOCATOR_BLOCK_MASK) AND NOT BIT_ALLOCATOR_BLOCK_MASK) = (unat x + 4095) div 4096 * 4096"
proof -
  let ?y = "x + BIT_ALLOCATOR_BLOCK_MASK"
  have m: "BIT_ALLOCATOR_BLOCK_MASK = mask 12" by (simp add: block_defs mask_eq_exp_minus_1)
  have y: "unat ?y = unat x + 4095" using assms by (simp add: block_defs unat_word_ariths)
  have tb: "unat (take_bit 12 ?y) = unat ?y mod 4096" by (simp add: take_bit_eq_mod unat_mod)
  have "unat (?y - take_bit 12 ?y) = unat ?y - unat ?y mod 4096"
    using tb by (subst unat_sub) (simp_all add: word_le_nat_alt)
  also have "\<dots> = unat ?y div 4096 * 4096" by (simp add: minus_mod_eq_div_mult)
  finally show ?thesis unfolding m and_not_mask_u64 by (simp add: y [unfolded m])
qed

text \<open>
  The segment after the structure: the chunk array of the bitmap starts right behind it, the pages
  start at \<open>start\<close>. Everything is stated with natural numbers, free of wrap-around.
\<close>

lemma alloc_layout_nat:
  assumes small: "unat alloc + unat sz < 2 ^ 64"
    and room: "(unat alloc + unat inner + 4095) div 4096 * 4096 \<le> unat alloc + unat sz"
    and lay: "alloc_layout inner alloc sz = (start, pages)"
  defines "A \<equiv> (unat alloc + unat inner + 4095) div 4096 * 4096"
  defines "P \<equiv> (unat alloc + unat sz - A) div 4096"
  defines "B \<equiv> (P + 32767) div 32768"
  shows "unat start = A + 4096 * B" and "unat pages = P - B" and "B \<le> P"
proof -
  have A: "unat alloc + unat inner \<le> A" "A \<le> unat alloc + unat sz" using room by (auto simp: A_def)
  have u1: "unat (alloc + inner) = unat alloc + unat inner"
    using A small by (subst unat_add_lem [symmetric]) simp
  let ?as = "(alloc + inner + BIT_ALLOCATOR_BLOCK_MASK) AND NOT BIT_ALLOCATOR_BLOCK_MASK"
  have "unat alloc + unat inner + 4095 < 2 ^ 64"
  proof -
    have "unat alloc + unat inner + 4095 < A + 4096" unfolding A_def by simp
    moreover have "A + 4096 \<le> 2 ^ 64"
    proof -
      have "A < 2 ^ 64" using A small by simp
      then have "A div 4096 < 2 ^ 52" by (simp add: less_mult_imp_div_less)
      moreover have "A = A div 4096 * 4096" by (simp add: A_def)
      ultimately show ?thesis by simp
    qed
    ultimately show ?thesis by simp
  qed
  with align_up [of "alloc + inner"] have as: "unat ?as = A" by (simp add: u1 A_def)
  have "unat (?as - alloc) = A - unat alloc"
    using as A by (subst unat_sub) (simp_all add: word_le_nat_alt)
  moreover have "A - unat alloc \<le> unat sz" using A by simp
  ultimately have "unat (sz - (?as - alloc)) = unat alloc + unat sz - A"
    using A by (subst unat_sub) (simp_all add: word_le_nat_alt)
  then have P: "unat ((sz - (?as - alloc)) div BIT_ALLOCATOR_BLOCK) = P"
    by (simp add: unat_div block_defs P_def)
  have P52: "P < 2 ^ 52" using small unfolding P_def by (simp add: less_mult_imp_div_less)
  have "P + 32767 < Suc P * 32768" by simp
  then have "B < Suc P" unfolding B_def by (rule less_mult_imp_div_less)
  then show BP: "B \<le> P" by simp
  have B: "unat (((sz - (?as - alloc)) div BIT_ALLOCATOR_BLOCK + (BITS_PER_PAGE - 1)) div BITS_PER_PAGE) = B"
    using P P52 by (simp add: unat_div unat_word_ariths block_defs B_def)
  have "A + 4096 * B \<le> unat alloc + unat sz"
  proof -
    have "4096 * B \<le> 4096 * P" using BP by simp
    also have "\<dots> \<le> unat alloc + unat sz - A" unfolding P_def by simp
    finally show ?thesis using A by simp
  qed
  with small have lt: "A + 4096 * B < 2 ^ 64" by simp
  show "unat start = A + 4096 * B" using lay as B lt
    by (auto simp: alloc_layout_def Let_def unat_word_ariths block_defs)
  show "unat pages = P - B" using lay P B BP
    by (auto simp: alloc_layout_def Let_def unat_sub word_le_nat_alt)
qed

section \<open>Pages\<close>

definition alloc_inv :: "arch_alloc \<Rightarrow> bool" where
  "alloc_inv a \<longleftrightarrow> bm_inv (al_bmp a) \<and> unat (al_start a) + 4096 * (64 * bm_end (al_bmp a)) < 2 ^ 64"

text \<open>The bytes of the pages that are handed out.\<close>

definition page_bytes :: "addr \<Rightarrow> nat set \<Rightarrow> nat set" where
  "page_bytes start T = {x. unat start \<le> x \<and> (x - unat start) div 4096 \<in> T}"

definition used_pages :: "arch_alloc \<Rightarrow> nat set" where
  "used_pages a = page_bytes (al_start a) (alloc_set (bm_bits (al_bmp a)))"

lemma page_bytes_run:
  "page_bytes start {k..<k + n} = {unat start + 4096 * k..<unat start + 4096 * k + 4096 * n}"
proof (rule set_eqI)
  fix x
  have "k \<le> (x - unat start) div 4096 \<longleftrightarrow> 4096 * k \<le> x - unat start" by (simp add: less_eq_div_iff_mult_less_eq mult.commute)
  moreover have "(x - unat start) div 4096 < k + n \<longleftrightarrow> x - unat start < 4096 * (k + n)"
    by (simp add: div_less_iff_less_mult mult.commute)
  ultimately show "x \<in> page_bytes start {k..<k + n} \<longleftrightarrow>
      x \<in> {unat start + 4096 * k..<unat start + 4096 * k + 4096 * n}"
    by (auto simp: page_bytes_def)
qed

lemma page_bytes_set [simp]:
  "page_bytes start (S \<union> T) = page_bytes start S \<union> page_bytes start T"
  "page_bytes start (S - T) = page_bytes start S - page_bytes start T"
  "S \<inter> T = {} \<Longrightarrow> page_bytes start S \<inter> page_bytes start T = {}"
  by (auto simp: page_bytes_def)

lemma page_bytes_subset: "page_bytes start S \<subseteq> page_bytes start T \<Longrightarrow> S \<subseteq> T"
proof
  fix k assume sub: "page_bytes start S \<subseteq> page_bytes start T" and "k \<in> S"
  then have "unat start + 4096 * k \<in> page_bytes start S" by (simp add: page_bytes_def)
  with sub have "unat start + 4096 * k \<in> page_bytes start T" by blast
  then show "k \<in> T" by (simp add: page_bytes_def)
qed

lemma unat_mod_page: "(s :: u64) AND BIT_ALLOCATOR_BLOCK_MASK = 0 \<longleftrightarrow> 4096 dvd unat s"
proof -
  have "s AND BIT_ALLOCATOR_BLOCK_MASK = take_bit 12 s" by (simp add: block_defs take_bit_eq_mask mask_eq_exp_minus_1)
  moreover have "unat (take_bit 12 s) = unat s mod 4096" by (simp add: take_bit_eq_mod unat_mod)
  ultimately show ?thesis by (simp add: word_unat_eq_iff dvd_eq_mod_eq_0)
qed

lemma arax_mmap_ok:
  assumes inv: "alloc_inv a" and s: "4096 dvd unat s" "0 < s"
  shows "arax_mmap a s = Fault (Assert_failed ''off != BITMAP_NOT_FOUND'') \<or>
    (\<exists>p a'. arax_mmap a s = Ok (p, a') \<and> alloc_inv a' \<and> al_start a' = al_start a \<and> al_root a' = al_root a \<and>
       4096 dvd unat p - unat (al_start a) \<and> unat (al_start a) \<le> unat p \<and>
       used_pages a \<inter> {unat p..<unat p + unat s} = {} \<and>
       used_pages a' = used_pages a \<union> {unat p..<unat p + unat s} \<and>
       unat p + unat s \<le> unat (al_start a) + 4096 * (64 * bm_end (al_bmp a)))"
proof -
  let ?n = "s div BIT_ALLOCATOR_BLOCK"
  have n: "unat ?n = unat s div 4096" by (simp add: unat_div block_defs)
  have pos: "0 < ?n" using s by (simp add: word_less_nat_alt n) (auto simp: dvd_def word_unat_eq_iff)
  have bi: "bm_inv (al_bmp a)" using inv by (simp add: alloc_inv_def)
  from alloc_bits_total [of "al_bmp a" ?n] bi pos obtain off bmp where
    al: "utils_bitmap_alloc_bits (al_bmp a) ?n = Ok (off, bmp)" and sp: "alloc_spec (al_bmp a) ?n off bmp"
    by (auto simp: bm_inv_def)
  show ?thesis
  proof (cases "off = BITMAP_NOT_FOUND")
    case True
    with al s show ?thesis by (simp add: arax_mmap_def unat_mod_page)
  next
    case False
    let ?p = "al_start a + off * BIT_ALLOCATOR_BLOCK" and ?a = "a\<lparr>al_bmp := bmp\<rparr>"
    have run: "unat off + unat ?n \<le> 64 * bm_end (al_bmp a)"
      "\<And>j. unat off \<le> j \<Longrightarrow> j < unat off + unat ?n \<Longrightarrow> j \<notin> alloc_set (bm_bits (al_bmp a))"
      "alloc_set (bm_bits bmp) = alloc_set (bm_bits (al_bmp a)) \<union> {unat off..<unat off + unat ?n}"
      using sp False bi by (auto simp: alloc_spec_def claims_def bm_inv_def bm_shape_def)
    have bmp': "bm_inv bmp" "bm_end bmp = bm_end (al_bmp a)"
      using bm_inv_alloc [OF bi sp] sp bi by (auto simp: alloc_spec_def bm_inv_def bm_shape_def)
    have lt: "unat (al_start a) + 4096 * (64 * bm_end (al_bmp a)) < 2 ^ 64" using inv by (simp add: alloc_inv_def)
    have p: "unat ?p = unat (al_start a) + 4096 * unat off"
      using lt run(1) by (simp add: unat_word_ariths block_defs)
    have sz: "unat s = 4096 * unat ?n" using s by (simp add: n)
    have bytes: "page_bytes (al_start a) {unat off..<unat off + unat ?n} = {unat ?p..<unat ?p + unat s}"
      by (simp only: page_bytes_run p sz)
    have "alloc_set (bm_bits (al_bmp a)) \<inter> {unat off..<unat off + unat ?n} = {}" using run(2) by auto
    then have "used_pages a \<inter> {unat ?p..<unat ?p + unat s} = {}"
      unfolding used_pages_def bytes [symmetric] by (rule page_bytes_set(3))
    moreover have "used_pages ?a = used_pages a \<union> {unat ?p..<unat ?p + unat s}"
      by (simp add: used_pages_def run(3) bytes)
    moreover have "arax_mmap a s = Ok (?p, ?a)" using al s False by (simp add: arax_mmap_def unat_mod_page)
    moreover have "alloc_inv ?a" using inv bmp' by (simp add: alloc_inv_def)
    moreover have "unat ?p + unat s \<le> unat (al_start a) + 4096 * (64 * bm_end (al_bmp a))"
      using run(1) by (simp add: p sz)
    moreover have "4096 dvd unat ?p - unat (al_start a)" "unat (al_start a) \<le> unat ?p" by (simp_all add: p)
    ultimately show ?thesis by (intro disjI2 exI [of _ ?p] exI [of _ ?a]) simp
  qed
qed

lemma arax_ummap_ok:
  assumes inv: "alloc_inv a" and s: "4096 dvd unat s" "0 < s"
    and p: "4096 dvd unat p - unat (al_start a)" "unat (al_start a) \<le> unat p"
    and used: "{unat p..<unat p + unat s} \<subseteq> used_pages a"
  shows "\<exists>a'. arax_ummap a p s = Ok (0, a') \<and> alloc_inv a' \<and> al_start a' = al_start a \<and> al_root a' = al_root a \<and>
    used_pages a' = used_pages a - {unat p..<unat p + unat s}"
proof -
  let ?k = "(p - al_start a) div BIT_ALLOCATOR_BLOCK" and ?n = "s div BIT_ALLOCATOR_BLOCK"
  have n: "unat ?n = unat s div 4096" by (simp add: unat_div block_defs)
  have k: "unat ?k = (unat p - unat (al_start a)) div 4096"
    using p(2) by (simp add: unat_div block_defs unat_sub word_le_nat_alt)
  have pos: "0 < ?n" using s by (simp add: word_less_nat_alt n) (auto simp: dvd_def word_unat_eq_iff)
  have bi: "bm_inv (al_bmp a)" using inv by (simp add: alloc_inv_def)
  have bytes: "page_bytes (al_start a) {unat ?k..<unat ?k + unat ?n} = {unat p..<unat p + unat s}"
    unfolding page_bytes_run using p s by (simp add: k n)
  have "page_bytes (al_start a) {unat ?k..<unat ?k + unat ?n} \<subseteq> page_bytes (al_start a) (alloc_set (bm_bits (al_bmp a)))"
    using used unfolding bytes used_pages_def .
  then have sub: "{unat ?k..<unat ?k + unat ?n} \<subseteq> alloc_set (bm_bits (al_bmp a))" by (rule page_bytes_subset)
  from free_bits_total [of "al_bmp a" ?n ?k] bi pos sub obtain bmp where
    f: "utils_bitmap_free_bits (al_bmp a) ?k ?n = Ok bmp" and sp: "free_spec (al_bmp a) ?k ?n bmp"
    by (auto simp: bm_inv_def)
  let ?a = "a\<lparr>al_bmp := bmp\<rparr>"
  have "bm_inv bmp" "bm_end bmp = bm_end (al_bmp a)"
    using bm_inv_free [OF bi sp sub] sp by (auto simp: free_spec_def)
  moreover have "alloc_set (bm_bits bmp) = alloc_set (bm_bits (al_bmp a)) - {unat ?k..<unat ?k + unat ?n}"
    using sp by (simp add: free_spec_def releases_def)
  ultimately show ?thesis using f inv
    by (intro exI [of _ ?a]) (simp add: arax_ummap_def alloc_inv_def used_pages_def bytes)
qed

section \<open>The interface: a source of pages\<close>

locale page_source =
  fixes inv :: "'s \<Rightarrow> bool"
    and used :: "'s \<Rightarrow> nat set"
    and base :: "'s \<Rightarrow> nat"
    and mmap :: "'s \<Rightarrow> u64 \<Rightarrow> (addr \<times> 's) res"
    and ummap :: "'s \<Rightarrow> addr \<Rightarrow> u64 \<Rightarrow> (addr \<times> 's) res"
  assumes mmap_ok: "inv s \<Longrightarrow> 4096 dvd unat n \<Longrightarrow> 0 < n \<Longrightarrow>
      (\<exists>m. mmap s n = Fault (Assert_failed m)) \<or>
      (\<exists>p s'. mmap s n = Ok (p, s') \<and> inv s' \<and> base s' = base s \<and> 4096 dvd unat p - base s \<and> base s \<le> unat p \<and>
         used s \<inter> {unat p..<unat p + unat n} = {} \<and> used s' = used s \<union> {unat p..<unat p + unat n})"
    and ummap_ok: "inv s \<Longrightarrow> 4096 dvd unat n \<Longrightarrow> 0 < n \<Longrightarrow> 4096 dvd unat p - base s \<Longrightarrow> base s \<le> unat p \<Longrightarrow>
      {unat p..<unat p + unat n} \<subseteq> used s \<Longrightarrow>
      \<exists>s'. ummap s p n = Ok (0, s') \<and> inv s' \<and> base s' = base s \<and> used s' = used s - {unat p..<unat p + unat n}"
begin

text \<open>Two mappings that live at the same time never overlap, and giving one back leaves the other.\<close>

lemma two_mappings:
  assumes "inv s" and "4096 dvd unat n" "0 < n" "4096 dvd unat m" "0 < m"
    and "mmap s n = Ok (p, s1)" and "mmap s1 m = Ok (q, s2)"
  shows "{unat p..<unat p + unat n} \<inter> {unat q..<unat q + unat m} = {} \<and>
    (\<exists>s3. ummap s2 p n = Ok (0, s3) \<and> inv s3 \<and> used s3 = used s \<union> {unat q..<unat q + unat m})"
proof -
  from mmap_ok [OF assms(1-3)] assms(6) have p: "inv s1" "base s1 = base s" "4096 dvd unat p - base s" "base s \<le> unat p"
    "used s \<inter> {unat p..<unat p + unat n} = {}" "used s1 = used s \<union> {unat p..<unat p + unat n}" by auto
  from mmap_ok [OF p(1) assms(4,5)] assms(7) have q: "inv s2" "base s2 = base s1"
    "used s1 \<inter> {unat q..<unat q + unat m} = {}" "used s2 = used s1 \<union> {unat q..<unat q + unat m}" by auto
  have dis: "{unat p..<unat p + unat n} \<inter> {unat q..<unat q + unat m} = {}" using q(3) unfolding p(6) by blast
  from ummap_ok [OF q(1) assms(2,3), of p] p q obtain s3 where
    s3: "ummap s2 p n = Ok (0, s3)" "inv s3" "used s3 = used s2 - {unat p..<unat p + unat n}" by auto
  moreover have "used s3 = used s \<union> {unat q..<unat q + unat m}" using s3(3) p(5,6) q(4) dis by auto
  ultimately show ?thesis using dis by blast
qed

end

interpretation pages: page_source alloc_inv used_pages "\<lambda>a. unat (al_start a)" arax_mmap arax_ummap
proof
  fix s and n :: u64 and p :: addr
  assume inv: "alloc_inv s" and n: "4096 dvd unat n" "0 < n"
  show "(\<exists>m. arax_mmap s n = Fault (Assert_failed m)) \<or>
      (\<exists>p s'. arax_mmap s n = Ok (p, s') \<and> alloc_inv s' \<and> unat (al_start s') = unat (al_start s) \<and>
         4096 dvd unat p - unat (al_start s) \<and> unat (al_start s) \<le> unat p \<and>
         used_pages s \<inter> {unat p..<unat p + unat n} = {} \<and> used_pages s' = used_pages s \<union> {unat p..<unat p + unat n})"
    using arax_mmap_ok [OF inv n] by (elim disjE exE conjE) auto
  show "\<exists>s'. arax_ummap s p n = Ok (0, s') \<and> alloc_inv s' \<and> unat (al_start s') = unat (al_start s) \<and>
      used_pages s' = used_pages s - {unat p..<unat p + unat n}"
    if "4096 dvd unat p - unat (al_start s)" "unat (al_start s) \<le> unat p" "{unat p..<unat p + unat n} \<subseteq> used_pages s"
    using arax_ummap_ok [OF inv n that] by auto
qed

section \<open>Properties of the allocator\<close>

text \<open>C30. \<open>arch_alloc_init_once\<close> lays the segment out without overlap: for a segment that holds the
  structure and does not wrap around the address space, the chunk array of the page bitmap, which
  starts right behind the structure, ends before the first page, pages are 4096 aligned, and the last
  page of the bitmap ends inside the segment.\<close>

theorem alloc_layout_fits:
  assumes "unat alloc + unat sz < 2 ^ 64"
    and "(unat alloc + unat inner + 4095) div 4096 * 4096 \<le> unat alloc + unat sz"
    and "alloc_layout inner alloc sz = (start, pages)"
  shows "unat alloc + unat inner + 8 * length (bm_bits (utils_bitmap_init pages)) \<le> unat start \<and>
    4096 dvd unat start \<and> unat start + 4096 * unat (utils_bitmap_size (utils_bitmap_init pages)) \<le> unat alloc + unat sz"
proof -
  define A where "A = (unat alloc + unat inner + 4095) div 4096 * 4096"
  define P where "P = (unat alloc + unat sz - A) div 4096"
  define B where "B = (P + 32767) div 32768"
  from alloc_layout_nat [OF assms] have start: "unat start = A + 4096 * B" and pages: "unat pages = P - B" and BP: "B \<le> P"
    by (simp_all only: A_def P_def B_def)
  have A: "unat alloc + unat inner \<le> A" "4096 dvd A" "A \<le> unat alloc + unat sz"
    using assms(2) by (auto simp: A_def)
  have "P < 2 ^ 52" using assms(1) by (simp add: P_def less_mult_imp_div_less)
  then have "unat pages + 63 < 2 ^ 64" using pages by simp
  then have chunks: "length (bm_bits (utils_bitmap_init pages)) = (P - B + 63) div 64"
    using pages by (simp add: utils_bitmap_init_def Let_def unat_word_ariths)
  have "8 * ((P - B + 63) div 64) \<le> 4096 * B"
  proof (cases "P = 0")
    case False
    then have "1 \<le> B" by (simp add: B_def div_greater_zero_iff)
    moreover have "P \<le> 32768 * B" unfolding B_def by simp
    ultimately have "(P - B + 63) div 64 \<le> 512 * B" by simp
    then show ?thesis by simp
  qed (simp add: B_def)
  moreover have "A + 4096 * B + 4096 * (P - B) \<le> unat alloc + unat sz"
  proof -
    have "4096 * B + 4096 * (P - B) = 4096 * P" using BP by simp
    moreover have "4096 * P \<le> unat alloc + unat sz - A" by (simp add: P_def)
    ultimately show ?thesis using A(3) by simp
  qed
  moreover have "4096 dvd A + 4096 * B" using A(2) by simp
  ultimately show ?thesis
    using A(1) chunks start pages by (simp add: utils_bitmap_size_def utils_bitmap_init_def Let_def)
qed

theorem alloc_layout_fits_witness:
  "case alloc_layout 104 8192 1048576 of (start, pages) \<Rightarrow>
     unat start = 16384 \<and> unat pages = 254 \<and> 8192 + 104 + 8 * length (bm_bits (utils_bitmap_init pages)) \<le> unat start"
proof -
  have l: "alloc_layout 104 8192 1048576 = (16384, 254)" by (simp add: alloc_layout_def Let_def block_defs)
  from alloc_layout_fits [OF _ _ l] show ?thesis by (simp add: l)
qed

text \<open>C28. Page mappings of \<open>arax_mmap\<close> are page aligned, disjoint from every page in use and stay below
  the end of the bitmap; a second mapping cannot overlap the first, and \<open>arax_ummap\<close> of the first
  gives back exactly its pages. The only failure is the assertion on an exhausted bitmap.\<close>

theorem page_mappings:
  assumes "alloc_inv a" and "4096 dvd unat s" "0 < s"
  shows "arax_mmap a s = Fault (Assert_failed ''off != BITMAP_NOT_FOUND'') \<or>
    (\<exists>p a'. arax_mmap a s = Ok (p, a') \<and> 4096 dvd unat p - unat (al_start a) \<and>
      used_pages a \<inter> {unat p..<unat p + unat s} = {} \<and> used_pages a' = used_pages a \<union> {unat p..<unat p + unat s} \<and>
      unat p + unat s \<le> unat (al_start a) + 4096 * (64 * bm_end (al_bmp a)) \<and>
      (\<forall>q a'' r. 4096 dvd unat r \<and> 0 < r \<and> arax_mmap a' r = Ok (q, a'') \<longrightarrow>
         {unat p..<unat p + unat s} \<inter> {unat q..<unat q + unat r} = {} \<and>
         (\<exists>b. arax_ummap a'' p s = Ok (0, b) \<and> used_pages b = used_pages a \<union> {unat q..<unat q + unat r})))"
proof -
  from arax_mmap_ok [OF assms] consider
      "arax_mmap a s = Fault (Assert_failed ''off != BITMAP_NOT_FOUND'')"
    | p a' where "arax_mmap a s = Ok (p, a')" "4096 dvd unat p - unat (al_start a)"
      "used_pages a \<inter> {unat p..<unat p + unat s} = {}" "used_pages a' = used_pages a \<union> {unat p..<unat p + unat s}"
      "unat p + unat s \<le> unat (al_start a) + 4096 * (64 * bm_end (al_bmp a))" by blast
  then show ?thesis
  proof cases
    case (2 p a')
    with pages.two_mappings [OF assms _ _ 2(1)] show ?thesis by blast
  qed simp
qed

theorem page_mappings_witness:
  "\<exists>a. alloc_inv a \<and> (arax_mmap a 8192 = Fault (Assert_failed ''off != BITMAP_NOT_FOUND'') \<or>
    (\<exists>p a'. arax_mmap a 8192 = Ok (p, a') \<and> used_pages a' = used_pages a \<union> {unat p..<unat p + 8192}))"
proof -
  let ?a = "\<lparr>al_root = [], al_start = 16384, al_bmp = utils_bitmap_init 128\<rparr>"
  have "alloc_inv ?a" using bm_inv_init(1) [of 128] by (simp add: alloc_inv_def utils_bitmap_init_def)
  with page_mappings [OF this, of 8192] show ?thesis by (intro exI [of _ ?a]) auto
qed

end
