(* ===== verification/Segment.thy ===== *)
theory Segment
  imports Queue Linked_List Kv Throttle Alloc
begin

text \<open>
  The data model of the shared segment: the enumerations and structures of \<open>include/arax_types.h\<close>,
  \<open>include/arax_pipe.h\<close> and the headers of \<open>src/core\<close>, and typed access to the objects in it.

  An object is its header (\<open>arax_object_s\<close>) and the rest of its structure; the live objects are a map
  from addresses. Address arithmetic inside objects is symbolic: the list nodes embedded in an
  object or in the pipe are the constructors of \<open>node\<close>. An access through a pointer to no live object,
  or to one of another kind than the cast says, is the fault \<open>Bad_access\<close>. The bytes of the data
  buffers are \<open>contents\<close>; those of a buffer nobody has written yet are whatever the memory held. The
  word in front of each buffer, the pointer back to its object, is kept apart (\<open>back_pointers\<close>,
  indexed by the address of the buffer). There is one repository, so
  the back pointers \<open>obj->repo\<close> and \<open>repo->pipe\<close> are left out.
\<close>

section \<open>Enumerations\<close>

datatype arax_object_type_e =
    ARAX_TYPE_PHYS_ACCEL
  | ARAX_TYPE_VIRT_ACCEL
  | ARAX_TYPE_PROC
  | ARAX_TYPE_DATA
  | ARAX_TYPE_TASK
  | ARAX_TYPE_COUNT

datatype arax_accel_state_e = accel_failed | accel_idle | accel_busy

datatype arax_task_state_e = task_failed | task_issued | task_completed

datatype arax_accel_ordering_e = SEQUENTIAL | PARALLEL

text \<open>Accelerator types are passed around as integers, so the end marker and beyond are values too.\<close>

type_synonym arax_accel_type_e = u32

definition ANY :: arax_accel_type_e where "ANY = 0"
definition GPU :: arax_accel_type_e where "GPU = 1"
definition GPU_SOFT :: arax_accel_type_e where "GPU_SOFT = 2"
definition CPU :: arax_accel_type_e where "CPU = 3"
definition SDA :: arax_accel_type_e where "SDA = 4"
definition NANO_ARM :: arax_accel_type_e where "NANO_ARM = 5"
definition NANO_CORE :: arax_accel_type_e where "NANO_CORE = 6"
definition OPEN_CL :: arax_accel_type_e where "OPEN_CL = 7"
definition HIP :: arax_accel_type_e where "HIP = 8"
definition ARAX_ACCEL_TYPES :: arax_accel_type_e where "ARAX_ACCEL_TYPES = 9"

section \<open>Structures\<close>

record arax_object_s =
  alloc_size :: u64
  ob_type :: arax_object_type_e
  ref_count :: u32
  ob_name :: string

record arax_accel_s =
  ac_type :: arax_accel_type_e
  ac_state :: arax_accel_state_e
  ac_lock :: async_condition_s
  ac_tasks :: u64
  revision :: u64
  ac_throttle :: arax_throttle_s
  free_vaq :: addr

record arax_vaccel_s =
  va_type :: arax_accel_type_e
  ordering :: arax_accel_ordering_e
  va_lock :: u64
  cid :: u64
  priority :: u64
  va_phys :: addr
  meta :: addr
  va_queue :: utils_queue_s

record arax_proc_s =
  canrun :: u64
  functors :: "addr list"

record arax_data_s =
  remote :: addr
  accel_meta :: addr
  da_accel :: addr
  da_size :: u64
  da_align :: u64
  flags :: u64
  buffer :: addr
  da_phys :: addr

record arax_task_msg_s =
  ta_accel :: addr
  ta_proc :: addr
  host_size :: u64
  in_count :: u32
  out_count :: u32
  ta_type :: arax_accel_type_e
  ta_state :: arax_task_state_e
  ta_started :: u64
  ta_done :: async_completion_s
  task_io :: "addr list"
  host_data :: "8 word list"

datatype arax_body =
    Accel arax_accel_s
  | Vaccel arax_vaccel_s
  | Proc arax_proc_s
  | Data arax_data_s
  | Task arax_task_msg_s

text \<open>The list nodes: heads in the pipe and in accelerators, \<open>obj.list\<close>, and \<open>vaccels\<close> of a virtual one.\<close>

datatype node =
    Repo_head arax_object_type_e
  | Orphan_head
  | Vaccels_head addr
  | Obj_node addr
  | Vac_node addr

record arax_pipe_s =
  sha :: string
  pipe_self :: addr
  shm_size :: u64
  processes :: u64
  proc_lock :: u64
  proc_map :: "u64 list"
  last_uid :: u64
  repo_lock :: "arax_object_type_e \<Rightarrow> u64"
  throttle :: arax_throttle_s
  cntrl_ready :: int
  cntrl_ready_cond :: async_condition_s
  orphan_cond :: async_condition_s
  ass_kv :: utils_kv_s
  metrics_kv :: utils_kv_s
  allocator :: arch_alloc
  lists :: "node list_heap"
  objects :: "addr \<rightharpoonup> arax_object_s \<times> arax_body"
  back_pointers :: "addr \<Rightarrow> addr"
  contents :: "addr \<Rightarrow> 8 word"

text \<open>
  What the build and the platform fix: the constants of \<open>conf.h\<close>, structure sizes, the clock and the
  mspace allocator.
\<close>

record arax_env =
  queue_capacity :: u32
  kv_capacity :: nat
  proc_map_size :: nat
  object_name_size :: nat
  sizeof_pipe :: u64
  sizeof_alloc_inner :: u64
  allocator_offset :: u64
  sizeof_accel :: u64
  sizeof_vaccel :: u64
  sizeof_proc :: u64
  sizeof_data :: u64
  sizeof_task :: u64
  git_rev :: string
  data_annotate :: bool
  realtime :: u64
  mspace :: mspace_ops

section \<open>Zeroed memory\<close>

text \<open>What \<open>memset(obj + 1, 0, ...)\<close> leaves behind, for each kind of object.\<close>

definition zero_cond :: async_condition_s where
  "zero_cond = \<lparr>cond_mutex = \<lparr>compl_mutex = False\<rparr>\<rparr>"

definition zero_queue :: "u32 \<Rightarrow> utils_queue_s" where
  "zero_queue cap = \<lparr>q_entries = replicate (unat cap) 0, q_lock = 0, q_bottom = 0, q_top = 0\<rparr>"

fun zero_body :: "arax_env \<Rightarrow> arax_object_type_e \<Rightarrow> arax_body" where
  "zero_body env ARAX_TYPE_PHYS_ACCEL = Accel \<lparr>ac_type = ANY, ac_state = accel_failed, ac_lock = zero_cond,
     ac_tasks = 0, revision = 0, ac_throttle = \<lparr>available = 0, capacity = 0, ready = zero_cond\<rparr>, free_vaq = 0\<rparr>"
| "zero_body env ARAX_TYPE_VIRT_ACCEL = Vaccel \<lparr>va_type = ANY, ordering = SEQUENTIAL, va_lock = 0, cid = 0,
     priority = 0, va_phys = 0, meta = 0, va_queue = zero_queue (queue_capacity env)\<rparr>"
| "zero_body env ARAX_TYPE_PROC = Proc \<lparr>canrun = 0, functors = replicate (unat ARAX_ACCEL_TYPES) 0\<rparr>"
| "zero_body env ARAX_TYPE_TASK = Task \<lparr>ta_accel = 0, ta_proc = 0, host_size = 0, in_count = 0, out_count = 0,
     ta_type = ANY, ta_state = task_failed, ta_started = 0, ta_done = \<lparr>compl_mutex = False\<rparr>, task_io = [], host_data = []\<rparr>"
| "zero_body env _ = Data \<lparr>remote = 0, accel_meta = 0, da_accel = 0, da_size = 0, da_align = 0, flags = 0,
     buffer = 0, da_phys = 0\<rparr>"

section \<open>Typed access\<close>

definition get_obj :: "addr \<Rightarrow> arax_pipe_s \<Rightarrow> arax_object_s res" where
  "get_obj a s = (case objects s a of Some (h, _) \<Rightarrow> Ok h | None \<Rightarrow> Fault (Bad_access ''arax_object_s''))"

definition get_accel :: "addr \<Rightarrow> arax_pipe_s \<Rightarrow> arax_accel_s res" where
  "get_accel a s = (case objects s a of Some (_, Accel b) \<Rightarrow> Ok b | _ \<Rightarrow> Fault (Bad_access ''arax_accel_s''))"

definition get_vaccel :: "addr \<Rightarrow> arax_pipe_s \<Rightarrow> arax_vaccel_s res" where
  "get_vaccel a s = (case objects s a of Some (_, Vaccel b) \<Rightarrow> Ok b | _ \<Rightarrow> Fault (Bad_access ''arax_vaccel_s''))"

definition get_proc :: "addr \<Rightarrow> arax_pipe_s \<Rightarrow> arax_proc_s res" where
  "get_proc a s = (case objects s a of Some (_, Proc b) \<Rightarrow> Ok b | _ \<Rightarrow> Fault (Bad_access ''arax_proc_s''))"

definition get_data :: "addr \<Rightarrow> arax_pipe_s \<Rightarrow> arax_data_s res" where
  "get_data a s = (case objects s a of Some (_, Data b) \<Rightarrow> Ok b | _ \<Rightarrow> Fault (Bad_access ''arax_data_s''))"

definition get_task :: "addr \<Rightarrow> arax_pipe_s \<Rightarrow> arax_task_msg_s res" where
  "get_task a s = (case objects s a of Some (_, Task b) \<Rightarrow> Ok b | _ \<Rightarrow> Fault (Bad_access ''arax_task_msg_s''))"

definition set_obj :: "addr \<Rightarrow> arax_object_s \<Rightarrow> arax_pipe_s \<Rightarrow> arax_pipe_s" where
  "set_obj a h s = s\<lparr>objects := (objects s)(a := map_option (\<lambda>(_, b). (h, b)) (objects s a))\<rparr>"

definition set_body :: "addr \<Rightarrow> arax_body \<Rightarrow> arax_pipe_s \<Rightarrow> arax_pipe_s" where
  "set_body a b s = s\<lparr>objects := (objects s)(a := map_option (\<lambda>(h, _). (h, b)) (objects s a))\<rparr>"

text \<open>Reads and writes of the bytes of buffers, at addresses that wrap around.\<close>

definition read_bytes :: "addr \<Rightarrow> nat \<Rightarrow> arax_pipe_s \<Rightarrow> 8 word list" where
  "read_bytes a n s = map (\<lambda>i. contents s (a + of_nat i)) [0..<n]"

definition write_bytes :: "addr \<Rightarrow> 8 word list \<Rightarrow> arax_pipe_s \<Rightarrow> arax_pipe_s" where
  "write_bytes a bs s =
     s\<lparr>contents := (\<lambda>x. if unat (x - a) < length bs then bs ! unat (x - a) else contents s x)\<rparr>"

lemma length_read_bytes [simp]: "length (read_bytes a n s) = n"
  by (simp add: read_bytes_def)

lemma read_write_bytes:
  assumes "length bs \<le> 2 ^ 64"
  shows "read_bytes a (length bs) (write_bytes a bs s) = bs"
proof (rule nth_equalityI)
  fix i
  assume "i < length (read_bytes a (length bs) (write_bytes a bs s))"
  then have i: "i < length bs" by simp
  then have "unat (of_nat i :: addr) = i" using assms by (simp add: unat_of_nat take_bit_nat_eq_self)
  then show "read_bytes a (length bs) (write_bytes a bs s) ! i = bs ! i" using i
    by (simp add: read_bytes_def write_bytes_def)
qed simp

lemma get_obj_Ok [res_simps]: "get_obj a s = Ok h \<longleftrightarrow> (\<exists>b. objects s a = Some (h, b))"
  by (auto simp: get_obj_def split: option.splits)

lemma get_accel_Ok [res_simps]: "get_accel a s = Ok b \<longleftrightarrow> (\<exists>h. objects s a = Some (h, Accel b))"
  by (auto simp: get_accel_def split: option.splits arax_body.splits)

lemma get_vaccel_Ok [res_simps]: "get_vaccel a s = Ok b \<longleftrightarrow> (\<exists>h. objects s a = Some (h, Vaccel b))"
  by (auto simp: get_vaccel_def split: option.splits arax_body.splits)

lemma get_proc_Ok [res_simps]: "get_proc a s = Ok b \<longleftrightarrow> (\<exists>h. objects s a = Some (h, Proc b))"
  by (auto simp: get_proc_def split: option.splits arax_body.splits)

lemma get_data_Ok [res_simps]: "get_data a s = Ok b \<longleftrightarrow> (\<exists>h. objects s a = Some (h, Data b))"
  by (auto simp: get_data_def split: option.splits arax_body.splits)

lemma get_task_Ok [res_simps]: "get_task a s = Ok b \<longleftrightarrow> (\<exists>h. objects s a = Some (h, Task b))"
  by (auto simp: get_task_def split: option.splits arax_body.splits)

lemma set_body_fields [simp]:
  "lists (set_body a b s) = lists s" "throttle (set_body a b s) = throttle s"
  "repo_lock (set_body a b s) = repo_lock s" "allocator (set_body a b s) = allocator s"
  "orphan_cond (set_body a b s) = orphan_cond s" "dom (objects (set_body a b s)) = dom (objects s)"
  by (auto simp: set_body_def split: if_splits)

lemma set_obj_fields [simp]:
  "lists (set_obj a h s) = lists s" "throttle (set_obj a h s) = throttle s"
  "repo_lock (set_obj a h s) = repo_lock s" "allocator (set_obj a h s) = allocator s"
  "orphan_cond (set_obj a h s) = orphan_cond s" "dom (objects (set_obj a h s)) = dom (objects s)"
  by (auto simp: set_obj_def split: if_splits)

end
