(* ===== verification/Object.thy ===== *)
theory Object
  imports Segment
begin

text \<open>
  \<open>src/core/arax_object.c\<close>: the repository of reference counted objects. Every object is on the list
  of its type, its size is charged to the throttle of the pipe, and the drop of its last reference
  takes it off the list, runs its destructor and gives its memory and its share of the throttle back.

  The destructors (\<open>dtor_table\<close>) belong to other components; here they are a parameter, and the
  recursion through them is closed in theory \<open>Destructors\<close>.
\<close>

section \<open>The operations\<close>

definition arax_pipe_size_inc :: "u64 \<Rightarrow> arax_pipe_s \<Rightarrow> arax_pipe_s res" where
  "arax_pipe_size_inc sz s = rbind (arax_throttle_size_inc (throttle s) sz) (\<lambda>t. Ok (s\<lparr>throttle := t\<rparr>))"

definition arax_pipe_size_dec :: "u64 \<Rightarrow> arax_pipe_s \<Rightarrow> arax_pipe_s res" where
  "arax_pipe_size_dec sz s = rbind (arax_throttle_size_dec (throttle s) sz) (\<lambda>t. Ok (s\<lparr>throttle := t\<rparr>))"

definition object_types :: "arax_object_type_e list" where
  "object_types = [ARAX_TYPE_PHYS_ACCEL, ARAX_TYPE_VIRT_ACCEL, ARAX_TYPE_PROC, ARAX_TYPE_DATA, ARAX_TYPE_TASK]"

definition arax_object_repo_init :: "arax_pipe_s \<Rightarrow> arax_pipe_s" where
  "arax_object_repo_init s =
     fold (\<lambda>r s. s\<lparr>lists := utils_list_init (lists s) (Repo_head r) 0,
                   repo_lock := (repo_lock s)(r := utils_spinlock_init)\<rparr>) object_types s"

text \<open>The number of objects still registered, as \<open>int\<close>; the messages are not modelled.\<close>

definition arax_object_repo_exit :: "arax_pipe_s \<Rightarrow> u32" where
  "arax_object_repo_exit s =
     fold (\<lambda>r failed. failed + ucast (ls_length (lists s) (Repo_head r))) object_types 0"

fun arax_object_type_to_str :: "arax_object_type_e \<Rightarrow> string option" where
  "arax_object_type_to_str ARAX_TYPE_PHYS_ACCEL = Some ''Phys.Accel''"
| "arax_object_type_to_str ARAX_TYPE_VIRT_ACCEL = Some ''Virt.Accel''"
| "arax_object_type_to_str ARAX_TYPE_PROC = Some ''Procedures''"
| "arax_object_type_to_str ARAX_TYPE_DATA = Some ''Arax--Data''"
| "arax_object_type_to_str ARAX_TYPE_TASK = Some ''Arax-Tasks''"
| "arax_object_type_to_str ARAX_TYPE_COUNT = None"

text \<open>\<open>snprintf(obj->name, ARAX_OBJECT_NAME_SIZE, ...)\<close> keeps all but one byte for the text.\<close>

definition object_name :: "arax_env \<Rightarrow> string \<Rightarrow> string" where
  "object_name env name = take (object_name_size env - 1) name"

definition arax_object_list_lock :: "arax_object_type_e \<Rightarrow> arax_pipe_s \<Rightarrow> arax_pipe_s res" where
  "arax_object_list_lock ty s =
     rbind (utils_spinlock_lock (repo_lock s ty)) (\<lambda>l. Ok (s\<lparr>repo_lock := (repo_lock s)(ty := l)\<rparr>))"

definition arax_object_list_unlock :: "arax_object_type_e \<Rightarrow> arax_pipe_s \<Rightarrow> arax_pipe_s res" where
  "arax_object_list_unlock ty s =
     rbind (utils_spinlock_unlock (repo_lock s ty)) (\<lambda>l. Ok (s\<lparr>repo_lock := (repo_lock s)(ty := l)\<rparr>))"

text \<open>
  \<open>arax_object_register\<close>. The \<open>memset\<close> of the body comes last in the C code; nothing before it reads the
  body, so the model creates the object with its body zeroed.
\<close>

definition arax_object_register ::
  "arax_env \<Rightarrow> arax_object_type_e \<Rightarrow> string \<Rightarrow> u64 \<Rightarrow> u32 \<Rightarrow> arax_pipe_s \<Rightarrow> (addr \<times> arax_pipe_s) res" where
  "arax_object_register env ty name sz refs s =
     rbind (arax_pipe_size_dec sz s) (\<lambda>s.
     rbind (arch_alloc_allocate (mspace env) (allocator s) sz) (\<lambda>(obj, al).
     let s = s\<lparr>allocator := al\<rparr> in
     if obj = 0 then Ok (0, s)
     else
       let h = \<lparr>alloc_size = sz, ob_type = ty, ref_count = refs, ob_name = object_name env name\<rparr>;
           s = s\<lparr>objects := (objects s)(obj \<mapsto> (h, zero_body env ty)),
                 lists := utils_list_node_init (lists s) (Obj_node obj) obj\<rparr> in
       rbind (arax_object_list_lock ty s) (\<lambda>s.
       let s = s\<lparr>lists := utils_list_add (lists s) (Repo_head ty) (Obj_node obj)\<rparr> in
       rbind (arax_object_list_unlock ty s) (\<lambda>s. Ok (obj, s)))))"

definition arax_object_rename :: "arax_env \<Rightarrow> addr \<Rightarrow> string \<Rightarrow> arax_pipe_s \<Rightarrow> arax_pipe_s res" where
  "arax_object_rename env obj txt s =
     rbind (get_obj obj s) (\<lambda>h. Ok (set_obj obj (h\<lparr>ob_name := object_name env txt\<rparr>) s))"

definition arax_object_ref_inc :: "addr \<Rightarrow> arax_pipe_s \<Rightarrow> arax_pipe_s res" where
  "arax_object_ref_inc obj s =
     rbind (arax_assert (obj \<noteq> 0) ''obj'') (\<lambda>_.
     rbind (get_obj obj s) (\<lambda>h.
     rbind (arax_assert (ob_type h \<noteq> ARAX_TYPE_COUNT) ''obj->type < ARAX_TYPE_COUNT'') (\<lambda>_.
     rbind (arax_assert (sint (ref_count h) \<ge> 0) ''obj->ref_count >= 0'') (\<lambda>_.
     Ok (set_obj obj (h\<lparr>ref_count := ref_count h + 1\<rparr>) s)))))"

text \<open>The end of an object: its destructor, then its memory, then its share of the throttle.\<close>

definition object_reclaim ::
  "arax_env \<Rightarrow> (arax_object_type_e \<Rightarrow> addr \<Rightarrow> arax_pipe_s \<Rightarrow> arax_pipe_s res) \<Rightarrow> arax_object_type_e \<Rightarrow> addr \<Rightarrow>
     arax_pipe_s \<Rightarrow> arax_pipe_s res" where
  "object_reclaim env dtor_table ty obj s =
     rbind (dtor_table ty obj s) (\<lambda>s.
     rbind (get_obj obj s) (\<lambda>h.
     rbind (arch_alloc_free (mspace env) (allocator s) obj) (\<lambda>(_, al).
     arax_pipe_size_inc (alloc_size h) (s\<lparr>allocator := al, objects := (objects s)(obj := None)\<rparr>))))"

definition arax_object_ref_dec_with ::
  "arax_env \<Rightarrow> (arax_object_type_e \<Rightarrow> addr \<Rightarrow> arax_pipe_s \<Rightarrow> arax_pipe_s res) \<Rightarrow> addr \<Rightarrow>
     arax_pipe_s \<Rightarrow> (u32 \<times> arax_pipe_s) res" where
  "arax_object_ref_dec_with env dtor_table obj s =
     rbind (arax_assert (obj \<noteq> 0) ''obj'') (\<lambda>_.
     rbind (get_obj obj s) (\<lambda>h.
     rbind (arax_assert (ob_type h \<noteq> ARAX_TYPE_COUNT) ''obj->type < ARAX_TYPE_COUNT'') (\<lambda>_.
     rbind (arax_assert (sint (ref_count h) > 0) ''obj->ref_count > 0'') (\<lambda>_.
     rbind (arax_object_list_lock (ob_type h) s) (\<lambda>s.
     let refs = ref_count h - 1;
         s = set_obj obj (h\<lparr>ref_count := refs\<rparr>) s in
     if refs = 0 then
       (let s = s\<lparr>lists := utils_list_del (lists s) (Repo_head (ob_type h)) (Obj_node obj)\<rparr> in
        rbind (arax_object_list_unlock (ob_type h) s) (\<lambda>s.
        rbind (object_reclaim env dtor_table (ob_type h) obj s) (\<lambda>s. Ok (refs, s))))
     else rbind (arax_object_list_unlock (ob_type h) s) (\<lambda>s. Ok (refs, s)))))))"

definition arax_object_ref_dec_pre_locked_with ::
  "arax_env \<Rightarrow> (arax_object_type_e \<Rightarrow> addr \<Rightarrow> arax_pipe_s \<Rightarrow> arax_pipe_s res) \<Rightarrow> addr \<Rightarrow>
     arax_pipe_s \<Rightarrow> (u32 \<times> arax_pipe_s) res" where
  "arax_object_ref_dec_pre_locked_with env dtor_table obj s =
     rbind (get_obj obj s) (\<lambda>h.
     let refs = ref_count h - 1;
         s = set_obj obj (h\<lparr>ref_count := refs\<rparr>) s in
     rbind
       (if refs = 0 then
          (let s = s\<lparr>lists := utils_list_del (lists s) (Repo_head (ob_type h)) (Obj_node obj)\<rparr> in
           object_reclaim env dtor_table (ob_type h) obj s)
        else Ok s) (\<lambda>s.
     rbind (arax_assert (sint refs \<ge> 0) ''refs >= 0'') (\<lambda>_. Ok (refs, s))))"

definition arax_object_refs :: "addr \<Rightarrow> arax_pipe_s \<Rightarrow> u32 res" where
  "arax_object_refs obj s = rbind (get_obj obj s) (\<lambda>h. Ok (ref_count h))"

end
