(* ===== verification/Pipe.thy ===== *)
theory Pipe
  imports Object
begin

text \<open>
  \<open>src/core/arax_pipe.c\<close>: the shared segment itself. Initialisation by the first process, the list of
  orphan virtual accelerators, the process counter and the table of mapped processes, and the
  lookups in the object repository.
\<close>

section \<open>Initialisation\<close>

text \<open>
  \<open>arax_pipe_init(mem, size, enforce_version)\<close>. \<open>s\<close> is the memory at \<open>mem\<close>, all zero for a fresh
  segment. The result is the pipe or null. \<open>ARAX_PIPE_SHA_SIZE\<close> is 48: the first byte of the revision
  is written last and at most 46 follow it.
\<close>

definition arax_pipe_add_process :: "arax_pipe_s \<Rightarrow> u64 \<times> arax_pipe_s" where
  "arax_pipe_add_process s = (processes s, s\<lparr>processes := processes s + 1\<rparr>)"

definition arax_pipe_del_process :: "arax_pipe_s \<Rightarrow> u64 \<times> arax_pipe_s" where
  "arax_pipe_del_process s = (processes s, s\<lparr>processes := processes s - 1\<rparr>)"

definition arax_pipe_init :: "arax_env \<Rightarrow> addr \<Rightarrow> u64 \<Rightarrow> bool \<Rightarrow> arax_pipe_s \<Rightarrow> (addr \<times> arax_pipe_s) res" where
  "arax_pipe_init env mem sz enforce_version s =
     (let (v, s) = arax_pipe_add_process s in
      if v \<noteq> 0 then
        (if sha s = [] then Fault (Blocked ''while (!pipe->sha[0])'')
         else if sha s \<noteq> git_rev env \<and> enforce_version then Ok (0, s)
         else Ok (mem, s\<lparr>allocator := arch_alloc_init_always (allocator s)\<rparr>))
      else
        let s = s\<lparr>shm_size := sz\<rparr>;
            s = s\<lparr>sha := take 1 (git_rev env) @ take 46 (drop 1 (git_rev env))\<rparr>;
            s = arax_object_repo_init s;
            sz = sz - sizeof_pipe env in
        rbind (arch_alloc_init_once (mspace env) (sizeof_alloc_inner env) (mem + allocator_offset env) sz) (\<lambda>(r, al).
        let s = s\<lparr>allocator := al\<rparr> in
        if r \<noteq> 0 then Ok (0, s)
        else
          let s = s\<lparr>lists := utils_list_init (lists s) Orphan_head 0\<rparr> in
          rbind async_condition_init (\<lambda>c1.
          rbind async_condition_init (\<lambda>c2.
          rbind (arax_throttle_init sz sz) (\<lambda>t.
          Ok (mem, s\<lparr>cntrl_ready_cond := c1, orphan_cond := c2, throttle := t,
                     ass_kv := utils_kv_init (kv_capacity env), metrics_kv := utils_kv_init (kv_capacity env)\<rparr>))))))"

definition arax_pipe_get_revision :: "arax_pipe_s \<Rightarrow> string" where
  "arax_pipe_get_revision s = sha s"

text \<open>The state of a segment that was never used: zero bytes.\<close>

definition zero_pipe :: "arax_env \<Rightarrow> arax_pipe_s" where
  "zero_pipe env =
     \<lparr>sha = [], pipe_self = 0, shm_size = 0, processes = 0, proc_lock = 0,
      proc_map = replicate (proc_map_size env) 0, last_uid = 0, repo_lock = (\<lambda>_. 0),
      throttle = \<lparr>available = 0, capacity = 0, ready = zero_cond\<rparr>, cntrl_ready = 0,
      cntrl_ready_cond = zero_cond, orphan_cond = zero_cond,
      ass_kv = \<lparr>kv_cells = replicate (kv_capacity env) (0, 0), kv_pairs = 0, kv_lock = 0\<rparr>,
      metrics_kv = \<lparr>kv_cells = replicate (kv_capacity env) (0, 0), kv_pairs = 0, kv_lock = 0\<rparr>,
      allocator = \<lparr>al_root = [], al_start = 0, al_bmp = utils_bitmap_init 0\<rparr>,
      lists = \<lparr>nd_next = id, nd_prev = id, nd_owner = (\<lambda>_. 0), ls_length = (\<lambda>_. 0)\<rparr>,
      objects = Map.empty, back_pointers = (\<lambda>_. 0), contents = (\<lambda>_. 0)\<rparr>"

section \<open>Orphan virtual accelerators\<close>

definition arax_pipe_add_orphan_vaccel :: "addr \<Rightarrow> arax_pipe_s \<Rightarrow> arax_pipe_s res" where
  "arax_pipe_add_orphan_vaccel vac s =
     rbind (get_vaccel vac s) (\<lambda>v.
     rbind (arax_assert (va_phys v = 0) ''vac->phys == 0'') (\<lambda>_.
     rbind (async_condition_lock (orphan_cond s)) (\<lambda>c.
     Ok (s\<lparr>lists := utils_list_add (lists s) Orphan_head (Vac_node vac),
           orphan_cond := async_condition_unlock (async_condition_notify c)\<rparr>))))"

text \<open>The length is returned as \<open>int\<close>.\<close>

definition arax_pipe_have_orphan_vaccels :: "arax_pipe_s \<Rightarrow> u32" where
  "arax_pipe_have_orphan_vaccels s = ucast (ls_length (lists s) Orphan_head)"

definition arax_pipe_get_orphan_vaccel :: "arax_pipe_s \<Rightarrow> (addr \<times> arax_pipe_s) res" where
  "arax_pipe_get_orphan_vaccel s =
     rbind (async_condition_lock (orphan_cond s)) (\<lambda>c.
     rbind (if arax_pipe_have_orphan_vaccels s = 0 then async_condition_wait c else Ok c) (\<lambda>c.
     let (lvac, h) = utils_list_pop_head (lists s) Orphan_head;
         s = s\<lparr>lists := h, orphan_cond := async_condition_unlock c\<rparr> in
     case lvac of
       None \<Rightarrow> Ok (0, s)
     | Some n \<Rightarrow>
         let vac = nd_owner h n in
         rbind (get_vaccel vac s) (\<lambda>v.
         rbind (arax_assert (va_phys v = 0) ''vac->phys == 0'') (\<lambda>_. Ok (vac, s)))))"

definition arax_pipe_remove_orphan_vaccel :: "addr \<Rightarrow> arax_pipe_s \<Rightarrow> arax_pipe_s res" where
  "arax_pipe_remove_orphan_vaccel vac s =
     rbind (get_vaccel vac s) (\<lambda>_.
     rbind (async_condition_lock (orphan_cond s)) (\<lambda>c.
     let h = (if utils_list_node_linked (lists s) (Vac_node vac)
              then utils_list_del (lists s) Orphan_head (Vac_node vac) else lists s) in
     Ok (s\<lparr>lists := h, orphan_cond := async_condition_unlock c\<rparr>)))"

definition arax_pipe_orphan_stop :: "arax_pipe_s \<Rightarrow> arax_pipe_s res" where
  "arax_pipe_orphan_stop s =
     rbind (async_condition_lock (orphan_cond s)) (\<lambda>c.
     Ok (s\<lparr>orphan_cond := async_condition_unlock (async_condition_notify c)\<rparr>))"

section \<open>Processes and mappings\<close>

text \<open>
  The scan of \<open>arax_pipe_have_to_mmap\<close>: the result and the table. A \<open>pid\<close> is an \<open>int\<close>, the cells are
  \<open>uint64_t\<close>.
\<close>

fun mmap_scan :: "u64 \<Rightarrow> u64 list \<Rightarrow> bool \<times> u64 list" where
  "mmap_scan pid [] = (True, [])"
| "mmap_scan pid (c # cs) =
     (if c = pid then (False, c # cs)
      else if c = 0 then (True, pid # cs)
      else map_prod id ((#) c) (mmap_scan pid cs))"

definition arax_pipe_have_to_mmap :: "u32 \<Rightarrow> arax_pipe_s \<Rightarrow> (bool \<times> arax_pipe_s) res" where
  "arax_pipe_have_to_mmap pid s =
     rbind (arax_assert (pid \<noteq> 0) ''pid'') (\<lambda>_.
     rbind (utils_spinlock_lock (proc_lock s)) (\<lambda>l.
     let (have_to_mmap, cells) = mmap_scan (scast pid) (proc_map s) in
     rbind (utils_spinlock_unlock l) (\<lambda>l.
     Ok (have_to_mmap, s\<lparr>proc_map := cells, proc_lock := l\<rparr>))))"

text \<open>\<open>memmove(cells + c, cells + c + 1, n)\<close> with \<open>n\<close> bytes, on a little endian machine.\<close>

definition move_cell :: "u64 list \<Rightarrow> nat \<Rightarrow> nat \<Rightarrow> u64" where
  "move_cell cells bytes i =
     (if 8 \<le> bytes then cells ! Suc i
      else (cells ! i AND NOT (mask (8 * bytes))) OR (cells ! Suc i AND mask (8 * bytes)))"

definition memmove_cells :: "u64 list \<Rightarrow> nat \<Rightarrow> nat \<Rightarrow> u64 list" where
  "memmove_cells cells c n =
     map (\<lambda>i. if c \<le> i \<and> 8 * (i - c) < n then move_cell cells (n - 8 * (i - c)) i else cells ! i) [0..<length cells]"

definition arax_pipe_mark_unmap :: "arax_env \<Rightarrow> u32 \<Rightarrow> arax_pipe_s \<Rightarrow> arax_pipe_s res" where
  "arax_pipe_mark_unmap env pid s =
     rbind (arax_assert (pid \<noteq> 0) ''pid'') (\<lambda>_.
     rbind (utils_spinlock_lock (proc_lock s)) (\<lambda>l.
     let c = length (takeWhile (\<lambda>x. x \<noteq> scast pid) (proc_map s)) in
     rbind (arax_assert (c < proc_map_size env) ''c < ARAX_PROC_MAP_SIZE'') (\<lambda>_.
     let cells = memmove_cells (proc_map s) c (proc_map_size env - (c + 1));
         cells = cells[proc_map_size env - 1 := 0] in
     rbind (utils_spinlock_unlock l) (\<lambda>l. Ok (s\<lparr>proc_map := cells, proc_lock := l\<rparr>)))))"

definition arax_pipe_mmap_address :: "addr \<Rightarrow> arax_pipe_s \<Rightarrow> addr \<times> arax_pipe_s" where
  "arax_pipe_mmap_address pipe s =
     (if pipe_self s = 0 then (pipe, s\<lparr>pipe_self := pipe\<rparr>) else (pipe_self s, s))"

section \<open>Lookups\<close>

text \<open>The objects a \<open>utils_list_for_each\<close> over a repository list visits, by their owners.\<close>

definition repo_objects :: "arax_object_type_e \<Rightarrow> arax_pipe_s \<Rightarrow> addr list res" where
  "repo_objects ty s =
     (case utils_list_for_each (lists s) (Repo_head ty) of
        None \<Rightarrow> Fault (Deadlock ''utils_list_for_each'')
      | Some ns \<Rightarrow> Ok (map (nd_owner (lists s)) ns))"

fun find_first :: "(addr \<Rightarrow> bool res) \<Rightarrow> addr list \<Rightarrow> addr res" where
  "find_first p [] = Ok 0"
| "find_first p (a # as) = rbind (p a) (\<lambda>hit. if hit then Ok a else find_first p as)"

definition arax_pipe_delete_accel_with ::
  "(addr \<Rightarrow> arax_pipe_s \<Rightarrow> (u32 \<times> arax_pipe_s) res) \<Rightarrow> addr \<Rightarrow> arax_pipe_s \<Rightarrow> (int \<times> arax_pipe_s) res" where
  "arax_pipe_delete_accel_with ref_dec accel s =
     rbind (arax_object_list_lock ARAX_TYPE_PHYS_ACCEL s) (\<lambda>s.
     rbind (repo_objects ARAX_TYPE_PHYS_ACCEL s) (\<lambda>as.
     rbind (arax_object_list_unlock ARAX_TYPE_PHYS_ACCEL s) (\<lambda>s.
     if accel \<in> set as then rbind (ref_dec accel s) (\<lambda>(_, s). Ok (0, s)) else Ok (1, s))))"

text \<open>\<open>name\<close> is \<open>None\<close> when the caller passes null.\<close>

definition arax_pipe_find_accel :: "string option \<Rightarrow> arax_accel_type_e \<Rightarrow> arax_pipe_s \<Rightarrow> (addr \<times> arax_pipe_s) res" where
  "arax_pipe_find_accel name ty s =
     rbind (arax_object_list_lock ARAX_TYPE_PHYS_ACCEL s) (\<lambda>s.
     rbind (repo_objects ARAX_TYPE_PHYS_ACCEL s) (\<lambda>as.
     rbind (find_first (\<lambda>a. rbind (get_accel a s) (\<lambda>ac. rbind (get_obj a s) (\<lambda>h.
         Ok (\<not> (ty \<noteq> ANY \<and> ty \<noteq> ac_type ac) \<and> (name = None \<or> name = Some (ob_name h)))))) as) (\<lambda>accel.
     rbind (arax_object_list_unlock ARAX_TYPE_PHYS_ACCEL s) (\<lambda>s. Ok (accel, s)))))"

definition arax_pipe_find_proc :: "string \<Rightarrow> arax_pipe_s \<Rightarrow> (addr \<times> arax_pipe_s) res" where
  "arax_pipe_find_proc name s =
     rbind (arax_object_list_lock ARAX_TYPE_PROC s) (\<lambda>s.
     rbind (repo_objects ARAX_TYPE_PROC s) (\<lambda>as.
     rbind (find_first (\<lambda>a. rbind (get_obj a s) (\<lambda>h. Ok (name = ob_name h))) as) (\<lambda>proc.
     rbind (arax_object_list_unlock ARAX_TYPE_PROC s) (\<lambda>s. Ok (proc, s)))))"

text \<open>\<open>arax_pipe_exit\<close> is true for the last process, which also tears the allocator down.\<close>

definition arax_pipe_exit :: "arax_env \<Rightarrow> arax_pipe_s \<Rightarrow> (bool \<times> arax_pipe_s) res" where
  "arax_pipe_exit env s =
     (let (n, s) = arax_pipe_del_process s in
      if n = 1 then
        let _ = arax_object_repo_exit s in
        rbind (arch_alloc_exit (mspace env) (allocator s)) (\<lambda>al. Ok (True, s\<lparr>allocator := al\<rparr>))
      else Ok (False, s))"

definition arax_pipe_get_available_size :: "arax_pipe_s \<Rightarrow> u64" where
  "arax_pipe_get_available_size s = arax_throttle_get_available_size (throttle s)"

definition arax_pipe_get_total_size :: "arax_pipe_s \<Rightarrow> u64" where
  "arax_pipe_get_total_size s = arax_throttle_get_total_size (throttle s)"

end
