(* ===== verification/Accel.thy ===== *)
theory Accel
  imports Pipe
begin

text \<open>
  \<open>src/core/arax_accel.c\<close> and \<open>src/core/arax_vaccel.c\<close>: physical accelerators, each with the list of the
  virtual accelerators assigned to it and a count of their pending tasks, and virtual accelerators,
  each with a task queue, which are either assigned to an accelerator or orphans of the pipe.

  The two files call each other, so they share a theory. Locks are taken in the order of the code:
  the spinlock of the virtual accelerator, then the condition of the physical one.
\<close>

section \<open>Physical accelerators\<close>

definition mod_accel :: "addr \<Rightarrow> (arax_accel_s \<Rightarrow> arax_accel_s) \<Rightarrow> arax_pipe_s \<Rightarrow> arax_pipe_s res" where
  "mod_accel a f s = rbind (get_accel a s) (\<lambda>b. Ok (set_body a (Accel (f b)) s))"

definition mod_vaccel :: "addr \<Rightarrow> (arax_vaccel_s \<Rightarrow> arax_vaccel_s) \<Rightarrow> arax_pipe_s \<Rightarrow> arax_pipe_s res" where
  "mod_vaccel a f s = rbind (get_vaccel a s) (\<lambda>b. Ok (set_body a (Vaccel (f b)) s))"

definition accel_lock :: "addr \<Rightarrow> arax_pipe_s \<Rightarrow> arax_pipe_s res" where
  "accel_lock accel s =
     rbind (get_accel accel s) (\<lambda>a.
     rbind (async_condition_lock (ac_lock a)) (\<lambda>c. Ok (set_body accel (Accel (a\<lparr>ac_lock := c\<rparr>)) s)))"

definition accel_unlock :: "addr \<Rightarrow> arax_pipe_s \<Rightarrow> arax_pipe_s res" where
  "accel_unlock accel s = mod_accel accel (\<lambda>a. a\<lparr>ac_lock := async_condition_unlock (ac_lock a)\<rparr>) s"

definition accel_notify :: "addr \<Rightarrow> arax_pipe_s \<Rightarrow> arax_pipe_s res" where
  "accel_notify accel s = mod_accel accel (\<lambda>a. a\<lparr>ac_lock := async_condition_notify (ac_lock a)\<rparr>) s"

definition vaccel_lock :: "addr \<Rightarrow> arax_pipe_s \<Rightarrow> arax_pipe_s res" where
  "vaccel_lock vac s =
     rbind (get_vaccel vac s) (\<lambda>v.
     rbind (utils_spinlock_lock (va_lock v)) (\<lambda>l. Ok (set_body vac (Vaccel (v\<lparr>va_lock := l\<rparr>)) s)))"

definition vaccel_unlock :: "addr \<Rightarrow> arax_pipe_s \<Rightarrow> arax_pipe_s res" where
  "vaccel_unlock vac s =
     rbind (get_vaccel vac s) (\<lambda>v.
     rbind (utils_spinlock_unlock (va_lock v)) (\<lambda>l. Ok (set_body vac (Vaccel (v\<lparr>va_lock := l\<rparr>)) s)))"

definition arax_accel_wait_for_task :: "addr \<Rightarrow> arax_pipe_s \<Rightarrow> arax_pipe_s res" where
  "arax_accel_wait_for_task accel s =
     rbind (accel_lock accel s) (\<lambda>s.
     rbind (get_accel accel s) (\<lambda>a.
     rbind (if ac_tasks a = 0 then async_condition_wait (ac_lock a) else Ok (ac_lock a)) (\<lambda>c.
     rbind (mod_accel accel (\<lambda>a. a\<lparr>ac_lock := c, ac_tasks := ac_tasks a - 1\<rparr>) s) (\<lambda>s.
     accel_unlock accel s))))"

definition arax_accel_add_task :: "addr \<Rightarrow> arax_pipe_s \<Rightarrow> arax_pipe_s res" where
  "arax_accel_add_task accel s =
     rbind (accel_lock accel s) (\<lambda>s.
     rbind (mod_accel accel (\<lambda>a. a\<lparr>ac_tasks := ac_tasks a + 1\<rparr>) s) (\<lambda>s.
     rbind (accel_notify accel s) (\<lambda>s. accel_unlock accel s)))"

definition arax_accel_pending_tasks :: "addr \<Rightarrow> arax_pipe_s \<Rightarrow> u64 res" where
  "arax_accel_pending_tasks accel s = rbind (get_accel accel s) (\<lambda>a. Ok (ac_tasks a))"

definition arax_accel_size_inc :: "addr \<Rightarrow> u64 \<Rightarrow> arax_pipe_s \<Rightarrow> arax_pipe_s res" where
  "arax_accel_size_inc accel sz s =
     rbind (get_accel accel s) (\<lambda>phys.
     rbind (arax_throttle_size_inc (ac_throttle phys) sz) (\<lambda>t. Ok (set_body accel (Accel (phys\<lparr>ac_throttle := t\<rparr>)) s)))"

definition arax_accel_size_dec :: "addr \<Rightarrow> u64 \<Rightarrow> arax_pipe_s \<Rightarrow> arax_pipe_s res" where
  "arax_accel_size_dec accel sz s =
     rbind (get_accel accel s) (\<lambda>phys.
     rbind (arax_throttle_size_dec (ac_throttle phys) sz) (\<lambda>t. Ok (set_body accel (Accel (phys\<lparr>ac_throttle := t\<rparr>)) s)))"

definition arax_accel_get_available_size :: "addr \<Rightarrow> arax_pipe_s \<Rightarrow> u64 res" where
  "arax_accel_get_available_size accel s =
     rbind (get_accel accel s) (\<lambda>phys. Ok (arax_throttle_get_available_size (ac_throttle phys)))"

definition arax_accel_get_total_size :: "addr \<Rightarrow> arax_pipe_s \<Rightarrow> u64 res" where
  "arax_accel_get_total_size accel s =
     rbind (get_accel accel s) (\<lambda>phys. Ok (arax_throttle_get_total_size (ac_throttle phys)))"

definition arax_accel_get_name :: "addr \<Rightarrow> arax_pipe_s \<Rightarrow> string res" where
  "arax_accel_get_name accel s = rbind (get_obj accel s) (\<lambda>h. Ok (ob_name h))"

definition arax_accel_get_stat :: "addr \<Rightarrow> arax_pipe_s \<Rightarrow> arax_accel_state_e res" where
  "arax_accel_get_stat accel s = rbind (get_accel accel s) (\<lambda>a. Ok (ac_state a))"

definition arax_accel_inc_revision :: "addr \<Rightarrow> arax_pipe_s \<Rightarrow> arax_pipe_s res" where
  "arax_accel_inc_revision accel s = mod_accel accel (\<lambda>a. a\<lparr>revision := revision a + 1\<rparr>) s"

definition arax_accel_get_revision :: "addr \<Rightarrow> arax_pipe_s \<Rightarrow> u64 res" where
  "arax_accel_get_revision accel s = rbind (get_accel accel s) (\<lambda>a. Ok (revision a))"

text \<open>\<open>int tasks\<close>, sign extended when it is added to the \<open>size_t\<close> counter.\<close>

definition arax_vaccel_queue :: "addr \<Rightarrow> arax_pipe_s \<Rightarrow> utils_queue_s res" where
  "arax_vaccel_queue vac s = rbind (get_vaccel vac s) (\<lambda>v. Ok (va_queue v))"

definition arax_vaccel_queue_size :: "addr \<Rightarrow> arax_pipe_s \<Rightarrow> u32 res" where
  "arax_vaccel_queue_size vac s = rbind (arax_vaccel_queue vac s) (\<lambda>q. Ok (utils_queue_used_slots q))"

definition arax_accel_add_vaccel :: "addr \<Rightarrow> addr \<Rightarrow> arax_pipe_s \<Rightarrow> arax_pipe_s res" where
  "arax_accel_add_vaccel accel vaccel s =
     rbind (get_vaccel vaccel s) (\<lambda>v.
     if va_phys v = accel then Ok s
     else
       rbind (arax_assert (va_phys v = 0) ''vaccel->phys == 0'') (\<lambda>_.
       rbind (arax_pipe_remove_orphan_vaccel vaccel s) (\<lambda>s.
       rbind (vaccel_lock vaccel s) (\<lambda>s.
       rbind (get_vaccel vaccel s) (\<lambda>v.
       rbind
         (if va_phys v \<noteq> accel then
            rbind (accel_lock accel s) (\<lambda>s.
            let s = s\<lparr>lists := utils_list_add (lists s) (Vaccels_head accel) (Vac_node vaccel)\<rparr> in
            rbind (arax_vaccel_queue_size vaccel s) (\<lambda>tasks.
            rbind (if tasks \<noteq> 0
                   then rbind (mod_accel accel (\<lambda>a. a\<lparr>ac_tasks := ac_tasks a + scast tasks\<rparr>) s) (accel_notify accel)
                   else Ok s) (\<lambda>s.
            rbind (mod_vaccel vaccel (\<lambda>v. v\<lparr>va_phys := accel\<rparr>) s) (\<lambda>s.
            rbind (accel_unlock accel s) (\<lambda>s. arax_accel_inc_revision accel s)))))
          else Ok s) (\<lambda>s.
       vaccel_unlock vaccel s))))))"

text \<open>The count and the array \<open>arax_accel_get_assigned_vaccels\<close> allocates.\<close>

definition arax_accel_get_assigned_vaccels :: "addr \<Rightarrow> arax_pipe_s \<Rightarrow> ((u64 \<times> addr list) \<times> arax_pipe_s) res" where
  "arax_accel_get_assigned_vaccels accel s =
     rbind (accel_lock accel s) (\<lambda>s.
     rbind (utils_list_to_array (lists s) (Vaccels_head accel) True) (\<lambda>(n, vs).
     rbind (accel_unlock accel s) (\<lambda>s. Ok ((ls_length (lists s) (Vaccels_head accel), vs), s))))"

definition arax_accel_del_vaccel :: "addr \<Rightarrow> addr \<Rightarrow> arax_pipe_s \<Rightarrow> arax_pipe_s res" where
  "arax_accel_del_vaccel accel vaccel s =
     rbind (get_vaccel vaccel s) (\<lambda>v.
     rbind (arax_assert (va_phys v = accel) ''vaccel->phys == accel'') (\<lambda>_.
     rbind (vaccel_lock vaccel s) (\<lambda>s.
     rbind (accel_lock accel s) (\<lambda>s.
     rbind (arax_vaccel_queue_size vaccel s) (\<lambda>tasks.
     rbind (if tasks \<noteq> 0
            then rbind (mod_accel accel (\<lambda>a. a\<lparr>ac_tasks := ac_tasks a - scast (tasks - 1)\<rparr>) s) (accel_notify accel)
            else Ok s) (\<lambda>s.
     let s = s\<lparr>lists := utils_list_del (lists s) (Vaccels_head accel) (Vac_node vaccel)\<rparr> in
     rbind (mod_vaccel vaccel (\<lambda>v. v\<lparr>va_phys := 0\<rparr>) s) (\<lambda>s.
     rbind (accel_unlock accel s) (\<lambda>s.
     rbind (arax_accel_inc_revision accel s) (\<lambda>s.
     vaccel_unlock vaccel s)))))))))"

section \<open>Virtual accelerators\<close>

definition arax_vaccel_init :: "arax_env \<Rightarrow> string \<Rightarrow> arax_accel_type_e \<Rightarrow> addr \<Rightarrow> arax_pipe_s \<Rightarrow> (addr \<times> arax_pipe_s) res" where
  "arax_vaccel_init env name ty accel s =
     rbind (arax_object_register env ARAX_TYPE_VIRT_ACCEL name (sizeof_vaccel env) 1 s) (\<lambda>(vaccel, s).
     if vaccel = 0 then Ok (0, s)
     else
       rbind (utils_queue_init (queue_capacity env)) (\<lambda>q.
       rbind (mod_vaccel vaccel (\<lambda>v. v\<lparr>va_phys := 0, cid := -1, priority := -1, va_lock := utils_spinlock_init,
           va_queue := q, va_type := ty, meta := 0, ordering := SEQUENTIAL\<rparr>) s) (\<lambda>s.
       let s = s\<lparr>lists := utils_list_node_init (lists s) (Vac_node vaccel) vaccel\<rparr> in
       rbind (if accel \<noteq> 0 then arax_accel_add_vaccel accel vaccel s else arax_pipe_add_orphan_vaccel vaccel s) (\<lambda>s.
       Ok (vaccel, s)))))"

text \<open>A full queue makes \<open>while (!utils_queue_push(...));\<close> spin until a consumer pops.\<close>

definition arax_vaccel_add_task :: "arax_env \<Rightarrow> addr \<Rightarrow> addr \<Rightarrow> arax_pipe_s \<Rightarrow> arax_pipe_s res" where
  "arax_vaccel_add_task env accel task s =
     rbind (vaccel_lock accel s) (\<lambda>s.
     rbind (get_vaccel accel s) (\<lambda>v.
     rbind (utils_queue_push (queue_capacity env) (va_queue v) task) (\<lambda>(r, q).
     if r = 0 then Fault (Blocked ''while (!utils_queue_push(&(accel->queue), task))'')
     else
       rbind (mod_vaccel accel (\<lambda>v. v\<lparr>va_queue := q\<rparr>) s) (\<lambda>s.
       rbind (if va_phys v \<noteq> 0 then arax_accel_add_task (va_phys v) s else Ok s) (\<lambda>s.
       vaccel_unlock accel s)))))"

definition arax_vaccel_set_ordering :: "addr \<Rightarrow> arax_accel_ordering_e \<Rightarrow> arax_pipe_s \<Rightarrow> arax_pipe_s res" where
  "arax_vaccel_set_ordering accel ord s = mod_vaccel accel (\<lambda>v. v\<lparr>ordering := ord\<rparr>) s"

definition arax_vaccel_get_ordering :: "addr \<Rightarrow> arax_pipe_s \<Rightarrow> arax_accel_ordering_e res" where
  "arax_vaccel_get_ordering accel s = rbind (get_vaccel accel s) (\<lambda>v. Ok (ordering v))"

definition arax_vaccel_set_cid :: "addr \<Rightarrow> u64 \<Rightarrow> arax_pipe_s \<Rightarrow> (u64 \<times> arax_pipe_s) res" where
  "arax_vaccel_set_cid vaccel c s =
     rbind (mod_vaccel vaccel (\<lambda>v. v\<lparr>cid := c\<rparr>) s) (\<lambda>s. rbind (get_vaccel vaccel s) (\<lambda>v. Ok (cid v, s)))"

definition arax_vaccel_get_cid :: "addr \<Rightarrow> arax_pipe_s \<Rightarrow> u64 res" where
  "arax_vaccel_get_cid vaccel s = rbind (get_vaccel vaccel s) (\<lambda>v. Ok (cid v))"

definition arax_vaccel_set_job_priority :: "addr \<Rightarrow> u64 \<Rightarrow> arax_pipe_s \<Rightarrow> (u64 \<times> arax_pipe_s) res" where
  "arax_vaccel_set_job_priority vaccel p s =
     rbind (mod_vaccel vaccel (\<lambda>v. v\<lparr>priority := p\<rparr>) s) (\<lambda>s. rbind (get_vaccel vaccel s) (\<lambda>v. Ok (priority v, s)))"

definition arax_vaccel_get_job_priority :: "addr \<Rightarrow> arax_pipe_s \<Rightarrow> u64 res" where
  "arax_vaccel_get_job_priority vaccel s = rbind (get_vaccel vaccel s) (\<lambda>v. Ok (priority v))"

definition arax_vaccel_set_meta :: "addr \<Rightarrow> addr \<Rightarrow> arax_pipe_s \<Rightarrow> arax_pipe_s res" where
  "arax_vaccel_set_meta vaccel m s = mod_vaccel vaccel (\<lambda>v. v\<lparr>meta := m\<rparr>) s"

definition arax_vaccel_get_meta :: "addr \<Rightarrow> arax_pipe_s \<Rightarrow> addr res" where
  "arax_vaccel_get_meta vaccel s = rbind (get_vaccel vaccel s) (\<lambda>v. Ok (meta v))"

definition arax_vaccel_get_stat :: "addr \<Rightarrow> arax_pipe_s \<Rightarrow> arax_accel_state_e res" where
  "arax_vaccel_get_stat accel s = rbind (get_vaccel accel s) (\<lambda>v. arax_accel_get_stat (va_phys v) s)"

section \<open>Creation and destruction\<close>

definition arax_accel_init :: "arax_env \<Rightarrow> string \<Rightarrow> arax_accel_type_e \<Rightarrow> u64 \<Rightarrow> u64 \<Rightarrow> arax_pipe_s \<Rightarrow> (addr \<times> arax_pipe_s) res" where
  "arax_accel_init env name ty sz cap s =
     rbind (arax_object_register env ARAX_TYPE_PHYS_ACCEL name (sizeof_accel env) 1 s) (\<lambda>(obj, s).
     if obj = 0 then Ok (0, s)
     else
       rbind async_condition_init (\<lambda>c.
       rbind (mod_accel obj (\<lambda>a. a\<lparr>ac_lock := c, ac_tasks := 0\<rparr>) s) (\<lambda>s.
       let s = s\<lparr>lists := utils_list_init (lists s) (Vaccels_head obj) 0\<rparr> in
       rbind (mod_accel obj (\<lambda>a. a\<lparr>ac_type := ty, ac_state := accel_idle, revision := 0\<rparr>) s) (\<lambda>s.
       rbind (arax_throttle_init sz cap) (\<lambda>t.
       rbind (mod_accel obj (\<lambda>a. a\<lparr>ac_throttle := t\<rparr>) s) (\<lambda>s.
       rbind (arax_vaccel_init env name ty obj s) (\<lambda>(v, s).
       rbind (mod_accel obj (\<lambda>a. a\<lparr>free_vaq := v\<rparr>) s) (\<lambda>s. Ok (obj, s)))))))))"

text \<open>
  \<open>arax_accel_release\<close> of \<open>arch/shm/impl.c\<close>: drops a reference through \<open>*accel\<close> and clears the variable
  (the caller's; the model returns nothing for it).
\<close>

definition arax_accel_release_with ::
  "(addr \<Rightarrow> arax_pipe_s \<Rightarrow> (u32 \<times> arax_pipe_s) res) \<Rightarrow> addr \<Rightarrow> arax_pipe_s \<Rightarrow> arax_pipe_s res" where
  "arax_accel_release_with ref_dec accel s =
     rbind (get_obj accel s) (\<lambda>h.
     if ob_type h = ARAX_TYPE_PHYS_ACCEL \<or> ob_type h = ARAX_TYPE_VIRT_ACCEL
     then rbind (ref_dec accel s) (\<lambda>(_, s). Ok s)
     else Fault (Assert_failed ''!Non accelerator type passed in arax_accel_release''))"

text \<open>
  The assertion of the accelerator destructor is on a string literal, which is never null, so an
  accelerator with virtual accelerators attached is erased all the same.
\<close>

definition dtor_arax_accel_s ::
  "(addr \<Rightarrow> arax_pipe_s \<Rightarrow> (u32 \<times> arax_pipe_s) res) \<Rightarrow> addr \<Rightarrow> arax_pipe_s \<Rightarrow> arax_pipe_s res" where
  "dtor_arax_accel_s ref_dec obj s =
     rbind (accel_lock obj s) (\<lambda>s.
     rbind (if ls_length (lists s) (Vaccels_head obj) \<noteq> 0
            then arax_assert True ''Erasing physical accelerator with dangling virtual accels'' else Ok ()) (\<lambda>_.
     rbind (accel_unlock obj s) (\<lambda>s.
     rbind (get_accel obj s) (\<lambda>a.
     rbind (arax_accel_release_with ref_dec (free_vaq a) s) (\<lambda>s.
     mod_accel obj (\<lambda>a. a\<lparr>free_vaq := 0\<rparr>) s)))))"

definition dtor_arax_vaccel_s :: "addr \<Rightarrow> arax_pipe_s \<Rightarrow> arax_pipe_s res" where
  "dtor_arax_vaccel_s obj s =
     rbind (get_vaccel obj s) (\<lambda>v.
     if va_phys v \<noteq> 0 then arax_accel_del_vaccel (va_phys v) obj s
     else arax_pipe_remove_orphan_vaccel obj s)"

end
