(* ===== verification/Accel_Types.thy ===== *)
theory Accel_Types
  imports Segment
begin

text \<open>
  \<open>src/core/arax_accel_types.c\<close>: the names of the accelerator types. Names are compared by
  \<open>strcasecmp\<close>, in the C locale.
\<close>

definition types_map :: "(string \<times> arax_accel_type_e) list" where
  "types_map = [(''any'', ANY), (''gpu'', GPU), (''gpu_soft'', GPU_SOFT), (''cpu'', CPU), (''sda'', SDA),
     (''nano_arm'', NANO_ARM), (''nano_core'', NANO_CORE), (''OpenCL'', OPEN_CL), (''HIP'', HIP)]"

definition arax_accel_valid_type :: "arax_accel_type_e \<Rightarrow> bool" where
  "arax_accel_valid_type ty \<longleftrightarrow> ty < ARAX_ACCEL_TYPES"

definition arax_accel_type_to_str :: "arax_accel_type_e \<Rightarrow> string option" where
  "arax_accel_type_to_str ty = (if arax_accel_valid_type ty then Some (fst (types_map ! unat ty)) else None)"

definition to_lower :: "char \<Rightarrow> char" where
  "to_lower c = (let n = of_char c :: nat in if 65 \<le> n \<and> n \<le> 90 then char_of (n + 32) else c)"

definition strcaseeq :: "string \<Rightarrow> string \<Rightarrow> bool" where
  "strcaseeq s t \<longleftrightarrow> map to_lower s = map to_lower t"

text \<open>The scan from \<open>cnt\<close> on; no entry of the table is null.\<close>

fun type_scan :: "string \<Rightarrow> arax_accel_type_e \<Rightarrow> (string \<times> arax_accel_type_e) list \<Rightarrow> arax_accel_type_e" where
  "type_scan s cnt [] = cnt"
| "type_scan s cnt (e # es) = (if strcaseeq s (fst e) then cnt else type_scan s (cnt + 1) es)"

definition arax_accel_type_from_str :: "string option \<Rightarrow> arax_accel_type_e" where
  "arax_accel_type_from_str s = (case s of None \<Rightarrow> ARAX_ACCEL_TYPES | Some s \<Rightarrow> type_scan s ANY types_map)"

lemmas accel_type_defs = ANY_def GPU_def GPU_SOFT_def CPU_def SDA_def NANO_ARM_def NANO_CORE_def OPEN_CL_def
  HIP_def ARAX_ACCEL_TYPES_def

lemma valid_type_cases:
  assumes "arax_accel_valid_type ty"
  shows "ty \<in> {ANY, GPU, GPU_SOFT, CPU, SDA, NANO_ARM, NANO_CORE, OPEN_CL, HIP}"
proof -
  have "unat ty < 9" using assms by (simp add: arax_accel_valid_type_def ARAX_ACCEL_TYPES_def word_less_nat_alt)
  then have "unat ty = 0 \<or> unat ty = 1 \<or> unat ty = 2 \<or> unat ty = 3 \<or> unat ty = 4 \<or> unat ty = 5 \<or>
    unat ty = 6 \<or> unat ty = 7 \<or> unat ty = 8" by linarith
  then show ?thesis by (auto simp: accel_type_defs word_unat_eq_iff)
qed

lemma type_scan_case: "strcaseeq s t \<Longrightarrow> type_scan s cnt es = type_scan t cnt es"
  by (induction es arbitrary: cnt) (auto simp: strcaseeq_def)

lemma type_scan_names:
  "\<forall>ty \<in> set [ANY, GPU, GPU_SOFT, CPU, SDA, NANO_ARM, NANO_CORE, OPEN_CL, HIP].
     type_scan (fst (types_map ! unat ty)) ANY types_map = ty"
  by code_simp

text \<open>The names of the accelerator types are a faithful encoding: every valid type has a name, the
  name in any mixture of upper and lower case is read back as that type, and a value that is not a
  type has no name.\<close>

theorem accel_type_roundtrip:
  "if arax_accel_valid_type ty
   then \<exists>name. arax_accel_type_to_str ty = Some name \<and>
     (\<forall>s. strcaseeq s name \<longrightarrow> arax_accel_type_from_str (Some s) = ty)
   else arax_accel_type_to_str ty = None"
proof (cases "arax_accel_valid_type ty")
  case True
  have "arax_accel_type_from_str (Some s) = ty"
    if "strcaseeq s (fst (types_map ! unat ty))" for s
  proof -
    have "type_scan (fst (types_map ! unat ty)) ANY types_map = ty"
      by (rule bspec [OF type_scan_names]) (use valid_type_cases [OF True] in simp)
    with type_scan_case [OF that] show ?thesis by (simp add: arax_accel_type_from_str_def)
  qed
  with True show ?thesis by (simp add: arax_accel_type_to_str_def)
qed (simp add: arax_accel_type_to_str_def)

theorem accel_type_roundtrip_witness: "arax_accel_type_from_str (Some ''opencl'') = OPEN_CL"
proof -
  have v: "arax_accel_valid_type OPEN_CL" by (simp add: arax_accel_valid_type_def accel_type_defs)
  have n: "arax_accel_type_to_str OPEN_CL = Some ''OpenCL''"
    using v by (simp add: arax_accel_type_to_str_def types_map_def) (simp add: OPEN_CL_def)
  have "strcaseeq ''opencl'' ''OpenCL''" by code_simp
  with accel_type_roundtrip [of OPEN_CL] v n show ?thesis by simp
qed

end
