(* ===== verification/Proc.thy ===== *)
theory Proc
  imports Accel Accel_Types
begin

text \<open>
  \<open>src/core/arax_proc.c\<close>, the procedures tasks run, and the functions of \<open>src/arch/shm/impl.c\<close> through
  which applications and controllers name them (\<open>arax_proc_register\<close>, \<open>arax_proc_get\<close>,
  \<open>arax_proc_put\<close>). A functor is a pointer.
\<close>

definition arax_proc_init :: "arax_env \<Rightarrow> string \<Rightarrow> arax_pipe_s \<Rightarrow> (addr \<times> arax_pipe_s) res" where
  "arax_proc_init env name s = arax_object_register env ARAX_TYPE_PROC name (sizeof_proc env) 1 s"

definition arax_proc_get_functor :: "addr \<Rightarrow> arax_accel_type_e \<Rightarrow> arax_pipe_s \<Rightarrow> addr res" where
  "arax_proc_get_functor proc ty s =
     rbind (arax_assert (arax_accel_valid_type ty) ''arax_accel_valid_type(type)'') (\<lambda>_.
     rbind (get_proc proc s) (\<lambda>p. Ok (functors p ! unat ty)))"

definition arax_proc_set_functor :: "addr \<Rightarrow> arax_accel_type_e \<Rightarrow> addr \<Rightarrow> arax_pipe_s \<Rightarrow> (addr \<times> arax_pipe_s) res" where
  "arax_proc_set_functor proc ty vfn s =
     rbind (arax_proc_get_functor proc ty s) (\<lambda>ret.
     rbind (get_proc proc s) (\<lambda>p.
     Ok (ret, set_body proc (Proc (p\<lparr>functors := (functors p)[unat ty := vfn],
                                     canrun := canrun p OR push_bit (unat ty) 1\<rparr>)) s)))"

definition arax_proc_can_run_at :: "addr \<Rightarrow> arax_accel_type_e \<Rightarrow> arax_pipe_s \<Rightarrow> bool res" where
  "arax_proc_can_run_at proc ty s =
     rbind (arax_assert (arax_accel_valid_type ty) ''arax_accel_valid_type(type)'') (\<lambda>_.
     rbind (arax_assert (ty \<noteq> ANY) ''type != ANY'') (\<lambda>_.
     rbind (get_proc proc s) (\<lambda>p. Ok (canrun p AND push_bit (unat ty) 1 \<noteq> 0))))"

definition dtor_arax_proc_s :: "addr \<Rightarrow> arax_pipe_s \<Rightarrow> arax_pipe_s res" where
  "dtor_arax_proc_s obj s = Ok s"

definition arax_proc_register :: "arax_env \<Rightarrow> string \<Rightarrow> arax_pipe_s \<Rightarrow> (addr \<times> arax_pipe_s) res" where
  "arax_proc_register env func_name s =
     rbind (arax_pipe_find_proc func_name s) (\<lambda>(proc, s).
     if proc = 0 then arax_proc_init env func_name s else Ok (proc, s))"

definition arax_proc_get :: "string \<Rightarrow> arax_pipe_s \<Rightarrow> (addr \<times> arax_pipe_s) res" where
  "arax_proc_get func_name s =
     rbind (arax_pipe_find_proc func_name s) (\<lambda>(proc, s).
     if proc \<noteq> 0 then rbind (arax_object_ref_inc proc s) (\<lambda>s. Ok (proc, s)) else Ok (0, s))"

definition arax_proc_put_with ::
  "(addr \<Rightarrow> arax_pipe_s \<Rightarrow> (u32 \<times> arax_pipe_s) res) \<Rightarrow> addr \<Rightarrow> arax_pipe_s \<Rightarrow> (u32 \<times> arax_pipe_s) res" where
  "arax_proc_put_with ref_dec func s = ref_dec func s"

end
