(* ===== verification/Task.thy ===== *)
theory Task
  imports Proc
begin

text \<open>
  \<open>src/core/arax_data.c\<close>, \<open>src/core/arax_task.c\<close> and the task functions of \<open>src/arch/shm/impl.c\<close>: data
  buffers, the tasks that use them, and the messages tasks send through the queues of the virtual
  accelerators. Tasks are made of data and data are moved by tasks, so they share a theory.

  Two parameters: \<open>ref_dec\<close> is \<open>arax_object_ref_dec\<close>, tied in theory \<open>Destructors\<close>; \<open>controller\<close> is
  what the controller process does to the segment while this one sleeps for the completion of a task.
\<close>

type_synonym ref_dec_fn = "addr \<Rightarrow> arax_pipe_s \<Rightarrow> (u32 \<times> arax_pipe_s) res"
type_synonym controller_fn = "addr \<Rightarrow> arax_pipe_s \<Rightarrow> arax_pipe_s res"

definition mod_data :: "addr \<Rightarrow> (arax_data_s \<Rightarrow> arax_data_s) \<Rightarrow> arax_pipe_s \<Rightarrow> arax_pipe_s res" where
  "mod_data a f s = rbind (get_data a s) (\<lambda>b. Ok (set_body a (Data (f b)) s))"

definition mod_task :: "addr \<Rightarrow> (arax_task_msg_s \<Rightarrow> arax_task_msg_s) \<Rightarrow> arax_pipe_s \<Rightarrow> arax_pipe_s res" where
  "mod_task a f s = rbind (get_task a s) (\<lambda>b. Ok (set_body a (Task (f b)) s))"

section \<open>Data: creation and access\<close>

definition NONE_SYNC :: u64 where "NONE_SYNC = 0"
definition SHM_SYNC :: u64 where "SHM_SYNC = 1"
definition REMT_SYNC :: u64 where "REMT_SYNC = 2"
definition ALL_SYNC :: u64 where "ALL_SYNC = 3"
definition OTHR_REMT :: u64 where "OTHR_REMT = 4"

definition ARAX_BUFF_ALLOC_SIZE :: "u64 \<Rightarrow> u64 \<Rightarrow> u64" where
  "ARAX_BUFF_ALLOC_SIZE sz al = sz + al + 8"

text \<open>Where the buffer of the data object at \<open>data\<close> starts: behind the structure and one pointer, aligned.\<close>

definition data_buffer :: "arax_env \<Rightarrow> addr \<Rightarrow> u64 \<Rightarrow> addr" where
  "data_buffer env data al =
     (let buff_ptr = data + sizeof_data env;
          buff_ptr = buff_ptr + 8
      in buff_ptr + al - buff_ptr mod al)"

definition arax_data_init_aligned :: "arax_env \<Rightarrow> u64 \<Rightarrow> u64 \<Rightarrow> arax_pipe_s \<Rightarrow> (addr \<times> arax_pipe_s) res" where
  "arax_data_init_aligned env sz al s =
     (let asz = sizeof_data env + ARAX_BUFF_ALLOC_SIZE sz al in
      rbind (arax_assert (al \<noteq> 0) ''align'') (\<lambda>_.
      rbind (arax_object_register env ARAX_TYPE_DATA ''UNUSED'' asz 1 s) (\<lambda>(data, s).
      if data = 0 then Ok (0, s)
      else
        let buff_ptr = data_buffer env data al;
            s = s\<lparr>back_pointers := (back_pointers s)(buff_ptr := data)\<rparr> in
        rbind (mod_data data (\<lambda>d. d\<lparr>da_size := sz, buffer := buff_ptr, da_align := al, flags := 0, da_phys := 0\<rparr>) s) (\<lambda>s.
        Ok (data, s)))))"

definition arax_data_init :: "arax_env \<Rightarrow> u64 \<Rightarrow> arax_pipe_s \<Rightarrow> (addr \<times> arax_pipe_s) res" where
  "arax_data_init env sz s = arax_data_init_aligned env sz 1 s"

definition arax_data_size :: "addr \<Rightarrow> arax_pipe_s \<Rightarrow> u64 res" where
  "arax_data_size data s = rbind (get_data data s) (\<lambda>d. Ok (da_size d))"

definition arax_data_deref :: "addr \<Rightarrow> arax_pipe_s \<Rightarrow> addr res" where
  "arax_data_deref data s = rbind (get_data data s) (\<lambda>d. Ok (buffer d))"

text \<open>
  \<open>arax_ptr_valid\<close> of \<open>core/arax_ptr.c\<close>: whether a pointer lies in the segment at \<open>pipe\<close>. (Its call of
  \<open>arax_init\<close> is modelled with \<open>arax_init\<close>.)
\<close>

definition ptr_in_segment :: "addr \<Rightarrow> addr \<Rightarrow> arax_pipe_s \<Rightarrow> bool" where
  "ptr_in_segment pipe ptr s \<longleftrightarrow> (if ptr < pipe then False else if ptr < pipe + shm_size s then True else False)"

text \<open>A pointer that is not the start of a buffer reads whatever word lies in front of it.\<close>

definition arax_data_ref :: "addr \<Rightarrow> addr \<Rightarrow> arax_pipe_s \<Rightarrow> addr res" where
  "arax_data_ref pipe data s =
     rbind (arax_assert (data \<noteq> 0) ''data'') (\<lambda>_.
     let vdata = back_pointers s data in
     if vdata = 0 then Ok 0
     else if \<not> ptr_in_segment pipe vdata s then Ok 0
     else rbind (get_obj vdata s) (\<lambda>h. if ob_type h \<noteq> ARAX_TYPE_DATA then Ok 0 else Ok vdata))"

definition arax_data_ref_offset :: "addr \<Rightarrow> addr \<Rightarrow> arax_pipe_s \<Rightarrow> (addr \<times> arax_pipe_s) res" where
  "arax_data_ref_offset pipe data s =
     rbind (arax_assert (data \<noteq> 0) ''data'') (\<lambda>_.
     rbind (arax_assert (ptr_in_segment pipe data s) ''arax_ptr_valid(data)'') (\<lambda>_.
     rbind (arax_data_ref pipe data s) (\<lambda>ret.
     if ret \<noteq> 0 then Ok (ret, s)
     else
       rbind (arax_object_list_lock ARAX_TYPE_DATA s) (\<lambda>s.
       rbind (repo_objects ARAX_TYPE_DATA s) (\<lambda>datas.
       rbind (find_first (\<lambda>vd. rbind (get_data vd s) (\<lambda>d.
           Ok (data > buffer d \<and> data < buffer d + da_size d))) datas) (\<lambda>ret.
       rbind (arax_object_list_unlock ARAX_TYPE_DATA s) (\<lambda>s. Ok (ret, s))))))))"

definition arax_data_has_remote :: "addr \<Rightarrow> arax_pipe_s \<Rightarrow> bool res" where
  "arax_data_has_remote data s = rbind (get_data data s) (\<lambda>d. Ok (remote d \<noteq> 0))"

definition arax_data_modified :: "addr \<Rightarrow> u64 \<Rightarrow> arax_pipe_s \<Rightarrow> arax_pipe_s res" where
  "arax_data_modified data wh s = mod_data data (\<lambda>d. d\<lparr>flags := (flags d AND OTHR_REMT) OR wh\<rparr>) s"

definition arax_data_check_flags :: "addr \<Rightarrow> arax_pipe_s \<Rightarrow> unit res" where
  "arax_data_check_flags data s =
     rbind (get_data data s) (\<lambda>d.
     if flags d AND ALL_SYNC \<in> {NONE_SYNC, SHM_SYNC, REMT_SYNC, ALL_SYNC} then Ok ()
     else arax_assert False ''!Inconsistent data flags'')"

definition arax_data_free_with :: "ref_dec_fn \<Rightarrow> addr \<Rightarrow> arax_pipe_s \<Rightarrow> arax_pipe_s res" where
  "arax_data_free_with ref_dec data s = rbind (ref_dec data s) (\<lambda>(_, s). Ok s)"

section \<open>Data: placement on accelerators\<close>

definition arax_data_migrate_accel_with :: "ref_dec_fn \<Rightarrow> addr \<Rightarrow> addr \<Rightarrow> arax_pipe_s \<Rightarrow> arax_pipe_s res" where
  "arax_data_migrate_accel_with ref_dec data accel s =
     rbind (arax_assert (accel \<noteq> 0) ''accel'') (\<lambda>_.
     rbind (get_data data s) (\<lambda>d.
     if da_accel d = accel then Ok s
     else if da_accel d = 0 then
       rbind (arax_assert (remote d = 0) ''!data->remote'') (\<lambda>_.
       rbind (arax_object_ref_inc accel s) (\<lambda>s.
       mod_data data (\<lambda>d. d\<lparr>da_accel := accel\<rparr>) s))
     else
       rbind (get_obj (da_accel d) s) (\<lambda>h1.
       rbind (get_obj accel s) (\<lambda>h2.
       if ob_type h1 = ARAX_TYPE_VIRT_ACCEL \<and> ob_type h2 = ARAX_TYPE_VIRT_ACCEL then
         rbind (get_vaccel (da_accel d) s) (\<lambda>dvac.
         rbind (get_vaccel accel s) (\<lambda>avac.
         if va_phys dvac = va_phys avac then
           rbind (ref_dec (da_accel d) s) (\<lambda>(_, s).
           rbind (arax_object_ref_inc accel s) (\<lambda>s.
           mod_data data (\<lambda>d. d\<lparr>da_accel := accel\<rparr>) s))
         else Fault (Assert_failed ''!arax_data_migrate_accel: D2D not implemented!'')))
       else Fault (Assert_failed ''!No migration possible'')))))"

definition arax_data_set_accel :: "addr \<Rightarrow> addr \<Rightarrow> arax_pipe_s \<Rightarrow> arax_pipe_s res" where
  "arax_data_set_accel data accel s =
     rbind (get_data data s) (\<lambda>d.
     if da_accel d \<noteq> accel then
       rbind (mod_data data (\<lambda>d. d\<lparr>da_accel := accel\<rparr>) s) (\<lambda>s. arax_object_ref_inc accel s)
     else Ok s)"

definition arax_data_set_remote :: "addr \<Rightarrow> addr \<Rightarrow> addr \<Rightarrow> arax_pipe_s \<Rightarrow> arax_pipe_s res" where
  "arax_data_set_remote data accel remt s =
     rbind (get_vaccel accel s) (\<lambda>v.
     rbind (arax_assert (va_type v \<noteq> CPU) ''((arax_vaccel_s *) accel)->type != CPU'') (\<lambda>_.
     rbind (get_data data s) (\<lambda>d.
     rbind (arax_assert (da_accel d = 0) ''data->accel == 0'') (\<lambda>_.
     rbind (arax_assert (remote d = 0) ''data->remote == 0'') (\<lambda>_.
     rbind (arax_object_ref_inc accel s) (\<lambda>s.
     mod_data data (\<lambda>d. d\<lparr>da_accel := accel, remote := remt, flags := flags d OR OTHR_REMT\<rparr>) s))))))"

definition arax_data_arg_init_with :: "ref_dec_fn \<Rightarrow> addr \<Rightarrow> addr \<Rightarrow> arax_pipe_s \<Rightarrow> arax_pipe_s res" where
  "arax_data_arg_init_with ref_dec data accel s =
     rbind (arax_assert (accel \<noteq> 0) ''accel'') (\<lambda>_. arax_data_migrate_accel_with ref_dec data accel s)"

definition arax_data_input_init_with :: "ref_dec_fn \<Rightarrow> addr \<Rightarrow> addr \<Rightarrow> arax_pipe_s \<Rightarrow> arax_pipe_s res" where
  "arax_data_input_init_with ref_dec data accel s =
     rbind (arax_assert (accel \<noteq> 0) ''accel'') (\<lambda>_.
     rbind (arax_object_ref_inc data s) (\<lambda>s. arax_data_migrate_accel_with ref_dec data accel s))"

definition arax_data_output_init_with :: "ref_dec_fn \<Rightarrow> addr \<Rightarrow> addr \<Rightarrow> arax_pipe_s \<Rightarrow> arax_pipe_s res" where
  "arax_data_output_init_with ref_dec data accel s =
     rbind (arax_assert (accel \<noteq> 0) ''accel'') (\<lambda>_.
     rbind (arax_object_ref_inc data s) (\<lambda>s. arax_data_migrate_accel_with ref_dec data accel s))"

section \<open>Tasks\<close>

definition arax_data_annotate :: "arax_env \<Rightarrow> addr \<Rightarrow> string \<Rightarrow> arax_pipe_s \<Rightarrow> arax_pipe_s res" where
  "arax_data_annotate env data txt s = (if data_annotate env then arax_object_rename env data txt s else Ok s)"

text \<open>One of the two loops of \<open>arax_task_alloc\<close>, over \<open>dev_in\<close> or \<open>dev_out\<close> from position \<open>cnt\<close> on.\<close>

fun task_bind_io :: "arax_env \<Rightarrow> (addr \<Rightarrow> addr \<Rightarrow> arax_pipe_s \<Rightarrow> arax_pipe_s res) \<Rightarrow> addr \<Rightarrow> string \<Rightarrow> nat \<Rightarrow>
    addr list \<Rightarrow> arax_pipe_s \<Rightarrow> arax_pipe_s res" where
  "task_bind_io env io_init accel label cnt [] s = Ok s"
| "task_bind_io env io_init accel label cnt (d # ds) s =
     rbind (io_init d accel s) (\<lambda>s.
     rbind (arax_data_annotate env d (label @ ''['' @ dec_str cnt @ '']'') s) (\<lambda>s.
     task_bind_io env io_init accel label (Suc cnt) ds s))"

definition arax_task_alloc_with ::
  "arax_env \<Rightarrow> ref_dec_fn \<Rightarrow> addr \<Rightarrow> addr \<Rightarrow> u64 \<Rightarrow> addr list \<Rightarrow> addr list \<Rightarrow> arax_pipe_s \<Rightarrow> (addr \<times> arax_pipe_s) res" where
  "arax_task_alloc_with env ref_dec accel proc hsize dev_in dev_out s =
     rbind (arax_assert (accel \<noteq> 0) ''accel'') (\<lambda>_.
     rbind (arax_assert (proc \<noteq> 0) ''proc'') (\<lambda>_.
     let io_size = 8 * of_nat (length dev_in + length dev_out) in
     rbind (arax_object_register env ARAX_TYPE_TASK ''Task'' (sizeof_task env + io_size + hsize) 1 s) (\<lambda>(task, s).
     if task = 0 then Ok (0, s)
     else
       rbind async_completion_init (\<lambda>c.
       rbind (mod_task task (\<lambda>t. t\<lparr>ta_done := c, ta_accel := accel, ta_proc := proc,
           in_count := of_nat (length dev_in), out_count := of_nat (length dev_out), host_size := hsize,
           task_io := dev_in @ dev_out, host_data := replicate (unat hsize) 0\<rparr>) s) (\<lambda>s.
       rbind (if dev_in @ dev_out = [] then Ok [] else rbind (get_obj proc s) (\<lambda>h. Ok (ob_name h))) (\<lambda>nm.
       rbind (task_bind_io env (arax_data_input_init_with ref_dec) accel (nm @ '':in'') 0 dev_in s) (\<lambda>s.
       rbind (task_bind_io env (arax_data_output_init_with ref_dec) accel (nm @ '':out'') 0 dev_out s) (\<lambda>s.
       Ok (task, s)))))))))"

definition arax_task_host_data :: "arax_env \<Rightarrow> addr \<Rightarrow> u64 \<Rightarrow> arax_pipe_s \<Rightarrow> addr res" where
  "arax_task_host_data env task sz s =
     rbind (get_task task s) (\<lambda>t.
     rbind (arax_assert (sz = host_size t) ''size == task->host_size'') (\<lambda>_.
     if host_size t = 0 then Ok 0
     else Ok (task + sizeof_task env + 8 * ucast (in_count t + out_count t))))"

definition arax_task_submit :: "arax_env \<Rightarrow> addr \<Rightarrow> arax_pipe_s \<Rightarrow> arax_pipe_s res" where
  "arax_task_submit env task s =
     rbind (get_task task s) (\<lambda>t.
     rbind (arax_object_ref_inc (ta_accel t) s) (\<lambda>s.
     rbind (mod_task task (\<lambda>t. t\<lparr>ta_started := realtime env, ta_state := task_issued\<rparr>) s) (\<lambda>s.
     arax_vaccel_add_task env (ta_accel t) task s)))"

text \<open>While the completion is open the caller sleeps and the controller runs.\<close>

definition arax_task_wait_done :: "controller_fn \<Rightarrow> addr \<Rightarrow> arax_pipe_s \<Rightarrow> arax_pipe_s res" where
  "arax_task_wait_done controller msg s =
     rbind (get_task msg s) (\<lambda>t.
     rbind (arax_assert (ta_state t = task_issued \<or> ta_state t = task_completed)
       ''msg->state == task_issued || msg->state == task_completed'') (\<lambda>_.
     rbind (if fst (async_completion_check (ta_done t)) then Ok s else controller msg s) (\<lambda>s.
     rbind (get_task msg s) (\<lambda>t.
     rbind (async_completion_wait (ta_done t)) (\<lambda>c.
     mod_task msg (\<lambda>t. t\<lparr>ta_done := c\<rparr>) s)))))"

definition arax_task_mark_done :: "addr \<Rightarrow> arax_task_state_e \<Rightarrow> arax_pipe_s \<Rightarrow> arax_pipe_s res" where
  "arax_task_mark_done msg state s =
     mod_task msg (\<lambda>t. t\<lparr>ta_state := state, ta_done := async_completion_complete (ta_done t)\<rparr>) s"

fun ref_dec_all :: "ref_dec_fn \<Rightarrow> addr list \<Rightarrow> arax_pipe_s \<Rightarrow> arax_pipe_s res" where
  "ref_dec_all ref_dec [] s = Ok s"
| "ref_dec_all ref_dec (a # as) s = rbind (ref_dec a s) (\<lambda>(_, s). ref_dec_all ref_dec as s)"

definition dtor_arax_task_msg_s :: "ref_dec_fn \<Rightarrow> addr \<Rightarrow> arax_pipe_s \<Rightarrow> arax_pipe_s res" where
  "dtor_arax_task_msg_s ref_dec obj s =
     rbind (get_task obj s) (\<lambda>t.
     rbind (ref_dec_all ref_dec (take (unat (in_count t + out_count t)) (task_io t)) s) (\<lambda>s.
     if ta_accel t \<noteq> 0 then rbind (ref_dec (ta_accel t) s) (\<lambda>(_, s). Ok s) else Ok s))"

section \<open>Issuing tasks\<close>

text \<open>
  \<open>check_semantics\<close>: the inner loop repeats the tests of the outer one for every buffer; \<open>Ok False\<close> at
  the first null pointer or object that is not data.
\<close>

fun io_all_data :: "addr list \<Rightarrow> arax_pipe_s \<Rightarrow> bool res" where
  "io_all_data [] s = Ok True"
| "io_all_data (a # as) s =
     (if a = 0 then Ok False
      else rbind (get_obj a s) (\<lambda>h. if ob_type h \<noteq> ARAX_TYPE_DATA then Ok False else io_all_data as s))"

fun check_semantics_loop :: "addr list \<Rightarrow> addr list \<Rightarrow> arax_pipe_s \<Rightarrow> bool res" where
  "check_semantics_loop all_io [] s = Ok True"
| "check_semantics_loop all_io (a # as) s =
     rbind (io_all_data [a] s) (\<lambda>ok.
     if \<not> ok then Ok False
     else rbind (io_all_data all_io s) (\<lambda>ok. if \<not> ok then Ok False else check_semantics_loop all_io as s))"

definition check_semantics :: "addr list \<Rightarrow> addr list \<Rightarrow> arax_pipe_s \<Rightarrow> bool res" where
  "check_semantics inp outp s = check_semantics_loop (inp @ outp) (inp @ outp) s"

text \<open>\<open>host_init\<close> is \<open>None\<close> for a null pointer; the copy takes \<open>host_size\<close> bytes from it.\<close>

definition arax_task_issue_with ::
  "arax_env \<Rightarrow> ref_dec_fn \<Rightarrow> addr \<Rightarrow> addr \<Rightarrow> 8 word list option \<Rightarrow> u64 \<Rightarrow> addr list \<Rightarrow> addr list \<Rightarrow>
     arax_pipe_s \<Rightarrow> (addr \<times> arax_pipe_s) res" where
  "arax_task_issue_with env ref_dec accel proc host_init hsize dev_in dev_out s =
     rbind (check_semantics dev_in dev_out s) (\<lambda>ok.
     rbind (arax_assert ok ''check_semantics(in_count, dev_in, out_count, dev_out)'') (\<lambda>_.
     rbind (arax_task_alloc_with env ref_dec accel proc hsize dev_in dev_out s) (\<lambda>(task, s).
     rbind (arax_assert (task \<noteq> 0) ''task'') (\<lambda>_.
     rbind (case host_init of
              None \<Rightarrow> Ok s
            | Some bytes \<Rightarrow>
                if hsize = 0 then Ok s
                else rbind (arax_task_host_data env task hsize s) (\<lambda>_.
                     mod_task task (\<lambda>t. t\<lparr>host_data := take (unat hsize) bytes\<rparr>) s)) (\<lambda>s.
     rbind (arax_task_submit env task s) (\<lambda>s. Ok (task, s)))))))"

definition arax_task_stat :: "addr \<Rightarrow> arax_pipe_s \<Rightarrow> (arax_task_state_e \<times> u64) res" where
  "arax_task_stat task s = rbind (get_task task s) (\<lambda>t. Ok (ta_state t, ta_started t))"

definition arax_task_wait :: "controller_fn \<Rightarrow> addr \<Rightarrow> arax_pipe_s \<Rightarrow> (arax_task_state_e \<times> arax_pipe_s) res" where
  "arax_task_wait controller task s =
     rbind (arax_task_wait_done controller task s) (\<lambda>s.
     rbind (get_task task s) (\<lambda>t. Ok (ta_state t, s)))"

definition arax_task_free_with :: "ref_dec_fn \<Rightarrow> addr \<Rightarrow> arax_pipe_s \<Rightarrow> arax_pipe_s res" where
  "arax_task_free_with ref_dec task s = rbind (ref_dec task s) (\<lambda>(_, s). Ok s)"

definition arax_task_issue_sync_with ::
  "arax_env \<Rightarrow> ref_dec_fn \<Rightarrow> controller_fn \<Rightarrow> addr \<Rightarrow> addr \<Rightarrow> 8 word list option \<Rightarrow> u64 \<Rightarrow> addr list \<Rightarrow> addr list \<Rightarrow>
     arax_pipe_s \<Rightarrow> (arax_task_state_e \<times> arax_pipe_s) res" where
  "arax_task_issue_sync_with env ref_dec controller accel proc host_init hsize dev_in dev_out s =
     rbind (arax_task_issue_with env ref_dec accel proc host_init hsize dev_in dev_out s) (\<lambda>(task, s).
     rbind (arax_task_wait controller task s) (\<lambda>(status, s).
     rbind (arax_task_free_with ref_dec task s) (\<lambda>s. Ok (status, s))))"

section \<open>Data: transfers\<close>

text \<open>\<open>arax_data_get\<close>: the bytes it copies to \<open>user\<close>.\<close>

definition arax_data_get_with ::
  "arax_env \<Rightarrow> ref_dec_fn \<Rightarrow> controller_fn \<Rightarrow> addr \<Rightarrow> arax_pipe_s \<Rightarrow> (8 word list \<times> arax_pipe_s) res" where
  "arax_data_get_with env ref_dec controller data s =
     rbind (arax_proc_get ''arax_data_get'' s) (\<lambda>(prc, s).
     rbind (get_data data s) (\<lambda>vd.
     rbind (arax_assert (da_accel vd \<noteq> 0) ''vd->accel'') (\<lambda>_.
     rbind (arax_task_issue_with env ref_dec (da_accel vd) prc None (da_size vd) [] [data] s) (\<lambda>(task, s).
     rbind (arax_task_wait controller task s) (\<lambda>(st, s).
     rbind (arax_assert (st = task_completed) ''arax_task_wait(task) == task_completed'') (\<lambda>_.
     rbind (arax_data_size data s) (\<lambda>sz.
     rbind (arax_task_host_data env task sz s) (\<lambda>_.
     rbind (get_task task s) (\<lambda>t.
     rbind (arax_task_free_with ref_dec task s) (\<lambda>s.
     rbind (arax_proc_put_with ref_dec prc s) (\<lambda>(_, s).
     Ok (take (unat sz) (host_data t), s))))))))))))"

definition arax_data_set_with ::
  "arax_env \<Rightarrow> ref_dec_fn \<Rightarrow> addr \<Rightarrow> addr \<Rightarrow> 8 word list \<Rightarrow> arax_pipe_s \<Rightarrow> arax_pipe_s res" where
  "arax_data_set_with env ref_dec data accel user s =
     rbind (arax_proc_get ''arax_data_set'' s) (\<lambda>(prc, s).
     rbind (get_data data s) (\<lambda>vd.
     rbind (arax_assert (da_accel vd = 0 \<or> da_accel vd = accel) ''(!(vd->accel)) || (vd->accel == accel)'') (\<lambda>_.
     rbind (if da_accel vd = 0 then arax_object_ref_inc accel s else Ok s) (\<lambda>s.
     rbind (mod_data data (\<lambda>d. d\<lparr>da_accel := accel\<rparr>) s) (\<lambda>s.
     rbind (arax_task_issue_with env ref_dec accel prc (Some user) (da_size vd) [] [data] s) (\<lambda>(_, s).
     rbind (arax_proc_put_with ref_dec prc s) (\<lambda>(_, s). Ok s)))))))"

text \<open>
  \<open>arax_data_memcpy\<close> hands \<open>arax_data_get\<close> a null buffer to copy to. Copying no bytes there is
  harmless, anything else is a write through null.
\<close>

definition arax_data_memcpy_with ::
  "arax_env \<Rightarrow> ref_dec_fn \<Rightarrow> controller_fn \<Rightarrow> addr \<Rightarrow> addr \<Rightarrow> addr \<Rightarrow> arax_pipe_s \<Rightarrow> arax_pipe_s res" where
  "arax_data_memcpy_with env ref_dec controller accel dst src s =
     (if dst = src then Ok s
      else
        rbind (get_data dst s) (\<lambda>d1.
        rbind (get_data src s) (\<lambda>d2.
        rbind (arax_assert (da_size d1 = da_size d2) ''!Size mismatch'') (\<lambda>_.
        rbind (arax_data_get_with env ref_dec controller src s) (\<lambda>(bytes, s).
        if bytes \<noteq> [] then Fault (Bad_access ''memcpy(0, ...)'')
        else
          rbind (arax_data_deref src s) (\<lambda>b.
          arax_data_set_with env ref_dec dst accel (read_bytes b (unat (da_size d1)) s) s))))))"

text \<open>
  \<open>arax_data_allocate_remote\<close>; the test of the argument \<open>accel\<close> comes after it was dereferenced, so
  its branch is dead.
\<close>

definition arax_data_allocate_remote_with ::
  "arax_env \<Rightarrow> ref_dec_fn \<Rightarrow> controller_fn \<Rightarrow> addr \<Rightarrow> addr \<Rightarrow> arax_pipe_s \<Rightarrow> arax_pipe_s res" where
  "arax_data_allocate_remote_with env ref_dec controller data accel s =
     rbind (get_vaccel accel s) (\<lambda>v.
     if va_type v = CPU then Ok s
     else
       rbind (get_data data s) (\<lambda>d.
       if remote d \<noteq> 0 then rbind (arax_assert (da_accel d \<noteq> 0) ''data->accel'') (\<lambda>_. Ok s)
       else
         rbind (if accel = 0 then rbind (arax_object_ref_inc accel s) (mod_data data (\<lambda>d. d\<lparr>da_accel := accel\<rparr>)) else Ok s) (\<lambda>s.
         rbind (arax_proc_get ''alloc_data'' s) (\<lambda>(prc, s).
         rbind (arax_task_issue_with env ref_dec accel prc None 0 [] [data] s) (\<lambda>(task, s).
         rbind (arax_task_wait controller task s) (\<lambda>(st, s).
         rbind (arax_assert (st = task_completed) ''arax_task_wait(task) == task_completed'') (\<lambda>_.
         rbind (arax_task_free_with ref_dec task s) (\<lambda>s.
         rbind (get_data data s) (\<lambda>d.
         rbind (arax_assert (remote d \<noteq> 0) ''data->remote'') (\<lambda>_.
         rbind (arax_assert (da_accel d = accel) ''data->accel == accel'') (\<lambda>_.
         rbind (get_vaccel accel s) (\<lambda>v.
         arax_accel_size_dec (va_phys v) (da_size d) s))))))))))))"

section \<open>Data: destruction\<close>

definition bytes_of_u64 :: "u64 \<Rightarrow> 8 word list" where
  "bytes_of_u64 w = map (\<lambda>i. ucast (drop_bit (8 * i) w)) [0..<8]"

text \<open>
  A remote copy that belongs to the runtime is freed by a task on the accelerator's own queue; the
  procedure \<open>free\<close> is looked up, which takes a reference that is not given back.
\<close>

definition dtor_arax_data_s :: "arax_env \<Rightarrow> ref_dec_fn \<Rightarrow> addr \<Rightarrow> arax_pipe_s \<Rightarrow> arax_pipe_s res" where
  "dtor_arax_data_s env ref_dec obj s =
     rbind (get_data obj s) (\<lambda>d.
     rbind
       (if remote d \<noteq> 0 \<and> flags d AND OTHR_REMT = 0 then
          (if da_phys d = 0 then Fault (Assert_failed ''!Orphan dangling remote'')
           else
             let args = concat (map bytes_of_u64 [obj, remote d, da_size d, da_phys d]) in
             rbind (arax_proc_get ''free'' s) (\<lambda>(prc, s).
             rbind (get_accel (da_phys d) s) (\<lambda>phys.
             rbind (arax_task_issue_with env ref_dec (free_vaq phys) prc (Some args) 32 [] [] s) (\<lambda>(_, s).
             rbind (ref_dec (da_accel d) s) (\<lambda>(_, s). Ok s)))))
        else if da_accel d \<noteq> 0 then
          rbind (get_obj (da_accel d) s) (\<lambda>h.
          rbind (arax_assert (ob_type h = ARAX_TYPE_VIRT_ACCEL) ''data->accel->type == ARAX_TYPE_VIRT_ACCEL'') (\<lambda>_.
          rbind (ref_dec (da_accel d) s) (\<lambda>(_, s). Ok s)))
        else Ok s) (\<lambda>s.
     rbind (get_obj obj s) (\<lambda>h. Ok (set_obj obj (h\<lparr>ob_type := ARAX_TYPE_COUNT\<rparr>) s))))"

end
