(* ===== verification/Destructors.thy ===== *)
theory Destructors
  imports Task
begin

text \<open>
  The table of destructors of \<open>src/core/arax_object.c\<close> and the functions that drop references through
  it. A destructor drops the references its object holds, so \<open>arax_object_ref_dec\<close> calls itself through
  the table. The model bounds that recursion by \<open>fuel\<close>; theory \<open>Reclaim\<close> shows how much is enough.
\<close>

section \<open>The table\<close>

fun dtor_table :: "arax_env \<Rightarrow> ref_dec_fn \<Rightarrow> arax_object_type_e \<Rightarrow> addr \<Rightarrow> arax_pipe_s \<Rightarrow> arax_pipe_s res" where
  "dtor_table env ref_dec ARAX_TYPE_PHYS_ACCEL = dtor_arax_accel_s ref_dec"
| "dtor_table env ref_dec ARAX_TYPE_VIRT_ACCEL = dtor_arax_vaccel_s"
| "dtor_table env ref_dec ARAX_TYPE_PROC = dtor_arax_proc_s"
| "dtor_table env ref_dec ARAX_TYPE_DATA = dtor_arax_data_s env ref_dec"
| "dtor_table env ref_dec ARAX_TYPE_TASK = dtor_arax_task_msg_s ref_dec"
| "dtor_table env ref_dec ARAX_TYPE_COUNT = (\<lambda>_ _. Fault (Bad_access ''dtor_table''))"

primrec arax_object_ref_dec :: "nat \<Rightarrow> arax_env \<Rightarrow> ref_dec_fn" where
  "arax_object_ref_dec 0 env = (\<lambda>_ _. Fault Out_of_fuel)"
| "arax_object_ref_dec (Suc fuel) env =
     arax_object_ref_dec_with env (dtor_table env (arax_object_ref_dec fuel env))"

definition arax_object_ref_dec_pre_locked :: "nat \<Rightarrow> arax_env \<Rightarrow> ref_dec_fn" where
  "arax_object_ref_dec_pre_locked fuel env =
     arax_object_ref_dec_pre_locked_with env (dtor_table env (arax_object_ref_dec fuel env))"

section \<open>The functions that drop references\<close>

definition arax_pipe_delete_accel :: "nat \<Rightarrow> arax_env \<Rightarrow> addr \<Rightarrow> arax_pipe_s \<Rightarrow> (int \<times> arax_pipe_s) res" where
  "arax_pipe_delete_accel fuel env = arax_pipe_delete_accel_with (arax_object_ref_dec fuel env)"

definition arax_accel_release :: "nat \<Rightarrow> arax_env \<Rightarrow> addr \<Rightarrow> arax_pipe_s \<Rightarrow> arax_pipe_s res" where
  "arax_accel_release fuel env = arax_accel_release_with (arax_object_ref_dec fuel env)"

definition arax_proc_put :: "nat \<Rightarrow> arax_env \<Rightarrow> addr \<Rightarrow> arax_pipe_s \<Rightarrow> (u32 \<times> arax_pipe_s) res" where
  "arax_proc_put fuel env = arax_proc_put_with (arax_object_ref_dec fuel env)"

definition arax_data_free :: "nat \<Rightarrow> arax_env \<Rightarrow> addr \<Rightarrow> arax_pipe_s \<Rightarrow> arax_pipe_s res" where
  "arax_data_free fuel env = arax_data_free_with (arax_object_ref_dec fuel env)"

definition arax_data_migrate_accel :: "nat \<Rightarrow> arax_env \<Rightarrow> addr \<Rightarrow> addr \<Rightarrow> arax_pipe_s \<Rightarrow> arax_pipe_s res" where
  "arax_data_migrate_accel fuel env = arax_data_migrate_accel_with (arax_object_ref_dec fuel env)"

definition arax_data_arg_init :: "nat \<Rightarrow> arax_env \<Rightarrow> addr \<Rightarrow> addr \<Rightarrow> arax_pipe_s \<Rightarrow> arax_pipe_s res" where
  "arax_data_arg_init fuel env = arax_data_arg_init_with (arax_object_ref_dec fuel env)"

definition arax_task_issue :: "nat \<Rightarrow> arax_env \<Rightarrow> addr \<Rightarrow> addr \<Rightarrow> 8 word list option \<Rightarrow> u64 \<Rightarrow> addr list \<Rightarrow> addr list \<Rightarrow>
    arax_pipe_s \<Rightarrow> (addr \<times> arax_pipe_s) res" where
  "arax_task_issue fuel env = arax_task_issue_with env (arax_object_ref_dec fuel env)"

definition arax_task_issue_sync :: "nat \<Rightarrow> arax_env \<Rightarrow> controller_fn \<Rightarrow> addr \<Rightarrow> addr \<Rightarrow> 8 word list option \<Rightarrow> u64 \<Rightarrow>
    addr list \<Rightarrow> addr list \<Rightarrow> arax_pipe_s \<Rightarrow> (arax_task_state_e \<times> arax_pipe_s) res" where
  "arax_task_issue_sync fuel env = arax_task_issue_sync_with env (arax_object_ref_dec fuel env)"

definition arax_task_free :: "nat \<Rightarrow> arax_env \<Rightarrow> addr \<Rightarrow> arax_pipe_s \<Rightarrow> arax_pipe_s res" where
  "arax_task_free fuel env = arax_task_free_with (arax_object_ref_dec fuel env)"

definition arax_data_get :: "nat \<Rightarrow> arax_env \<Rightarrow> controller_fn \<Rightarrow> addr \<Rightarrow> arax_pipe_s \<Rightarrow> (8 word list \<times> arax_pipe_s) res" where
  "arax_data_get fuel env = arax_data_get_with env (arax_object_ref_dec fuel env)"

definition arax_data_set :: "nat \<Rightarrow> arax_env \<Rightarrow> addr \<Rightarrow> addr \<Rightarrow> 8 word list \<Rightarrow> arax_pipe_s \<Rightarrow> arax_pipe_s res" where
  "arax_data_set fuel env = arax_data_set_with env (arax_object_ref_dec fuel env)"

definition arax_data_memcpy :: "nat \<Rightarrow> arax_env \<Rightarrow> controller_fn \<Rightarrow> addr \<Rightarrow> addr \<Rightarrow> addr \<Rightarrow>
    arax_pipe_s \<Rightarrow> arax_pipe_s res" where
  "arax_data_memcpy fuel env = arax_data_memcpy_with env (arax_object_ref_dec fuel env)"

definition arax_data_allocate_remote :: "nat \<Rightarrow> arax_env \<Rightarrow> controller_fn \<Rightarrow> addr \<Rightarrow> addr \<Rightarrow> arax_pipe_s \<Rightarrow> arax_pipe_s res" where
  "arax_data_allocate_remote fuel env = arax_data_allocate_remote_with env (arax_object_ref_dec fuel env)"

end
