(* ===== verification/Config.thy ===== *)
theory Config
  imports Prelude
begin

text \<open>
  \<open>src/utils/config.c\<close>: the configuration file, a text of key and value words, which \<open>_arax_init\<close> reads.

  The files are a map from paths to their text. Reading goes through models of the C library calls
  the code uses (\<open>fscanf\<close> with a width, \<open>strncmp\<close>, \<open>strncpy\<close>, \<open>strtol\<close> with base 0). A character array
  is a list of characters of its size; the value a caller gets back is the array. Text and paths
  contain no zero byte.
\<close>

section \<open>The C library calls\<close>

type_synonym files = "string \<rightharpoonup> string"

definition NUL :: char where
  "NUL = CHR 0x00"

definition isspace :: "char \<Rightarrow> bool" where
  "isspace c \<longleftrightarrow> c \<in> {CHR 0x20, CHR 0x09, CHR 0x0A, CHR 0x0B, CHR 0x0C, CHR 0x0D}"

text \<open>One \<open>%<width>s\<close> conversion: the word and the rest of the input, \<open>None\<close> at the end of the file.\<close>

fun word_take :: "nat \<Rightarrow> string \<Rightarrow> string \<times> string" where
  "word_take 0 cs = ([], cs)"
| "word_take (Suc n) [] = ([], [])"
| "word_take (Suc n) (c # cs) = (if isspace c then ([], c # cs) else map_prod ((#) c) id (word_take n cs))"

definition scan_word :: "nat \<Rightarrow> string \<Rightarrow> (string \<times> string) option" where
  "scan_word width cs =
     (let cs = dropWhile isspace cs in if cs = [] then None else Some (word_take width cs))"

definition strneq :: "nat \<Rightarrow> string \<Rightarrow> string \<Rightarrow> bool" where
  "strneq n a b \<longleftrightarrow> take n a = take n b"

definition strncpy :: "string \<Rightarrow> nat \<Rightarrow> string" where
  "strncpy src n = take n src @ replicate (n - length src) NUL"

definition cstr :: "string \<Rightarrow> string" where
  "cstr buf = takeWhile (\<lambda>c. c \<noteq> NUL) buf"

text \<open>\<open>strtol(s, &end, 0)\<close>: the value, whether \<open>errno\<close> is set, and how many characters \<open>end\<close> is past \<open>s\<close>.\<close>

definition digit_val :: "char \<Rightarrow> nat" where
  "digit_val c =
     (let n = of_char c in
      if 48 \<le> n \<and> n \<le> 57 then n - 48
      else if 97 \<le> n \<and> n \<le> 122 then n - 87
      else if 65 \<le> n \<and> n \<le> 90 then n - 55
      else 99)"

definition digits :: "nat \<Rightarrow> string \<Rightarrow> string" where
  "digits base cs = takeWhile (\<lambda>c. digit_val c < base) cs"

definition digits_val :: "nat \<Rightarrow> string \<Rightarrow> nat" where
  "digits_val base ds = foldl (\<lambda>v c. v * base + digit_val c) 0 ds"

definition LONG_MAX :: int where "LONG_MAX = 9223372036854775807"
definition LONG_MIN :: int where "LONG_MIN = - 9223372036854775808"

definition strtol :: "string \<Rightarrow> int \<times> bool \<times> nat" where
  "strtol s =
     (let ws = length (takeWhile isspace s);
          s = drop ws s;
          neg = (s \<noteq> [] \<and> s ! 0 = CHR ''-'');
          sign = (if s \<noteq> [] \<and> (s ! 0 = CHR ''-'' \<or> s ! 0 = CHR ''+'') then 1 else 0);
          s = drop sign s;
          hex = (2 < length s \<and> s ! 0 = CHR ''0'' \<and> (s ! 1 = CHR ''x'' \<or> s ! 1 = CHR ''X'') \<and> digit_val (s ! 2) < 16);
          base = (if hex then 16 else if s \<noteq> [] \<and> s ! 0 = CHR ''0'' then 8 else 10);
          prefix = (if hex then 2 else 0);
          ds = digits base (drop prefix s);
          v = (if neg then - int (digits_val base ds) else int (digits_val base ds))
      in if ds = [] then (0, False, 0)
         else if v > LONG_MAX then (LONG_MAX, True, ws + sign + prefix + length ds)
         else if v < LONG_MIN then (LONG_MIN, True, ws + sign + prefix + length ds)
         else (v, False, ws + sign + prefix + length ds))"

section \<open>Writing\<close>

text \<open>The mode \<open>"rw"\<close> opens for reading only, so the \<open>fprintf\<close> of \<open>utils_config_write_long\<close> writes nothing.\<close>

definition utils_config_write_long :: "files \<Rightarrow> string \<Rightarrow> string \<Rightarrow> int \<Rightarrow> files res" where
  "utils_config_write_long fs path key v =
     (case fs path of None \<Rightarrow> Fault (Bad_access ''fprintf(0, ...)'') | Some _ \<Rightarrow> Ok fs)"

definition config_line :: "string \<Rightarrow> string \<Rightarrow> string" where
  "config_line key v = key @ [CHR 0x20] @ v @ [CHR 0x0A]"

definition utils_config_write_str :: "files \<Rightarrow> string \<Rightarrow> string \<Rightarrow> string \<Rightarrow> files" where
  "utils_config_write_str fs path key v =
     fs(path \<mapsto> (case fs path of None \<Rightarrow> [] | Some txt \<Rightarrow> txt) @ config_line key v)"

section \<open>Paths\<close>

text \<open>
  \<open>utils_config_alloc_path\<close>: \<open>home\<close> is the result of \<open>system_home_path\<close>, \<open>sz\<close> the room left in the array of
  4096 bytes, \<open>acc\<close> its text so far. \<open>strncat\<close> ends what it copied with one more byte.
\<close>

fun path_loop :: "string option \<Rightarrow> string \<Rightarrow> string \<Rightarrow> nat \<Rightarrow> string option res" where
  "path_loop home [] acc sz = (if sz = 0 then Ok None else Ok (Some acc))"
| "path_loop home (c # cs) acc sz =
     (if sz = 0 then Ok None
      else if c = CHR ''~'' then
        (case home of
           None \<Rightarrow> Fault (Bad_access ''strlen(home)'')
         | Some h \<Rightarrow>
             rbind (arax_assert (length h \<le> sz) ''size - home_len <= sizeof(temp)'') (\<lambda>_.
             if length h = sz then Fault (Bad_access ''strncat(tp, home, size)'')
             else path_loop home cs (acc @ h) (sz - length h)))
      else path_loop home cs (acc @ [c]) (sz - 1))"

definition utils_config_alloc_path :: "string option \<Rightarrow> string option \<Rightarrow> string option res" where
  "utils_config_alloc_path home path = (case path of None \<Rightarrow> Ok None | Some p \<Rightarrow> path_loop home p [] 4096)"

section \<open>Reading\<close>

text \<open>
  The loop of \<open>_utils_config_get_str\<close>: the value found. A key at the very end of the file has no value
  and leaves \<open>cval\<close> as the round before left it, uninitialised in the first round.
\<close>

lemma word_take_shorter: "length (snd (word_take n cs)) \<le> length cs"
  by (induction n cs rule: word_take.induct) auto

lemma scan_word_shorter: "scan_word (Suc n) cs = Some (w, rest) \<Longrightarrow> length rest < length cs"
proof -
  assume "scan_word (Suc n) cs = Some (w, rest)"
  then have ne: "dropWhile isspace cs \<noteq> []" and r: "rest = snd (word_take (Suc n) (dropWhile isspace cs))"
    by (auto simp: scan_word_def Let_def split: if_splits)
  obtain d ds where d: "dropWhile isspace cs = d # ds" using ne by (cases "dropWhile isspace cs") auto
  then have "\<not> isspace d" using hd_dropWhile [OF ne] by simp
  then have "length rest \<le> length ds" using r d word_take_shorter [of n ds] by (cases "word_take n ds") simp
  moreover have "length (dropWhile isspace cs) \<le> length cs" by (rule length_dropWhile_le)
  ultimately show ?thesis using d by simp
qed

lemma scan_word_not_longer: "scan_word n cs = Some (w, rest) \<Longrightarrow> length rest \<le> length cs"
  using word_take_shorter [of n "dropWhile isspace cs"] length_dropWhile_le [of isspace cs]
  by (auto simp: scan_word_def Let_def split: if_splits dest: arg_cong [of _ _ snd])

function config_scan :: "string \<Rightarrow> string option \<Rightarrow> string \<Rightarrow> string option res" where
  "config_scan key cval txt =
     (case scan_word 127 txt of
        None \<Rightarrow> Ok None
      | Some (ckey, rest) \<Rightarrow>
          (case scan_word 895 rest of
             None \<Rightarrow>
               (if strneq 128 ckey key
                then (case cval of None \<Rightarrow> Fault (Bad_access ''cval'') | Some v \<Rightarrow> Ok (Some v))
                else Ok None)
           | Some (v, rest) \<Rightarrow> if strneq 128 ckey key then Ok (Some v) else config_scan key (Some v) rest))"
  by pat_completeness auto
termination
proof (relation "measure (\<lambda>(key, cval, txt). length txt)")
  fix key :: string and cval inp and x :: "string \<times> string" and ckey rest and y :: "string \<times> string" and v rest'
  assume "scan_word 127 inp = Some x" "(ckey, rest) = x" "scan_word 895 rest = Some y" "(v, rest') = y"
  then have "length rest < length inp" "length rest' \<le> length rest"
    using scan_word_shorter [of 126 inp ckey rest] scan_word_not_longer [of 895 rest v rest'] by auto
  then show "((key, Some v, rest'), (key, cval, inp)) \<in> measure (\<lambda>(key, cval, txt). length txt)" by simp
qed simp

declare config_scan.simps [simp del]

text \<open>\<open>_utils_config_get_str\<close>: the array \<open>value\<close> when the key was found, and the length of the whole value.\<close>

definition config_get_str :: "files \<Rightarrow> string \<Rightarrow> string \<Rightarrow> nat \<Rightarrow> (nat \<times> string option) res" where
  "config_get_str fs path key value_size =
     (case fs path of
        None \<Rightarrow> Ok (0, None)
      | Some txt \<Rightarrow>
          rbind (config_scan key None txt) (\<lambda>found.
          case found of None \<Rightarrow> Ok (0, None) | Some cval \<Rightarrow> Ok (length cval, Some (strncpy cval value_size))))"

definition utils_config_get_str ::
  "files \<Rightarrow> string \<Rightarrow> string \<Rightarrow> nat \<Rightarrow> string option \<Rightarrow> ((bool \<times> string option) \<times> files) res" where
  "utils_config_get_str fs path key value_size def_val =
     rbind (config_get_str fs path key value_size) (\<lambda>(len, v).
     if len = 0 then
       (case def_val of
          Some d \<Rightarrow> Ok ((False, Some (strncpy d value_size)), utils_config_write_str fs path key d)
        | None \<Rightarrow> Ok ((False, v), fs))
     else Ok ((True, v), fs))"

text \<open>
  The array of \<open>utils_config_get_long\<close> has 22 bytes; a longer value leaves it without an end, which is
  an access out of bounds when \<open>strtol\<close> gets that far.
\<close>

definition utils_config_get_long :: "files \<Rightarrow> string \<Rightarrow> string \<Rightarrow> int \<Rightarrow> (bool \<times> int) res" where
  "utils_config_get_long fs path key def_val =
     rbind (config_get_str fs path key 22) (\<lambda>(len, v).
     if len \<noteq> 0 then
       (case v of
          None \<Rightarrow> Fault (Bad_access ''cval'')
        | Some cval \<Rightarrow>
            let (n, err, endp) = strtol (cstr cval) in
            if NUL \<notin> set cval \<and> endp = length cval then Fault (Bad_access ''cval[22]'')
            else if err \<or> endp = 0 then rbind (utils_config_write_long fs path key def_val) (\<lambda>_. Ok (False, def_val))
            else Ok (True, n))
     else Ok (False, def_val))"

definition utils_config_get_int :: "files \<Rightarrow> string \<Rightarrow> string \<Rightarrow> int \<Rightarrow> (bool \<times> int) res" where
  "utils_config_get_int fs path key def_val =
     rbind (utils_config_get_long fs path key def_val) (\<lambda>(found, cval).
     if found \<and> cval \<le> 2147483647 \<and> - 2147483648 \<le> cval then Ok (True, cval) else Ok (False, def_val))"

definition utils_config_get_bool :: "files \<Rightarrow> string \<Rightarrow> string \<Rightarrow> int \<Rightarrow> (bool \<times> int) res" where
  "utils_config_get_bool fs path key def_val =
     rbind (utils_config_get_int fs path key def_val) (\<lambda>(found, v).
     if found \<and> (v = 0 \<or> v = 1) then Ok (True, v) else Ok (False, def_val))"

text \<open>The default is passed on as a \<open>long\<close>; every non-negative \<open>long\<close> is a \<open>size_t\<close>.\<close>

definition utils_config_get_size :: "files \<Rightarrow> string \<Rightarrow> string \<Rightarrow> u64 \<Rightarrow> (bool \<times> u64) res" where
  "utils_config_get_size fs path key def_val =
     rbind (utils_config_get_long fs path key (sint def_val)) (\<lambda>(found, cval).
     if found \<and> 0 \<le> cval then Ok (True, word_of_int cval) else Ok (False, def_val))"

section \<open>Paths are expanded or refused, never cut\<close>

definition expand_home :: "string \<Rightarrow> string \<Rightarrow> string" where
  "expand_home home path = concat (map (\<lambda>c. if c = CHR ''~'' then home else [c]) path)"

lemma path_loop_expands:
  "path_loop (Some home) cs acc sz = Ok (Some q) \<longleftrightarrow>
     q = acc @ expand_home home cs \<and> length (expand_home home cs) < sz"
  by (induction "Some home" cs acc sz rule: path_loop.induct) (auto simp: expand_home_def res_simps split: if_splits)

text \<open>\<open>utils_config_alloc_path\<close> returns a path exactly when the expansion of every tilde to the home
  directory, with its end, fits the array of 4096 bytes, and then it is that expansion: a path is
  never cut short.\<close>

theorem config_path_expands:
  "utils_config_alloc_path (Some home) (Some path) = Ok (Some q) \<longleftrightarrow>
     q = expand_home home path \<and> length q < 4096"
  by (auto simp: utils_config_alloc_path_def path_loop_expands)

section \<open>The file as an association list\<close>

definition config_text :: "(string \<times> string) list \<Rightarrow> string" where
  "config_text kvs = concat (map (\<lambda>(k, v). config_line k v) kvs)"

definition is_word :: "nat \<Rightarrow> string \<Rightarrow> bool" where
  "is_word n w \<longleftrightarrow> w \<noteq> [] \<and> length w \<le> n \<and> list_all (\<lambda>c. \<not> isspace c \<and> c \<noteq> NUL) w"

definition config_ok :: "(string \<times> string) list \<Rightarrow> bool" where
  "config_ok kvs \<longleftrightarrow> list_all (\<lambda>(k, v). is_word 127 k \<and> is_word 895 v) kvs"

lemma word_take_word:
  "list_all (\<lambda>c. \<not> isspace c) w \<Longrightarrow> length w \<le> n \<Longrightarrow> isspace c \<Longrightarrow> word_take n (w @ c # rest) = (w, c # rest)"
proof (induction w arbitrary: n)
  case Nil
  then show ?case by (cases n) simp_all
next
  case (Cons a w)
  then show ?case by (cases n) simp_all
qed

lemma is_wordD: "is_word n w \<Longrightarrow> w \<noteq> [] \<and> length w \<le> n \<and> list_all (\<lambda>c. \<not> isspace c) w \<and> NUL \<notin> set w"
  by (auto simp: is_word_def list_all_iff)

lemma scan_word_word:
  assumes "is_word n w" and "list_all isspace ws" and "isspace c"
  shows "scan_word n (ws @ w @ c # rest) = Some (w, c # rest)"
proof -
  obtain a w' where w: "w = a # w'" "\<not> isspace a" using is_wordD [OF assms(1)] by (cases w) auto
  then have "dropWhile isspace (ws @ w @ c # rest) = w @ c # rest"
    using assms(2) by (subst dropWhile_append2) (auto simp: list_all_iff)
  with word_take_word [of w n c rest] is_wordD [OF assms(1)] assms(3) show ?thesis by (simp add: scan_word_def)
qed

lemma scan_word_empty: "list_all isspace ws \<Longrightarrow> scan_word n ws = None"
  by (simp add: scan_word_def list_all_iff dropWhile_eq_Nil_conv [THEN iffD2])

lemma strneq_key: "is_word 127 k \<Longrightarrow> strneq 128 k key \<longleftrightarrow> k = key"
proof
  assume k: "is_word 127 k" and "strneq 128 k key"
  then have eq: "take 128 key = k" by (simp add: strneq_def is_word_def)
  then have "length key \<le> 128 \<or> length k = 128" by (metis length_take min.absorb2 nle_le)
  with k eq show "k = key" by (auto simp: is_word_def)
qed (simp add: strneq_def)

lemma isspace_sep [simp]: "isspace (CHR 0x20)" "isspace (CHR 0x0A)" "\<not> isspace NUL"
  by (simp_all add: isspace_def NUL_def)

lemma config_scan_pairs:
  "config_ok kvs \<Longrightarrow> list_all isspace ws \<Longrightarrow> config_scan key cval (ws @ config_text kvs) = Ok (map_of kvs key)"
proof (induction kvs arbitrary: ws cval)
  case Nil
  then show ?case by (subst config_scan.simps) (simp add: config_text_def scan_word_empty)
next
  case (Cons kv kvs)
  obtain k v where kv: "kv = (k, v)" by (cases kv)
  with Cons.prems have k: "is_word 127 k" and v: "is_word 895 v" and ok: "config_ok kvs" by (auto simp: config_ok_def)
  let ?rest = "CHR 0x0A # config_text kvs"
  have "ws @ config_text (kv # kvs) = ws @ k @ CHR 0x20 # v @ ?rest"
    by (simp add: kv config_text_def config_line_def)
  moreover have "scan_word 127 (ws @ k @ CHR 0x20 # v @ ?rest) = Some (k, CHR 0x20 # v @ ?rest)"
    using scan_word_word [OF k Cons.prems(2), of "CHR 0x20"] by simp
  moreover have "scan_word 895 ([CHR 0x20] @ v @ ?rest) = Some (v, ?rest)"
    by (rule scan_word_word [OF v]) simp_all
  moreover have "config_scan key (Some v) ([CHR 0x0A] @ config_text kvs) = Ok (map_of kvs key)"
    by (rule Cons.IH [OF ok]) simp
  ultimately show ?case by (subst config_scan.simps) (simp add: kv strneq_key [OF k])
qed

lemma config_get_str_pairs:
  assumes "fs path = Some (config_text kvs)" and "config_ok kvs"
  shows "config_get_str fs path key n =
    Ok (case map_of kvs key of None \<Rightarrow> (0, None) | Some v \<Rightarrow> (length v, Some (strncpy v n)))"
  using config_scan_pairs [OF assms(2), of "[]" key None] assms(1)
  by (simp add: config_get_str_def split: option.splits)

lemma cstr_strncpy: "NUL \<notin> set v \<Longrightarrow> length v < n \<Longrightarrow> cstr (strncpy v n) = v"
  by (simp add: cstr_def strncpy_def, subst takeWhile_append2) (auto simp: takeWhile_replicate)

lemma config_okD: "config_ok kvs \<Longrightarrow> map_of kvs key = Some v \<Longrightarrow> is_word 895 v"
  by (auto simp: config_ok_def list_all_iff dest: map_of_SomeD)

text \<open>C39. On a file of well-formed lines \<open>utils_config_get_str\<close> is the lookup of the first line with the
  key, the value arriving whole when the array has room for it. When the key is missing the default
  is returned and written behind the lines, so the next lookup finds it.\<close>

theorem config_str_roundtrip:
  assumes "fs path = Some (config_text kvs)" and "config_ok kvs"
    and "is_word 127 key" and "is_word 895 d" and "length d < n"
  shows "case map_of kvs key of
      Some v \<Rightarrow> utils_config_get_str fs path key n (Some d) = Ok ((True, Some (strncpy v n)), fs) \<and>
        (length v < n \<longrightarrow> cstr (strncpy v n) = v)
    | None \<Rightarrow> \<exists>fs' buf. utils_config_get_str fs path key n (Some d) = Ok ((False, Some buf), fs') \<and> cstr buf = d \<and>
        fs' path = Some (config_text (kvs @ [(key, d)])) \<and>
        utils_config_get_str fs' path key n None = Ok ((True, Some buf), fs')"
proof (cases "map_of kvs key")
  case (Some v)
  from config_okD [OF assms(2) Some] have "v \<noteq> []" "NUL \<notin> set v" by (auto dest: is_wordD)
  then show ?thesis using Some config_get_str_pairs [of fs path kvs key n, OF assms(1,2)] cstr_strncpy [of v n]
    by (simp add: utils_config_get_str_def)
next
  case None
  let ?fs = "utils_config_write_str fs path key d"
  have d: "d \<noteq> []" "NUL \<notin> set d" using is_wordD [OF assms(4)] by auto
  have fs': "?fs path = Some (config_text (kvs @ [(key, d)]))"
    using assms(1) by (simp add: utils_config_write_str_def config_text_def)
  have "config_ok (kvs @ [(key, d)])" using assms(2-4) by (simp add: config_ok_def)
  from config_get_str_pairs [of ?fs path _ key n, OF fs' this] None d
  have "config_get_str ?fs path key n = Ok (length d, Some (strncpy d n))" by (simp add: map_add_def)
  with None config_get_str_pairs [of fs path kvs key n, OF assms(1,2)] fs' d cstr_strncpy [of d n] assms(5) show ?thesis
    by (simp add: utils_config_get_str_def)
qed

theorem config_str_roundtrip_witness:
  "\<exists>fs' buf. utils_config_get_str [''c'' \<mapsto> config_text [(''shm_size'', ''4096'')]] ''c'' ''shm_file'' 1024 (Some ''arax'') =
      Ok ((False, Some buf), fs') \<and> cstr buf = ''arax'' \<and>
      utils_config_get_str fs' ''c'' ''shm_file'' 1024 None = Ok ((True, Some buf), fs')"
  using config_str_roundtrip [of "[''c'' \<mapsto> config_text [(''shm_size'', ''4096'')]]" "''c''" "[(''shm_size'', ''4096'')]"
      "''shm_file''" "''arax''" 1024]
  by (simp add: config_ok_def is_word_def isspace_def NUL_def) blast

section \<open>Numbers\<close>

lemma digit_val_dec [simp]: "d < 10 \<Longrightarrow> digit_val (char_of (48 + d)) = d"
  by (simp add: digit_val_def)

lemma dec_str_digits: "list_all (\<lambda>c. digit_val c < 10) (dec_str n)"
  by (induction n rule: dec_str.induct) (subst dec_str.simps, simp)

lemma digits_val_snoc: "digits_val b (ds @ [c]) = digits_val b ds * b + digit_val c"
  by (simp add: digits_val_def)

lemma digits_val_dec_str: "digits_val 10 (dec_str n) = n"
proof (induction n rule: dec_str.induct)
  case (1 n)
  show ?case
  proof (cases "n < 10")
    case True
    then show ?thesis by (subst dec_str.simps) (simp add: digits_val_def)
  next
    case False
    with 1 show ?thesis by (subst dec_str.simps) (simp add: digits_val_snoc)
  qed
qed

lemma dec_str_ne: "dec_str n \<noteq> []"
  by (subst dec_str.simps) simp

lemma dec_str_first: "0 < n \<Longrightarrow> digit_val (dec_str n ! 0) \<noteq> 0"
proof (induction n rule: dec_str.induct)
  case (1 n)
  then show ?case
  proof (cases "n < 10")
    case False
    with 1 dec_str_ne [of "n div 10"] show ?thesis by (subst dec_str.simps) (simp add: nth_append)
  qed (subst dec_str.simps, simp)
qed

lemma dec_str_length: "n < 10 ^ Suc k \<Longrightarrow> length (dec_str n) \<le> Suc k"
proof (induction k arbitrary: n)
  case (Suc k)
  then show ?case by (subst dec_str.simps) (simp add: Suc.IH less_mult_imp_div_less mult.commute)
qed (subst dec_str.simps, simp)

lemma digit_not: "digit_val c < 10 \<Longrightarrow> \<not> isspace c \<and> c \<noteq> NUL \<and> c \<noteq> CHR ''-'' \<and> c \<noteq> CHR ''+'' \<and> c \<noteq> CHR ''x'' \<and> c \<noteq> CHR ''X''"
  by (auto simp: isspace_def NUL_def digit_val_def)

lemma digit_zero: "digit_val c = 0 \<longleftrightarrow> c = CHR ''0''"
proof
  assume "digit_val c = 0"
  then have "of_char c = (48 :: nat)" by (auto simp: digit_val_def Let_def split: if_splits)
  then have "(of_char c :: nat) = of_char (CHR ''0'')" by simp
  then show "c = CHR ''0''" by (simp only: of_char_eq_iff)
qed (simp add: digit_val_def)

lemma dec_str_digit: "i < length (dec_str n) \<Longrightarrow> digit_val (dec_str n ! i) < 10"
  using dec_str_digits [of n] by (simp add: list_all_length)

lemma dec_str_0: "dec_str 0 = ''0''"
proof -
  have "dec_str 0 = [char_of (48 :: nat)]" by (subst dec_str.simps) simp
  also have "char_of (48 :: nat) = CHR ''0''" by (simp add: of_char_eq_iff [symmetric, where 'a = nat])
  finally show ?thesis .
qed

lemma strtol_decimal:
  assumes "s \<noteq> []" and "takeWhile isspace s = []" and "s ! 0 \<notin> {CHR ''-'', CHR ''+'', CHR ''0''}"
    and "digits 10 s = s" and "int (digits_val 10 s) \<le> LONG_MAX"
  shows "strtol s = (int (digits_val 10 s), False, length s)"
  using assms unfolding strtol_def Let_def by (simp add: LONG_MIN_def)

lemma strtol_zero: "strtol ''0'' = (0, False, 1)"
  by code_simp

lemma dec_str_no_space: "takeWhile isspace (dec_str n) = []"
proof -
  have "\<not> isspace (dec_str n ! 0)" using digit_not dec_str_digit [of 0 n] dec_str_ne [of n] unfolding length_greater_0_conv by blast
  then show ?thesis using dec_str_ne [of n] by (cases "dec_str n") simp_all
qed

lemma dec_str_plain: "0 < n \<Longrightarrow> dec_str n ! 0 \<notin> {CHR ''-'', CHR ''+'', CHR ''0''}"
  using digit_not [of "dec_str n ! 0"] dec_str_digit [of 0 n] dec_str_ne [of n] dec_str_first [of n] digit_zero [of "dec_str n ! 0"]
  unfolding length_greater_0_conv by (metis insertE empty_iff)

lemma dec_str_all: "digits 10 (dec_str n) = dec_str n"
  using dec_str_digits [of n] unfolding digits_def takeWhile_eq_all_conv list_all_iff .

lemma strtol_dec_str:
  assumes "int n \<le> LONG_MAX"
  shows "strtol (dec_str n) = (int n, False, length (dec_str n))"
proof (cases "n = 0")
  case True
  then show ?thesis by (simp only: dec_str_0 strtol_zero) simp
next
  case False
  from strtol_decimal [OF dec_str_ne dec_str_no_space dec_str_plain dec_str_all, of n] False assms
  show ?thesis unfolding digits_val_dec_str by blast
qed

text \<open>A size written in decimal, up to the largest \<open>long\<close>, is read back by
  \<open>utils_config_get_size\<close> as that size; a key that is not in the file gives the default.\<close>

theorem config_size_roundtrip:
  assumes "fs path = Some (config_text kvs)" and "config_ok kvs"
  shows "(map_of kvs key = Some (dec_str n) \<and> n < 2 ^ 63 \<longrightarrow>
      utils_config_get_size fs path key def = Ok (True, of_nat n)) \<and>
    (map_of kvs key = None \<longrightarrow> utils_config_get_size fs path key def = Ok (False, def))"
proof (intro conjI impI)
  assume key: "map_of kvs key = Some (dec_str n) \<and> n < 2 ^ 63"
  have nul: "NUL \<notin> set (dec_str n)" using dec_str_digits [of n] digit_not by (auto simp: list_all_iff)
  have len: "length (dec_str n) < 22" using dec_str_length [of n 18] key by simp
  have "int n \<le> LONG_MAX" using key by (simp add: LONG_MAX_def)
  note st = strtol_dec_str [OF this]
  have "NUL \<in> set (strncpy (dec_str n) 22)" using len by (simp add: strncpy_def)
  with key st cstr_strncpy [OF nul len] dec_str_ne [of n] config_get_str_pairs [of fs path kvs key 22, OF assms]
  have "utils_config_get_long fs path key (sint def) = Ok (True, int n)"
    by (simp add: utils_config_get_long_def)
  then show "utils_config_get_size fs path key def = Ok (True, of_nat n)"
    by (simp add: utils_config_get_size_def)
next
  assume "map_of kvs key = None"
  with config_get_str_pairs [of fs path kvs key 22, OF assms] show "utils_config_get_size fs path key def = Ok (False, def)"
    by (simp add: utils_config_get_size_def utils_config_get_long_def)
qed

theorem config_size_roundtrip_witness:
  "utils_config_get_size [''c'' \<mapsto> config_text [(''shm_size'', dec_str 65536)]] ''c'' ''shm_size'' 7 = Ok (True, 65536)"
proof -
  have "config_ok [(''shm_size'', dec_str 65536)]"
    using dec_str_digits [of 65536] digit_not dec_str_length [of 65536 18] dec_str_ne [of 65536]
    by (auto simp: config_ok_def is_word_def isspace_def NUL_def list_all_iff)
  with config_size_roundtrip [of "[''c'' \<mapsto> config_text [(''shm_size'', dec_str 65536)]]" "''c''"
      "[(''shm_size'', dec_str 65536)]" "''shm_size''" 65536 7]
  show ?thesis by simp
qed

end
