(* ===== verification/System.thy ===== *)
theory System
  imports Config
begin

text \<open>
  \<open>src/utils/system.c\<close> and \<open>src/utils/timer.h\<close>: what the library asks of the operating system, the text of
  a backtrace, and time stamps.

  The answers of the operating system are the fields of \<open>arax_os\<close>: each field is the result of one
  system call, the functions of \<open>system.c\<close> are computed from them.
\<close>

section \<open>Queries\<close>

record arax_os =
  os_files :: files
  os_phys_pages :: u64
  os_page_size :: u64
  os_passwd_dir :: "string option"
  os_stat_size :: "string \<Rightarrow> u64 option"
  os_readlink :: "string option"
  os_getpid :: u32
  os_gettid :: u32
  os_open :: "string \<Rightarrow> int"
  os_shm_open :: "string \<Rightarrow> int"
  os_ftruncate :: "int \<Rightarrow> u64 \<Rightarrow> int"
  os_mmap :: "addr \<Rightarrow> u64 \<Rightarrow> int \<Rightarrow> u64 \<Rightarrow> addr"
  os_shm_unlink :: "string \<Rightarrow> int"

definition system_total_memory :: "arax_os \<Rightarrow> u64" where
  "system_total_memory os = os_phys_pages os * os_page_size os"

definition system_home_path :: "arax_os \<Rightarrow> string option" where
  "system_home_path os = os_passwd_dir os"

definition system_file_size :: "arax_os \<Rightarrow> string \<Rightarrow> u64" where
  "system_file_size os file = (case os_stat_size os file of None \<Rightarrow> 0 | Some sz \<Rightarrow> sz)"

definition system_exec_name :: "arax_os \<Rightarrow> string" where
  "system_exec_name os =
     (case os_readlink os of
        None \<Rightarrow> ''/proc/self/exe: Could not readlink!'' @ [CHR 0x0A]
      | Some name \<Rightarrow> take 1023 name)"

definition system_process_id :: "arax_os \<Rightarrow> u32" where
  "system_process_id os = os_getpid os"

definition system_thread_id :: "arax_os \<Rightarrow> u32" where
  "system_thread_id os = os_gettid os"

section \<open>Backtraces\<close>

text \<open>\<open>%*s\<close>: the text flushed right, or left for a negative width.\<close>

definition pad_str :: "int \<Rightarrow> string \<Rightarrow> string" where
  "pad_str w s =
     (let fill = replicate (nat \<bar>w\<bar> - length s) (CHR 0x20) in if 0 \<le> w then fill @ s else s @ fill)"

definition unbracket :: "char \<Rightarrow> char" where
  "unbracket c = (if c \<in> {CHR ''('', CHR '')'', CHR ''['', CHR '']''} then CHR 0x20 else c)"

text \<open>\<open>sscanf(pos, "%s %s %s", ...)\<close> into variables that keep their value when the words run out.\<close>

definition scan_into :: "string \<Rightarrow> string \<Rightarrow> string \<times> string" where
  "scan_into old txt = (case scan_word (length txt) txt of None \<Rightarrow> (old, []) | Some (w, rest) \<Rightarrow> (w, rest))"

text \<open>
  \<open>formatStackLine\<close>: the new column widths and the text written to \<open>dest\<close>. The three arrays have
  \<open>bt_sym_len\<close> bytes, a word and its end have to fit; \<open>exe\<close> is not initialised.
\<close>

definition formatStackLine :: "string \<Rightarrow> nat \<times> nat \<times> nat \<Rightarrow> ((nat \<times> nat \<times> nat) \<times> string) res" where
  "formatStackLine bt_sym cwidths =
     (let pos = map unbracket bt_sym;
          bt_sym_len = length bt_sym in
      if bt_sym_len < 8 then Fault (Bad_access ''sprintf(symbol, NO_SYMB)'')
      else case scan_word bt_sym_len pos of
        None \<Rightarrow> Fault (Bad_access ''strlen(exe)'')
      | Some (exe, rest) \<Rightarrow>
          let (symbol, rest) = scan_into ''NO_SYMB'' rest;
              (adr, rest) = scan_into ''NO_ADDR'' rest in
          if bt_sym_len \<le> length exe \<or> bt_sym_len \<le> length symbol \<or> bt_sym_len \<le> length adr
          then Fault (Bad_access ''sscanf'')
          else
            let (adr, symbol) = (if adr = ''NO_SYMB'' then (symbol, ''NO_SYMB'') else (adr, symbol));
                (w0, w1, w2) = cwidths;
                (w0, w1, w2) = (max w0 (length exe), max w1 (length adr), max w2 (length symbol))
            in Ok ((w0, w1, w2), pad_str (int w0) exe @ [CHR 0x20] @ pad_str (int w1) adr @ [CHR 0x20] @ symbol))"

fun format_widths :: "string list \<Rightarrow> nat \<times> nat \<times> nat \<Rightarrow> (nat \<times> nat \<times> nat) res" where
  "format_widths [] cw = Ok cw"
| "format_widths (l # ls) cw = rbind (formatStackLine l cw) (\<lambda>(cw, _). format_widths ls cw)"

fun format_lines :: "string list \<Rightarrow> nat \<times> nat \<times> nat \<Rightarrow> string res" where
  "format_lines [] cw = Ok []"
| "format_lines (l # ls) cw =
     rbind (formatStackLine l cw) (\<lambda>(cw, txt).
     rbind (format_lines ls cw) (\<lambda>rest. Ok ([CHR 0x0A] @ txt @ rest)))"

definition backtrace_title :: "nat \<Rightarrow> string \<Rightarrow> string" where
  "backtrace_title w str =
     pad_str (int (w div 2 + length str)) str @ pad_str (int (w div 2) - int (length str)) [CHR 0x20]"

text \<open>
  \<open>system_backtrace\<close> for the symbols \<open>backtrace_symbols\<close> returns. The loops run down from the last symbol
  and stop at \<open>skip\<close>, which they miss when there are not that many.
\<close>

definition system_backtrace :: "string list \<Rightarrow> nat \<Rightarrow> string res" where
  "system_backtrace bt_syms skip =
     (if length bt_syms \<le> skip then Fault (Bad_access ''bt_syms[-1]'')
      else
        let ls = rev (drop (Suc skip) bt_syms) in
        rbind (format_widths ls (6, 6, 8)) (\<lambda>(w0, w1, w2).
        rbind (format_lines ls (w0, w1, w2)) (\<lambda>body.
        let dest = [CHR 0x0A, CHR 0x0A] @ backtrace_title w0 ''Binary'' @ backtrace_title w1 ''Location'' @
              backtrace_title w2 ''Symbol'' @ body in
        if 32768 \<le> length dest then Fault (Bad_access ''__backtraceStr'') else Ok dest)))"

section \<open>Timers\<close>

text \<open>\<open>struct timespec\<close> as seconds and nanoseconds; C division truncates, the operands are not negative.\<close>

record timespec =
  tv_sec :: int
  tv_nsec :: int

record utils_timer_s =
  tm_start :: timespec
  tm_stop :: timespec

definition UTILS_TIMER_MS :: int where "UTILS_TIMER_MS = 1000000"
definition UTILS_TIMER_US :: int where "UTILS_TIMER_US = 1000"
definition UTILS_TIMER_NS :: int where "UTILS_TIMER_NS = 1"

definition utils_timer_tv_time :: "timespec \<Rightarrow> int \<Rightarrow> int" where
  "utils_timer_tv_time tv scale = tv_sec tv * (1000000000 div scale) + tv_nsec tv div scale"

definition utils_timer_get_duration_us :: "utils_timer_s \<Rightarrow> int" where
  "utils_timer_get_duration_us t =
     utils_timer_tv_time (tm_stop t) UTILS_TIMER_US - utils_timer_tv_time (tm_start t) UTILS_TIMER_US"

definition utils_timer_get_duration_ns :: "utils_timer_s \<Rightarrow> int" where
  "utils_timer_get_duration_ns t =
     utils_timer_tv_time (tm_stop t) UTILS_TIMER_NS - utils_timer_tv_time (tm_start t) UTILS_TIMER_NS"

definition utils_timer_get_elapsed_us :: "timespec \<Rightarrow> utils_timer_s \<Rightarrow> int" where
  "utils_timer_get_elapsed_us now t = utils_timer_tv_time now UTILS_TIMER_US - utils_timer_tv_time (tm_start t) UTILS_TIMER_US"

definition utils_timer_get_elapsed_ns :: "timespec \<Rightarrow> utils_timer_s \<Rightarrow> int" where
  "utils_timer_get_elapsed_ns now t = utils_timer_tv_time now UTILS_TIMER_NS - utils_timer_tv_time (tm_start t) UTILS_TIMER_NS"

text \<open>A duration in microseconds is within one microsecond of the duration in nanoseconds, whatever
  the two time stamps are, so rounding the stamps before the subtraction costs no more than that.\<close>

theorem timer_us_precision:
  "\<bar>1000 * utils_timer_get_duration_us t - utils_timer_get_duration_ns t\<bar> < 1000"
proof -
  have tv: "utils_timer_tv_time v UTILS_TIMER_NS = 1000 * utils_timer_tv_time v UTILS_TIMER_US + tv_nsec v mod 1000" for v
    by (simp add: utils_timer_tv_time_def UTILS_TIMER_US_def UTILS_TIMER_NS_def algebra_simps mult_div_mod_eq)
  have "0 \<le> tv_nsec v mod 1000" "tv_nsec v mod 1000 < 1000" for v by simp_all
  from this [of "tm_start t"] this [of "tm_stop t"] tv [of "tm_start t"] tv [of "tm_stop t"] show ?thesis
    unfolding utils_timer_get_duration_us_def utils_timer_get_duration_ns_def abs_less_iff right_diff_distrib by linarith
qed

end
