(* ===== verification/Shm.thy ===== *)
theory Shm
  imports Destructors System
begin

text \<open>
  \<open>src/arch/shm/impl.c\<close>, \<open>src/core/arax_ptr.c\<close> and \<open>src/utils/arax_plot.c\<close>: how a process attaches to the
  segment and leaves it, and the functions of the application interface over it.

  \<open>arax_state\<close> is the static state of one process; the segment is the shared part. Calls of the
  operating system are answered by \<open>arax_os\<close>; what the build fixes is \<open>arax_conf\<close>. Mapping the segment at
  any address shows the same contents.
\<close>

section \<open>The state of a process\<close>

record arax_state =
  vpipe :: addr
  shm_file :: string
  threads :: u64
  instance_uid :: u64
  initialized :: bool
  initialy_available :: u64
  config_path :: "string option"
  fd :: int

record arax_conf =
  CONF_ARAX_MMAP_BASE :: addr
  ARAX_CONFIG_FILE :: string

definition arax_state_init :: "arax_conf \<Rightarrow> arax_state" where
  "arax_state_init conf =
     \<lparr>vpipe = CONF_ARAX_MMAP_BASE conf, shm_file = [], threads = 0, instance_uid = 0, initialized = False,
      initialy_available = 0, config_path = None, fd = 0\<rparr>"

definition MAP_FAILED :: addr where "MAP_FAILED = -1"

text \<open>
  The label \<open>FAIL\<close>: unmapping reads the size out of the segment first, which is an invalid access
  unless something is mapped.
\<close>

definition init_fail :: "bool \<Rightarrow> 'a res" where
  "init_fail mapped = (if mapped then Fault Exited else Fault (Bad_access ''arax_state.vpipe->shm_size''))"

section \<open>Attaching\<close>

text \<open>The configuration: segment file, size, offset, and the three switches.\<close>

record shm_config =
  cf_file :: string
  cf_size :: u64
  cf_off :: u64
  cf_trunc :: bool
  cf_enforce :: bool

definition read_config :: "arax_os \<Rightarrow> string \<Rightarrow> shm_config option res" where
  "read_config os path =
     rbind (utils_config_get_str (os_files os) path ''shm_file'' 1024 None) (\<lambda>((found, buf), _).
     if \<not> found then Ok None
     else case buf of
       None \<Rightarrow> Ok None
     | Some file \<Rightarrow>
         rbind (utils_config_get_size (os_files os) path ''shm_size'' (system_total_memory os div 4)) (\<lambda>(_, sz).
         if sz = 0 \<or> sz > system_total_memory os then Ok None
         else
           rbind (utils_config_get_size (os_files os) path ''shm_off'' 0) (\<lambda>(_, off).
           rbind (utils_config_get_bool (os_files os) path ''shm_trunc'' 1) (\<lambda>(_, trunc).
           rbind (utils_config_get_bool (os_files os) path ''shm_ivshmem'' 0) (\<lambda>(_, ivshmem).
           rbind (utils_config_get_bool (os_files os) path ''enforce_version'' 1) (\<lambda>(_, enforce).
           Ok (Some \<lparr>cf_file = cstr file, cf_size = sz, cf_off = (if ivshmem \<noteq> 0 then off + 4096 else off),
                     cf_trunc = (trunc \<noteq> 0 \<and> ivshmem = 0), cf_enforce = (enforce \<noteq> 0)\<rparr>)))))))"

text \<open>The part of \<open>_arax_init\<close> from \<open>open\<close> to the last \<open>mmap\<close>: the process state and the segment.\<close>

definition map_segment :: "arax_os \<Rightarrow> shm_config \<Rightarrow> arax_state \<Rightarrow> arax_pipe_s \<Rightarrow> (arax_state \<times> arax_pipe_s) res" where
  "map_segment os cf st s =
     (let fdn = (if cf_file cf \<noteq> [] \<and> cf_file cf ! 0 = CHR ''/'' then os_open os (cf_file cf) else os_shm_open os (cf_file cf));
          st = st\<lparr>shm_file := cf_file cf, fd := fdn\<rparr> in
      if fdn < 0 then init_fail False
      else if cf_trunc cf \<and> system_file_size os (cf_file cf) \<noteq> cf_size cf \<and> os_ftruncate os fdn (cf_size cf) \<noteq> 0
      then init_fail False
      else
        let vp = os_mmap os (vpipe st) (cf_size cf) fdn (cf_off cf) in
        if vp = 0 \<or> vp = MAP_FAILED then init_fail False
        else
          let (shm_addr, s) = arax_pipe_mmap_address vp s in
          rbind (arax_pipe_have_to_mmap (system_process_id os) s) (\<lambda>(have_to, s).
          let vp = (if have_to
                    then (if shm_addr \<noteq> vp then os_mmap os shm_addr (cf_size cf) fdn (cf_off cf) else vp)
                    else shm_addr) in
          if vp = 0 \<or> vp = MAP_FAILED then init_fail False
          else if vp \<noteq> shm_addr then init_fail True
          else Ok (st\<lparr>vpipe := vp\<rparr>, s)))"

text \<open>The label \<open>GOOD\<close>: applications wait for the controller.\<close>

definition wait_for_controller :: "bool \<Rightarrow> arax_pipe_s \<Rightarrow> arax_pipe_s res" where
  "wait_for_controller wait_controller s =
     (if wait_controller then
        rbind (async_condition_lock (cntrl_ready_cond s)) (\<lambda>c.
        rbind (if cntrl_ready s = 0 then async_condition_wait c else Ok c) (\<lambda>c.
        Ok (s\<lparr>cntrl_ready_cond := async_condition_unlock c\<rparr>)))
      else Ok s)"

definition arax_init_fn :: "arax_conf \<Rightarrow> arax_os \<Rightarrow> arax_env \<Rightarrow> bool \<Rightarrow> arax_state \<Rightarrow> arax_pipe_s \<Rightarrow>
    (addr \<times> arax_state \<times> arax_pipe_s) res" where
  "arax_init_fn conf os env wait_controller st s =
     (let first = (threads st = 0);
          st = st\<lparr>threads := threads st + 1\<rparr> in
      if \<not> first then
        (if \<not> initialized st then Fault (Blocked ''while (!arax_state.initialized)'')
         else rbind (wait_for_controller wait_controller s) (\<lambda>s. Ok (vpipe st, st, s)))
      else
        rbind (utils_config_alloc_path (system_home_path os) (Some (ARAX_CONFIG_FILE conf))) (\<lambda>path.
        case path of
          None \<Rightarrow> Fault (Bad_access ''fopen(0, ...)'')
        | Some path \<Rightarrow>
            let st = st\<lparr>config_path := Some path\<rparr> in
            rbind (read_config os path) (\<lambda>cf.
            case cf of
              None \<Rightarrow> init_fail False
            | Some cf \<Rightarrow>
                rbind (map_segment os cf st s) (\<lambda>(st, s).
                rbind (arax_pipe_init env (vpipe st) (cf_size cf) (cf_enforce cf) s) (\<lambda>(vp, s).
                rbind (arax_assert (vp \<noteq> 0) ''pipe'') (\<lambda>_.
                let st = st\<lparr>vpipe := vp, initialy_available := arax_pipe_get_available_size s,
                            instance_uid := last_uid s, initialized := True\<rparr>;
                    s = s\<lparr>last_uid := last_uid s + 1\<rparr> in
                rbind (wait_for_controller wait_controller s) (\<lambda>s. Ok (vp, st, s))))))))"

definition arax_init :: "arax_conf \<Rightarrow> arax_os \<Rightarrow> arax_env \<Rightarrow> arax_state \<Rightarrow> arax_pipe_s \<Rightarrow> (addr \<times> arax_state \<times> arax_pipe_s) res" where
  "arax_init conf os env = arax_init_fn conf os env True"

definition arax_controller_init_start ::
  "arax_conf \<Rightarrow> arax_os \<Rightarrow> arax_env \<Rightarrow> arax_state \<Rightarrow> arax_pipe_s \<Rightarrow> (addr \<times> arax_state \<times> arax_pipe_s) res" where
  "arax_controller_init_start conf os env = arax_init_fn conf os env False"

definition arax_controller_init_done :: "arax_pipe_s \<Rightarrow> arax_pipe_s" where
  "arax_controller_init_done s = s\<lparr>cntrl_ready := 1, cntrl_ready_cond := async_condition_notify (cntrl_ready_cond s)\<rparr>"

definition arax_instance_uid :: "arax_state \<Rightarrow> u64" where
  "arax_instance_uid st = instance_uid st"

section \<open>Leaving\<close>

definition arax_clean :: "arax_conf \<Rightarrow> arax_os \<Rightarrow> bool res" where
  "arax_clean conf os =
     rbind (utils_config_alloc_path (system_home_path os) (Some (ARAX_CONFIG_FILE conf))) (\<lambda>path.
     case path of
       None \<Rightarrow> Fault (Bad_access ''fopen(0, ...)'')
     | Some path \<Rightarrow>
         rbind (utils_config_get_str (os_files os) path ''shm_file'' 1024 None) (\<lambda>((found, buf), _).
         rbind (arax_assert found ''!No shm_file set in config'') (\<lambda>_.
         case buf of
           None \<Rightarrow> Ok False
         | Some file \<Rightarrow> Ok (os_shm_unlink os (cstr file) = 0))))"

text \<open>\<open>arax_exit\<close>; the warning about a missing \<open>arax_init\<close> leaves everything as it is.\<close>

definition arax_exit :: "arax_conf \<Rightarrow> arax_os \<Rightarrow> arax_env \<Rightarrow> arax_state \<Rightarrow> arax_pipe_s \<Rightarrow> (arax_state \<times> arax_pipe_s) res" where
  "arax_exit conf os env st s =
     (if vpipe st = 0 then Ok (st, s)
      else
        let last_thread = (threads st = 1);
            st = st\<lparr>threads := threads st - 1\<rparr> in
        if \<not> last_thread then Ok (st, s)
        else
          rbind (arax_pipe_exit env s) (\<lambda>(last_process, s).
          rbind (if last_process
                 then arax_assert (arax_pipe_get_available_size s = initialy_available st)
                   ''available == arax_state.initialy_available''
                 else Ok ()) (\<lambda>_.
          rbind (arax_pipe_mark_unmap env (system_process_id os) s) (\<lambda>s.
          let st = st\<lparr>vpipe := 0, config_path := None\<rparr> in
          rbind (if last_process then arax_clean conf os else Ok True) (\<lambda>_.
          Ok (st, s))))))"

section \<open>Pointers and metrics\<close>

text \<open>\<open>arax_ptr_valid\<close> attaches the process once more, with all that comes with it.\<close>

definition arax_ptr_valid :: "arax_conf \<Rightarrow> arax_os \<Rightarrow> arax_env \<Rightarrow> addr \<Rightarrow> arax_state \<Rightarrow> arax_pipe_s \<Rightarrow>
    (bool \<times> arax_state \<times> arax_pipe_s) res" where
  "arax_ptr_valid conf os env ptr st s =
     rbind (arax_init conf os env st s) (\<lambda>(pipe, st, s).
     Ok (ptr_in_segment pipe ptr s, st, s))"

text \<open>\<open>arax_plot_register_metric\<close>: the name is copied into the segment, the key is the address of the copy.\<close>

definition arax_plot_register_metric :: "arax_conf \<Rightarrow> arax_os \<Rightarrow> arax_env \<Rightarrow> string \<Rightarrow> addr \<Rightarrow> arax_state \<Rightarrow> arax_pipe_s \<Rightarrow>
    (addr \<times> arax_state \<times> arax_pipe_s) res" where
  "arax_plot_register_metric conf os env name metric st s =
     rbind (arax_init conf os env st s) (\<lambda>(pipe, st, s).
     rbind
       (if metric \<noteq> 0 then
          rbind (arax_ptr_valid conf os env metric st s) (\<lambda>(valid, st, s).
          rbind (arax_assert valid ''arax_ptr_valid(metric)'') (\<lambda>_. Ok (metric, st, s)))
        else
          rbind (arch_alloc_allocate (mspace env) (allocator s) 8) (\<lambda>(m, al). Ok (m, st, s\<lparr>allocator := al\<rparr>))) (\<lambda>(metric, st, s).
     rbind (arch_alloc_allocate (mspace env) (allocator s) (of_nat (length name + 1))) (\<lambda>(vname, al).
     let s = s\<lparr>allocator := al\<rparr> in
     if vname = 0 then Fault (Bad_access ''strcpy(vname, name)'')
     else
       rbind (utils_kv_set (kv_capacity env) (metrics_kv s) vname metric) (\<lambda>kv.
       Ok (metric, st, s\<lparr>metrics_kv := kv\<rparr>)))))"

section \<open>Accelerators\<close>

definition arax_accel_set_physical :: "addr \<Rightarrow> addr \<Rightarrow> arax_pipe_s \<Rightarrow> arax_pipe_s res" where
  "arax_accel_set_physical vaccel phys s =
     rbind (arax_assert (phys \<noteq> 0) ''phys'') (\<lambda>_.
     rbind (arax_assert (vaccel \<noteq> 0) ''vaccel'') (\<lambda>_.
     arax_accel_add_vaccel phys vaccel s))"

text \<open>An array of accelerators that ends with null is the list of its entries.\<close>

definition arax_accel_list_free :: "nat \<Rightarrow> arax_env \<Rightarrow> addr list \<Rightarrow> arax_pipe_s \<Rightarrow> arax_pipe_s res" where
  "arax_accel_list_free fuel env accels s = ref_dec_all (arax_object_ref_dec fuel env) accels s"

definition arax_accel_list_free_pre_locked :: "nat \<Rightarrow> arax_env \<Rightarrow> addr list \<Rightarrow> arax_pipe_s \<Rightarrow> arax_pipe_s res" where
  "arax_accel_list_free_pre_locked fuel env accels s = ref_dec_all (arax_object_ref_dec_pre_locked fuel env) accels s"

text \<open>The field \<open>type\<close> lies at the same place in both kinds of accelerators.\<close>

definition accel_type_field :: "addr \<Rightarrow> arax_pipe_s \<Rightarrow> arax_accel_type_e res" where
  "accel_type_field a s =
     (case objects s a of
        Some (_, Accel b) \<Rightarrow> Ok (ac_type b)
      | Some (_, Vaccel b) \<Rightarrow> Ok (va_type b)
      | _ \<Rightarrow> Fault (Bad_access ''accel->type''))"

fun accel_collect :: "arax_accel_type_e \<Rightarrow> bool \<Rightarrow> addr list \<Rightarrow> arax_pipe_s \<Rightarrow> (addr list \<times> arax_pipe_s) res" where
  "accel_collect ty want [] s = Ok ([], s)"
| "accel_collect ty want (a # as) s =
     rbind (accel_type_field a s) (\<lambda>t.
     if ty = ANY \<or> t = ty then
       rbind (if want then arax_object_ref_inc a s else Ok s) (\<lambda>s.
       rbind (accel_collect ty want as s) (\<lambda>(found, s). Ok (a # found, s)))
     else accel_collect ty want as s)"

text \<open>
  \<open>arax_accel_list(type, physical, accels)\<close>: \<open>accels\<close> is \<open>None\<close> for a null argument, \<open>Some []\<close> for a pointer to
  null and \<open>Some old\<close> for a pointer to an earlier result. The result is the count and the new array.
\<close>

definition arax_accel_list :: "nat \<Rightarrow> arax_env \<Rightarrow> arax_accel_type_e \<Rightarrow> bool \<Rightarrow> addr list option \<Rightarrow> arax_pipe_s \<Rightarrow>
    ((u32 \<times> addr list option) \<times> arax_pipe_s) res" where
  "arax_accel_list fuel env ty physical accels s =
     (let ltype = (if physical then ARAX_TYPE_PHYS_ACCEL else ARAX_TYPE_VIRT_ACCEL) in
      rbind (arax_object_list_lock ltype s) (\<lambda>s.
      rbind (case accels of None \<Rightarrow> Ok s | Some old \<Rightarrow> arax_accel_list_free_pre_locked fuel env old s) (\<lambda>s.
      rbind (repo_objects ltype s) (\<lambda>as.
      rbind (accel_collect ty (accels \<noteq> None) as s) (\<lambda>(found, s).
      rbind (arax_object_list_unlock ltype s) (\<lambda>s.
      Ok ((of_nat (length found), map_option (\<lambda>_. found) accels), s)))))))"

definition arax_accel_type :: "addr \<Rightarrow> arax_pipe_s \<Rightarrow> arax_accel_type_e res" where
  "arax_accel_type accel s = accel_type_field accel s"

definition arax_accel_stat :: "addr \<Rightarrow> arax_pipe_s \<Rightarrow> arax_accel_state_e res" where
  "arax_accel_stat accel s =
     rbind (get_obj accel s) (\<lambda>h.
     case ob_type h of
       ARAX_TYPE_PHYS_ACCEL \<Rightarrow> arax_accel_get_stat accel s
     | ARAX_TYPE_VIRT_ACCEL \<Rightarrow> arax_vaccel_get_stat accel s
     | _ \<Rightarrow> Ok accel_failed)"

text \<open>The new value of \<open>*accel\<close> and the result.\<close>

definition arax_accel_acquire_phys :: "arax_env \<Rightarrow> addr \<Rightarrow> arax_pipe_s \<Rightarrow> ((addr \<times> bool) \<times> arax_pipe_s) res" where
  "arax_accel_acquire_phys env accel s =
     rbind (get_obj accel s) (\<lambda>h.
     if ob_type h = ARAX_TYPE_PHYS_ACCEL then
       rbind (accel_type_field accel s) (\<lambda>ty.
       rbind (arax_vaccel_init env ''FILL'' ty accel s) (\<lambda>(v, s). Ok ((v, True), s)))
     else Ok ((accel, False), s))"

definition arax_accel_acquire_type :: "arax_env \<Rightarrow> arax_accel_type_e \<Rightarrow> arax_pipe_s \<Rightarrow> (addr \<times> arax_pipe_s) res" where
  "arax_accel_acquire_type env ty s = arax_vaccel_init env ''FILL'' ty 0 s"

definition ARAX_BUFFER :: "arax_env \<Rightarrow> u64 \<Rightarrow> arax_pipe_s \<Rightarrow> (addr \<times> arax_pipe_s) res" where
  "ARAX_BUFFER env sz s = arax_data_init env sz s"

section \<open>Diagnostics\<close>

text \<open>
  \<open>_arax_assert_obj\<close> of \<open>src/utils/arax_assert.c\<close>: each condition is joined with a negated string literal,
  which is zero.
\<close>

definition arax_assert_obj_fn :: "arax_conf \<Rightarrow> arax_os \<Rightarrow> arax_env \<Rightarrow> addr \<Rightarrow> arax_object_type_e \<Rightarrow> arax_state \<Rightarrow> arax_pipe_s \<Rightarrow>
    (arax_state \<times> arax_pipe_s) res" where
  "arax_assert_obj_fn conf os env obj ty st s =
     rbind (arax_assert (obj \<noteq> 0 \<and> False) ''obj && !Object was null'') (\<lambda>_.
     rbind (arax_ptr_valid conf os env obj st s) (\<lambda>(v, st, s).
     rbind (arax_assert (v \<and> False) ''arax_ptr_valid(obj) && !Object was not valid  ptr'') (\<lambda>_.
     rbind (arax_ptr_valid conf os env obj st s) (\<lambda>(v, st, s).
     rbind (arax_assert (v \<and> False) ''arax_ptr_valid(obj) && !Object was not valid  ptr'') (\<lambda>_.
     rbind (get_obj obj s) (\<lambda>h.
     rbind (arax_assert (ob_type h = ty \<and> False) ''(vo->type == type) && !Object type was not the expected'') (\<lambda>_.
     Ok (st, s))))))))"

text \<open>
  \<open>arax_data_stat\<close>: what it prints, size, flags, the sum of the bytes as \<open>int\<close>, line and file name. \<open>shm\<close>
  gives the bytes at an address. The search for the last slash runs off a name that has none.
\<close>

definition stat_file :: "string \<Rightarrow> string res" where
  "stat_file file =
     (if CHR ''/'' \<in> set file then Ok (CHR ''/'' # rev (takeWhile (\<lambda>c. c \<noteq> CHR ''/'') (rev file)))
      else Fault (Bad_access ''file--''))"

definition arax_data_stat :: "(addr \<Rightarrow> 8 word list) \<Rightarrow> addr \<Rightarrow> string \<Rightarrow> u64 \<Rightarrow> arax_pipe_s \<Rightarrow>
    (u64 \<times> string \<times> u32 \<times> u64 \<times> string) res" where
  "arax_data_stat shm data file line s =
     rbind (stat_file file) (\<lambda>file.
     rbind (arax_data_deref data s) (\<lambda>bytes.
     rbind (get_data data s) (\<lambda>d.
     let scsum = sum_list (map scast (take (unat (da_size d)) (shm bytes)));
         fl = (if flags d AND SHM_SYNC \<noteq> 0 then ''S'' else [CHR 0x20]) @
              (if flags d AND REMT_SYNC \<noteq> 0 then ''R'' else [CHR 0x20]) @
              (if flags d AND OTHR_REMT \<noteq> 0 then ''O'' else [CHR 0x20])
     in Ok (da_size d, fl, scsum, line, file))))"

end
