(* ===== verification/Ivshmem.thy ===== *)
theory Ivshmem
  imports Shm
begin

text \<open>
  \<open>src/async/ivshmem/async.c\<close>: the variant of completions, semaphores and conditions for processes on different
  virtual machines. A thread that waits puts its completion on the list \<open>outstanding\<close> and sleeps on a mutex it
  holds itself; the thread that completes rings the bell of the virtual machine of the waiter; there
  \<open>async_thread\<close> walks the list and unlocks the mutexes of what is completed.

  \<open>iv_state\<close> is \<open>async_meta_s\<close> with the memory its lists run through: the completions and semaphores by their
  addresses, and the links. What a sleeping thread needs from others is the argument \<open>others\<close> of the functions
  that wait: it runs while the mutex is locked.
\<close>

section \<open>State\<close>

datatype iv_node = Outstanding_head | Pending_head addr | Compl_node addr

record async_completion_iv =
  iv_vm_id :: u64
  iv_completed :: u64
  iv_mutex :: bool

text \<open>\<open>sem_meta\<close>: whether the pointer \<open>meta\<close> is set.\<close>

record async_semaphore_iv =
  sem_meta :: bool
  pending_lock :: u64
  sem_value :: u64

record iv_state =
  meta_lock :: u64
  links :: "iv_node list_heap"
  compls :: "addr \<rightharpoonup> async_completion_iv"
  sems :: "addr \<rightharpoonup> async_semaphore_iv"
  vm_id_reg :: u32
  bells :: "u32 list"
  meta_alloc :: arch_alloc
  meta_regs :: addr
  meta_fd :: int
  reg_fd :: int

definition get_compl :: "addr \<Rightarrow> iv_state \<Rightarrow> async_completion_iv res" where
  "get_compl a s = (case compls s a of None \<Rightarrow> Fault (Bad_access ''async_completion_s'') | Some c \<Rightarrow> Ok c)"

definition mod_compl :: "addr \<Rightarrow> (async_completion_iv \<Rightarrow> async_completion_iv) \<Rightarrow> iv_state \<Rightarrow> iv_state res" where
  "mod_compl a f s = rbind (get_compl a s) (\<lambda>c. Ok (s\<lparr>compls := (compls s)(a \<mapsto> f c)\<rparr>))"

definition get_sem :: "addr \<Rightarrow> iv_state \<Rightarrow> async_semaphore_iv res" where
  "get_sem a s = (case sems s a of None \<Rightarrow> Fault (Bad_access ''async_semaphore_s'') | Some x \<Rightarrow> Ok x)"

definition mod_sem :: "addr \<Rightarrow> (async_semaphore_iv \<Rightarrow> async_semaphore_iv) \<Rightarrow> iv_state \<Rightarrow> iv_state res" where
  "mod_sem a f s = rbind (get_sem a s) (\<lambda>x. Ok (s\<lparr>sems := (sems s)(a \<mapsto> f x)\<rparr>))"

section \<open>Registers and the list\<close>

definition wakeupVm :: "u32 \<Rightarrow> iv_state \<Rightarrow> iv_state" where
  "wakeupVm vm s = s\<lparr>bells := push_bit 16 vm # bells s\<rparr>"

definition getVmID :: "iv_state \<Rightarrow> u32" where
  "getVmID s = vm_id_reg s"

definition add_completion :: "addr \<Rightarrow> iv_state \<Rightarrow> iv_state res" where
  "add_completion compl s =
     rbind (utils_spinlock_lock (meta_lock s)) (\<lambda>l.
     let s = s\<lparr>meta_lock := l, links := utils_list_add (links s) Outstanding_head (Compl_node compl)\<rparr> in
     rbind (utils_spinlock_unlock (meta_lock s)) (\<lambda>l. Ok (s\<lparr>meta_lock := l\<rparr>)))"

text \<open>\<open>async_completion_check\<close> returns the \<open>size_t\<close> as \<open>int\<close>.\<close>

definition async_completion_check_iv :: "addr \<Rightarrow> iv_state \<Rightarrow> bool res" where
  "async_completion_check_iv compl s = rbind (get_compl compl s) (\<lambda>c. Ok ((ucast (iv_completed c) :: u32) \<noteq> 0))"

text \<open>One round of \<open>async_thread\<close>, after an interrupt: the body of the loop over the list for each node.\<close>

fun async_thread_visit :: "iv_node list \<Rightarrow> iv_state \<Rightarrow> iv_state res" where
  "async_thread_visit [] s = Ok s"
| "async_thread_visit (itr # ns) s =
     (let compl = nd_owner (links s) itr in
      rbind (async_completion_check_iv compl s) (\<lambda>complete.
      rbind (if complete
             then mod_compl compl (\<lambda>c. c\<lparr>iv_mutex := False\<rparr>) (s\<lparr>links := utils_list_del (links s) Outstanding_head itr\<rparr>)
             else Ok s) (async_thread_visit ns)))"

definition async_thread_round :: "iv_state \<Rightarrow> iv_state res" where
  "async_thread_round s =
     (case utils_list_for_each (links s) Outstanding_head of
        None \<Rightarrow> Fault (Deadlock ''utils_list_for_each_safe'')
      | Some ns \<Rightarrow> async_thread_visit ns s)"

section \<open>Setting up and ending\<close>

definition async_meta_init_once_iv :: "arax_conf \<Rightarrow> arax_os \<Rightarrow> arch_alloc \<Rightarrow> iv_state \<Rightarrow> iv_state res" where
  "async_meta_init_once_iv conf os alloc s =
     rbind (utils_config_alloc_path (system_home_path os) (Some (ARAX_CONFIG_FILE conf))) (\<lambda>config.
     case config of
       None \<Rightarrow> Fault (Bad_access ''fopen(0, ...)'')
     | Some config \<Rightarrow>
         rbind (utils_config_get_bool (os_files os) config ''shm_ivshmem'' 0) (\<lambda>(_, shm_ivshmem).
         if shm_ivshmem = 0 then Fault (Assert_failed ''abort()'')
         else Ok (s\<lparr>meta_lock := utils_spinlock_init, links := utils_list_init (links s) Outstanding_head 0, meta_alloc := alloc\<rparr>)))"

text \<open>\<open>created\<close> is whether \<open>pthread_create\<close> succeeds.\<close>

definition async_meta_init_always_iv :: "arax_conf \<Rightarrow> arax_os \<Rightarrow> bool \<Rightarrow> iv_state \<Rightarrow> iv_state res" where
  "async_meta_init_always_iv conf os created s =
     rbind (utils_config_alloc_path (system_home_path os) (Some (ARAX_CONFIG_FILE conf))) (\<lambda>config.
     case config of
       None \<Rightarrow> Fault (Bad_access ''fopen(0, ...)'')
     | Some config \<Rightarrow>
         rbind (utils_config_get_str (os_files os) config ''shm_file'' 1024 None) (\<lambda>((found, buf), _).
         case buf of
           None \<Rightarrow> Fault (Assert_failed ''abort()'')
         | Some file \<Rightarrow>
             if \<not> found then Fault (Assert_failed ''abort()'')
             else
               let s = s\<lparr>reg_fd := os_open os (cstr file)\<rparr> in
               if reg_fd s \<le> 0 then Fault (Assert_failed ''abort()'')
               else
                 let s = s\<lparr>meta_regs := os_mmap os (meta_regs s) 256 (reg_fd s) 0\<rparr> in
                 if \<not> created then Fault (Assert_failed ''abort()'') else Ok s))"

text \<open>\<open>async_thread\<close> only ends when \<open>reg_fd\<close> is zero.\<close>

definition async_meta_exit_iv :: "iv_state \<Rightarrow> iv_state res" where
  "async_meta_exit_iv s =
     (let s = wakeupVm (getVmID s) (s\<lparr>meta_fd := 0\<rparr>) in
      if reg_fd s \<noteq> 0 then Fault (Blocked ''pthread_join'') else Ok s)"

section \<open>Completions\<close>

definition async_completion_init_iv :: "addr \<Rightarrow> iv_state \<Rightarrow> iv_state" where
  "async_completion_init_iv compl s =
     s\<lparr>links := utils_list_node_init (links s) (Compl_node compl) compl,
       compls := (compls s)(compl \<mapsto> \<lparr>iv_vm_id = (case compls s compl of None \<Rightarrow> 0 | Some c \<Rightarrow> iv_vm_id c),
         iv_completed = 0, iv_mutex = True\<rparr>)\<rparr>"

definition async_completion_complete_iv :: "addr \<Rightarrow> iv_state \<Rightarrow> iv_state res" where
  "async_completion_complete_iv compl s =
     rbind (mod_compl compl (\<lambda>c. c\<lparr>iv_completed := 1\<rparr>) s) (\<lambda>s.
     rbind (get_compl compl s) (\<lambda>c. Ok (wakeupVm (ucast (iv_vm_id c)) s)))"

text \<open>Up to the lock that sleeps, and that lock.\<close>

definition completion_wait_enter :: "addr \<Rightarrow> iv_state \<Rightarrow> iv_state res" where
  "completion_wait_enter compl s =
     rbind (get_compl compl s) (\<lambda>c.
     rbind (if iv_mutex c then add_completion compl s else mod_compl compl (\<lambda>c. c\<lparr>iv_mutex := True\<rparr>) s) (\<lambda>s.
     mod_compl compl (\<lambda>c. c\<lparr>iv_vm_id := ucast (getVmID s)\<rparr>) s))"

definition completion_wait_lock :: "addr \<Rightarrow> iv_state \<Rightarrow> iv_state res" where
  "completion_wait_lock compl s =
     rbind (get_compl compl s) (\<lambda>c.
     if iv_mutex c then Fault (Blocked ''pthread_mutex_lock'') else mod_compl compl (\<lambda>c. c\<lparr>iv_mutex := True\<rparr>) s)"

definition async_completion_wait_iv :: "(iv_state \<Rightarrow> iv_state res) \<Rightarrow> addr \<Rightarrow> iv_state \<Rightarrow> iv_state res" where
  "async_completion_wait_iv others compl s =
     rbind (completion_wait_enter compl s) (\<lambda>s.
     rbind (get_compl compl s) (\<lambda>c.
     rbind (if iv_mutex c then others s else Ok s) (completion_wait_lock compl)))"

section \<open>Semaphores\<close>

definition async_semaphore_init_iv :: "addr \<Rightarrow> iv_state \<Rightarrow> iv_state" where
  "async_semaphore_init_iv sem s =
     s\<lparr>links := utils_list_init (links s) (Pending_head sem) 0,
       sems := (sems s)(sem \<mapsto> \<lparr>sem_meta = (case sems s sem of None \<Rightarrow> False | Some x \<Rightarrow> sem_meta x),
         pending_lock = utils_spinlock_init, sem_value = 0\<rparr>)\<rparr>"

definition async_semaphore_value_iv :: "addr \<Rightarrow> iv_state \<Rightarrow> int res" where
  "async_semaphore_value_iv sem s = rbind (get_sem sem s) (\<lambda>x. Ok (sint (ucast (sem_value x) :: u32)))"

text \<open>
  The loop of \<open>async_semaphore_inc\<close>; \<open>v\<close> is the value of the semaphore when an iteration begins. The value the
  loop tests is an \<open>int\<close>.
\<close>

lemma ucast_dec: "(ucast (v - 1 :: u64) :: u32) = ucast v - 1"
proof transfer
  fix v :: int
  have "(v mod 2 ^ 64 - 1) mod 2 ^ 32 = (v mod 2 ^ 64 mod 2 ^ 32 - 1) mod 2 ^ 32" by (simp only: mod_diff_left_eq)
  also have "\<dots> = (v mod 2 ^ 32 - 1) mod 2 ^ 32" by (simp add: mod_mod_cancel)
  also have "\<dots> = (v - 1) mod 2 ^ 32" by (simp only: mod_diff_left_eq)
  finally have "(v mod 2 ^ 64 - 1) mod 2 ^ 32 = (v - 1) mod 2 ^ 32" .
  then show "take_bit LENGTH(32) (take_bit LENGTH(64) (v - 1)) = take_bit LENGTH(32) (take_bit LENGTH(64) v - 1)"
    by (simp add: take_bit_eq_mod mod_mod_cancel)
qed

lemma ucast_dec_less: "(ucast (v :: u64) :: u32) \<noteq> 0 \<Longrightarrow> unat (ucast (v - 1) :: u32) < unat (ucast v :: u32)"
  unfolding ucast_dec by (metis unat_minus_one unat_gt_0 diff_less zero_less_one)

function sem_wake :: "addr \<Rightarrow> u64 \<Rightarrow> iv_state \<Rightarrow> iv_state res" where
  "sem_wake sem v s =
     rbind (get_sem sem s) (\<lambda>x.
     let node = nd_next (links s) (Pending_head sem);
         s = s\<lparr>links := utils_list_del (links s) (Pending_head sem) node\<rparr> in
     if \<not> sem_meta x then Fault (Bad_access ''meta->lock'')
     else
       rbind (add_completion (nd_owner (links s) node) s) (\<lambda>s.
       rbind (async_completion_complete_iv (nd_owner (links s) node) s) (\<lambda>s.
       rbind (mod_sem sem (\<lambda>x. x\<lparr>sem_value := v - 1\<rparr>) s) (\<lambda>s.
       if (ucast v :: u32) \<noteq> 0 then sem_wake sem (v - 1) s else Ok s))))"
  by pat_completeness auto
termination
  by (relation "measure (\<lambda>(_, v, _). unat (ucast v :: u32))") (simp_all add: ucast_dec_less)

definition async_semaphore_inc_iv :: "addr \<Rightarrow> iv_state \<Rightarrow> iv_state res" where
  "async_semaphore_inc_iv sem s =
     rbind (mod_sem sem (\<lambda>x. x\<lparr>sem_value := sem_value x + 1\<rparr>) s) (\<lambda>s.
     if ls_length (links s) (Pending_head sem) \<noteq> 0 then
       rbind (get_sem sem s) (\<lambda>x.
       rbind (utils_spinlock_lock (pending_lock x)) (\<lambda>l.
       rbind (mod_sem sem (\<lambda>x. x\<lparr>pending_lock := l\<rparr>) s) (\<lambda>s.
       rbind (sem_wake sem (sem_value x) s) (\<lambda>s.
       rbind (get_sem sem s) (\<lambda>x.
       rbind (utils_spinlock_unlock (pending_lock x)) (\<lambda>l.
       mod_sem sem (\<lambda>x. x\<lparr>pending_lock := l\<rparr>) s))))))
     else Ok s)"

text \<open>
  The loop of \<open>async_semaphore_dec\<close> compares the value with one less than what it has just read, and the two never
  agree in one flow of control: with a positive value it spins.
\<close>

definition async_semaphore_dec_iv :: "mspace_ops \<Rightarrow> u64 \<Rightarrow> (iv_state \<Rightarrow> iv_state res) \<Rightarrow> addr \<Rightarrow> iv_state \<Rightarrow> iv_state res" where
  "async_semaphore_dec_iv ops sizeof_completion others sem s =
     rbind (get_sem sem s) (\<lambda>x.
     let val = (ucast (sem_value x) :: u32) in
     if val \<noteq> 0 \<and> sem_value x = scast (val - 1) then Ok (s\<lparr>sems := (sems s)(sem \<mapsto> x\<lparr>sem_value := scast val\<rparr>)\<rparr>)
     else if val \<noteq> 0 then Fault (Deadlock ''while (val)'')
     else if \<not> sem_meta x then Fault (Bad_access ''sem->meta->alloc'')
     else
       rbind (arch_alloc_allocate ops (meta_alloc s) sizeof_completion) (\<lambda>(compl, al).
       let s = s\<lparr>meta_alloc := al\<rparr> in
       if compl = 0 then Fault (Bad_access ''compl->meta'')
       else
         let s = async_completion_init_iv compl s in
         rbind (utils_spinlock_lock (pending_lock x)) (\<lambda>l.
         let s = s\<lparr>links := utils_list_add (links s) (Pending_head sem) (Compl_node compl)\<rparr> in
         rbind (utils_spinlock_unlock l) (\<lambda>l.
         rbind (mod_sem sem (\<lambda>x. x\<lparr>pending_lock := l\<rparr>) s) (\<lambda>s.
         rbind (async_completion_wait_iv others compl (wakeupVm (getVmID s) s)) (\<lambda>s.
         rbind (arch_alloc_free ops (meta_alloc s) compl) (\<lambda>(_, al).
         Ok (s\<lparr>meta_alloc := al, compls := (compls s)(compl := None)\<rparr>))))))))"

section \<open>Conditions\<close>

text \<open>The mutex and the semaphore of the condition at \<open>cond\<close> are the completion and the semaphore of that address.\<close>

definition async_condition_init_iv :: "addr \<Rightarrow> iv_state \<Rightarrow> iv_state res" where
  "async_condition_init_iv cond s =
     rbind (async_completion_complete_iv cond (async_completion_init_iv cond s)) (\<lambda>s. Ok (async_semaphore_init_iv cond s))"

definition async_condition_lock_iv :: "(iv_state \<Rightarrow> iv_state res) \<Rightarrow> addr \<Rightarrow> iv_state \<Rightarrow> iv_state res" where
  "async_condition_lock_iv others cond s = async_completion_wait_iv others cond s"

definition async_condition_wait_iv :: "mspace_ops \<Rightarrow> u64 \<Rightarrow> (iv_state \<Rightarrow> iv_state res) \<Rightarrow> addr \<Rightarrow> iv_state \<Rightarrow> iv_state res" where
  "async_condition_wait_iv ops sizeof_completion others cond s =
     rbind (async_completion_complete_iv cond s) (\<lambda>s.
     rbind (async_semaphore_dec_iv ops sizeof_completion others cond s) (\<lambda>s.
     async_completion_wait_iv others cond s))"

definition async_condition_notify_iv :: "addr \<Rightarrow> iv_state \<Rightarrow> iv_state res" where
  "async_condition_notify_iv cond s = async_semaphore_inc_iv cond s"

definition async_condition_unlock_iv :: "addr \<Rightarrow> iv_state \<Rightarrow> iv_state res" where
  "async_condition_unlock_iv cond s = async_completion_complete_iv cond s"

definition demo_iv :: iv_state where
  "demo_iv = \<lparr>meta_lock = 0, links = \<lparr>nd_next = id, nd_prev = id, nd_owner = (\<lambda>_. 0), ls_length = (\<lambda>_. 0)\<rparr>, compls = Map.empty,
     sems = Map.empty, vm_id_reg = 1, bells = [], meta_alloc = \<lparr>al_root = [], al_start = 0, al_bmp = utils_bitmap_init 0\<rparr>,
     meta_regs = 0, meta_fd = 0, reg_fd = 3\<rparr>"

section \<open>The properties\<close>

text \<open>The list with one completion on it, walked once.\<close>

lemma round_one:
  assumes "list_rep (links s) Outstanding_head [Compl_node a]" and "nd_owner (links s) (Compl_node a) = a"
    and "compls s a = Some c" and "iv_completed c = 1"
  shows "async_thread_round s = Ok (s\<lparr>links := utils_list_del (links s) Outstanding_head (Compl_node a),
    compls := (compls s)(a \<mapsto> c\<lparr>iv_mutex := False\<rparr>)\<rparr>)"
  using assms list_rep_for_each [OF assms(1)]
  by (simp add: async_thread_round_def async_completion_check_iv_def get_compl_def mod_compl_def Let_def)

text \<open>C40. The protocol of completions between virtual machines works when the waiter is on the list before the
  completion is marked: the interrupt that follows lets it go and leaves the list as it was. In the other order the
  wake-up is lost: the completion is marked and the interrupt served while nobody is on the list, and the waiter
  then sleeps although the completion is done. A new condition is in that state, so its first lock sleeps.\<close>

theorem ivshmem_completion:
  assumes "list_rep (links s) Outstanding_head []" and "meta_lock s = 0"
  shows "(\<exists>s'. async_completion_wait_iv (\<lambda>s. rbind (async_completion_complete_iv a s) async_thread_round) a
      (async_completion_init_iv a s) = Ok s' \<and> list_rep (links s') Outstanding_head []) \<and>
    (\<exists>s'. rbind (async_completion_complete_iv a (async_completion_init_iv a s)) async_thread_round = Ok s' \<and>
      async_completion_check_iv a s' = Ok True \<and> async_completion_wait_iv Ok a s' = Fault (Blocked ''pthread_mutex_lock'')) \<and>
    (\<exists>s'. async_condition_init_iv a s = Ok s' \<and> async_condition_lock_iv Ok a s' = Fault (Blocked ''pthread_mutex_lock''))"
proof (intro conjI)
  let ?h = "utils_list_node_init (links s) (Compl_node a) a"
  let ?i = "async_completion_init_iv a s"
  define vm where "vm = (case compls s a of None \<Rightarrow> 0 | Some c \<Rightarrow> iv_vm_id c)"
  have i: "links ?i = ?h" "meta_lock ?i = 0" "compls ?i a = Some \<lparr>iv_vm_id = vm, iv_completed = 0, iv_mutex = True\<rparr>"
    using assms(2) by (simp_all add: async_completion_init_iv_def vm_def)
  have empty: "list_rep ?h Outstanding_head []"
    by (rule list_rep_frame [OF assms(1)]) (simp_all add: utils_list_node_init_def)
  let ?l = "utils_list_add ?h Outstanding_head (Compl_node a)"
  have one: "list_rep ?l Outstanding_head [Compl_node a]" by (rule list_rep_add [OF empty]) simp
  have owner: "nd_owner ?l (Compl_node a) = a"
    by (simp add: utils_list_add_def utils_list_node_add_def utils_list_node_init_def Let_def)
  have gone: "list_rep (utils_list_del ?l Outstanding_head (Compl_node a)) Outstanding_head []"
    using list_rep_del(1) [of ?l Outstanding_head "[]" "Compl_node a" "[]"] one by simp
  have blocked: "async_completion_wait_iv Ok a s' = Fault (Blocked ''pthread_mutex_lock'')"
    if "compls s' a = Some c" "iv_mutex c" "meta_lock s' = 0" for s' c
    using that by (simp add: async_completion_wait_iv_def completion_wait_enter_def completion_wait_lock_def add_completion_def
        get_compl_def mod_compl_def Let_def)
  show "\<exists>s'. async_completion_wait_iv (\<lambda>s. rbind (async_completion_complete_iv a s) async_thread_round) a ?i = Ok s' \<and>
      list_rep (links s') Outstanding_head []"
    using i one owner gone
    by (simp add: async_completion_wait_iv_def completion_wait_enter_def completion_wait_lock_def add_completion_def
        async_completion_complete_iv_def wakeupVm_def get_compl_def mod_compl_def Let_def round_one)
  let ?c = "wakeupVm (ucast vm) (?i\<lparr>compls := (compls ?i)(a \<mapsto> \<lparr>iv_vm_id = vm, iv_completed = 1, iv_mutex = True\<rparr>)\<rparr>)"
  have c: "async_completion_complete_iv a ?i = Ok ?c" using i by (simp add: async_completion_complete_iv_def get_compl_def mod_compl_def)
  have c': "links ?c = ?h" "meta_lock ?c = 0" "compls ?c a = Some \<lparr>iv_vm_id = vm, iv_completed = 1, iv_mutex = True\<rparr>"
    using i by (simp_all add: wakeupVm_def)
  have "async_thread_round ?c = Ok ?c" using list_rep_for_each [OF empty] c'(1) by (simp add: async_thread_round_def)
  with c c' show "\<exists>s'. rbind (async_completion_complete_iv a ?i) async_thread_round = Ok s' \<and>
      async_completion_check_iv a s' = Ok True \<and> async_completion_wait_iv Ok a s' = Fault (Blocked ''pthread_mutex_lock'')"
    using blocked [OF c'(3)] by (simp add: async_completion_check_iv_def get_compl_def)
  let ?s = "async_semaphore_init_iv a ?c"
  have "compls ?s = compls ?c" "meta_lock ?s = meta_lock ?c" by (simp_all add: async_semaphore_init_iv_def)
  with c c' blocked [of ?s] show "\<exists>s'. async_condition_init_iv a s = Ok s' \<and>
      async_condition_lock_iv Ok a s' = Fault (Blocked ''pthread_mutex_lock'')"
    by (simp add: async_condition_init_iv_def async_condition_lock_iv_def)
qed

theorem ivshmem_completion_witness:
  "(\<exists>s'. async_completion_wait_iv (\<lambda>s. rbind (async_completion_complete_iv 4096 s) async_thread_round) 4096
      (async_completion_init_iv 4096 demo_iv) = Ok s') \<and>
   (\<exists>s'. async_condition_init_iv 4096 demo_iv = Ok s' \<and> async_condition_lock_iv Ok 4096 s' = Fault (Blocked ''pthread_mutex_lock''))"
proof -
  have "list_rep (links demo_iv) Outstanding_head []" "meta_lock demo_iv = 0" by (simp_all add: demo_iv_def list_rep_def)
  from ivshmem_completion [OF this, of 4096] show ?thesis by blast
qed

end
