(* ===== verification/Stable.thy ===== *)
theory Stable
  imports Shm
begin

text \<open>
  Properties of the segment that survive the calls of the library. \<open>sound f P r\<close> says of the result
  \<open>r\<close> of a call: when it returns, the segment satisfies \<open>P\<close>; and unless \<open>f\<close>, the model did not run out of
  fuel. \<open>sound2\<close> is the same for calls that return a value too, \<open>fine\<close> for calls that return only one.

  The locale \<open>stable\<close> collects what a property has to tolerate for the calls that neither create nor
  drop objects to keep it. \<open>stable_drop\<close> adds the drop of references, \<open>stable_env\<close> the creation of objects,
  and \<open>stable_ref\<close> has both, from which the rest of the interface follows. Every invariant of the segment is an instance.
\<close>

section \<open>Results of calls\<close>

definition sound :: "bool \<Rightarrow> ('s \<Rightarrow> bool) \<Rightarrow> 's res \<Rightarrow> bool" where
  "sound f P r \<longleftrightarrow> (case r of Ok s \<Rightarrow> P s | Fault e \<Rightarrow> f \<or> e \<noteq> Out_of_fuel)"

definition sound2 :: "bool \<Rightarrow> ('s \<Rightarrow> bool) \<Rightarrow> ('a \<times> 's) res \<Rightarrow> bool" where
  "sound2 f P r \<longleftrightarrow> sound f (\<lambda>(_, s). P s) r"

definition fine :: "bool \<Rightarrow> 'a res \<Rightarrow> bool" where
  "fine f r \<longleftrightarrow> sound f (\<lambda>_. True) r"

named_theorems sound_intro \<open>rules that take a call apart\<close>

lemma sound_Ok [sound_intro]: "P s \<Longrightarrow> sound f P (Ok s)" "P s \<Longrightarrow> sound2 f P (Ok (x, s))" "fine f (Ok y)"
  by (simp_all add: sound_def sound2_def fine_def)

lemma sound_Fault [sound_intro]:
  "e \<noteq> Out_of_fuel \<Longrightarrow> sound f P (Fault e)" "e \<noteq> Out_of_fuel \<Longrightarrow> sound2 f P (Fault e)" "e \<noteq> Out_of_fuel \<Longrightarrow> fine f (Fault e)"
  by (simp_all add: sound_def sound2_def fine_def)

lemma soundD: "sound f P r \<Longrightarrow> r = Ok s \<Longrightarrow> P s" "sound2 f P r2 \<Longrightarrow> r2 = Ok (x, s) \<Longrightarrow> P s"
  by (simp_all add: sound_def sound2_def)

lemma sound_fuel: "sound False P r \<Longrightarrow> r \<noteq> Fault Out_of_fuel" "sound2 False P r2 \<Longrightarrow> r2 \<noteq> Fault Out_of_fuel"
  by (auto simp: sound_def sound2_def)

lemma sound_mono:
  "sound f P r \<Longrightarrow> (\<And>s. P s \<Longrightarrow> Q s) \<Longrightarrow> sound f Q r"
  "sound2 f P r2 \<Longrightarrow> (\<And>s. P s \<Longrightarrow> Q s) \<Longrightarrow> sound2 f Q r2"
  by (auto simp: sound_def sound2_def split: res.splits)

lemma sound_bind:
  "sound f P m \<Longrightarrow> (\<And>s. m = Ok s \<Longrightarrow> P s \<Longrightarrow> sound f Q (k s)) \<Longrightarrow> sound f Q (rbind m k)"
  "sound f P m \<Longrightarrow> (\<And>s. m = Ok s \<Longrightarrow> P s \<Longrightarrow> sound2 f Q (k2 s)) \<Longrightarrow> sound2 f Q (rbind m k2)"
  by (cases m; simp add: sound_def sound2_def)+

lemma sound_bind2:
  "sound2 f P m \<Longrightarrow> (\<And>x s. m = Ok (x, s) \<Longrightarrow> P s \<Longrightarrow> sound f Q (k x s)) \<Longrightarrow> sound f Q (rbind m (\<lambda>(x, s). k x s))"
  "sound2 f P m \<Longrightarrow> (\<And>x s. m = Ok (x, s) \<Longrightarrow> P s \<Longrightarrow> sound2 f Q (k2 x s)) \<Longrightarrow> sound2 f Q (rbind m (\<lambda>(x, s). k2 x s))"
  by (cases m; auto simp: sound_def sound2_def split: res.splits prod.splits)+

lemma sound_bind_value:
  "fine f m \<Longrightarrow> (\<And>x. m = Ok x \<Longrightarrow> sound f Q (k x)) \<Longrightarrow> sound f Q (rbind m k)"
  "fine f m \<Longrightarrow> (\<And>x. m = Ok x \<Longrightarrow> sound2 f Q (k2 x)) \<Longrightarrow> sound2 f Q (rbind m k2)"
  "fine f m \<Longrightarrow> (\<And>x. m = Ok x \<Longrightarrow> fine f (k3 x)) \<Longrightarrow> fine f (rbind m k3)"
  by (cases m; simp add: sound_def sound2_def fine_def)+

text \<open>The last rule, for calls that return no segment, one instance for each type of value.\<close>

lemmas sound_value [sound_intro] =
  sound_bind_value [where 'a = unit] sound_bind_value [where 'a = bool] sound_bind_value [where 'a = "'b word"]
  sound_bind_value [where 'a = "'b list"] sound_bind_value [where 'a = arax_object_s] sound_bind_value [where 'a = arax_accel_s]
  sound_bind_value [where 'a = arax_vaccel_s] sound_bind_value [where 'a = arax_proc_s] sound_bind_value [where 'a = arax_data_s]
  sound_bind_value [where 'a = arax_task_msg_s] sound_bind_value [where 'a = async_condition_s]
  sound_bind_value [where 'a = async_completion_s] sound_bind_value [where 'a = arax_throttle_s]
  sound_bind_value [where 'a = utils_queue_s] sound_bind_value [where 'a = "addr \<times> utils_queue_s"]
  sound_bind_value [where 'a = "u64 \<times> addr list"] sound_bind_value [where 'a = "addr \<times> arch_alloc"]

lemma sound_if [sound_intro]:
  "(c \<Longrightarrow> sound f P a) \<Longrightarrow> (\<not> c \<Longrightarrow> sound f P b) \<Longrightarrow> sound f P (if c then a else b)"
  "(c \<Longrightarrow> sound2 f P a2) \<Longrightarrow> (\<not> c \<Longrightarrow> sound2 f P b2) \<Longrightarrow> sound2 f P (if c then a2 else b2)"
  "(c \<Longrightarrow> fine f a3) \<Longrightarrow> (\<not> c \<Longrightarrow> fine f b3) \<Longrightarrow> fine f (if c then a3 else b3)"
  by simp_all

lemma sound_case_prod [sound_intro]:
  "(\<And>x y. p = (x, y) \<Longrightarrow> sound f P (g x y)) \<Longrightarrow> sound f P (case p of (x, y) \<Rightarrow> g x y)"
  "(\<And>x y. p = (x, y) \<Longrightarrow> sound2 f P (g2 x y)) \<Longrightarrow> sound2 f P (case p of (x, y) \<Rightarrow> g2 x y)"
  by (simp_all split: prod.split)

lemma sound_case_option [sound_intro]:
  "(o' = None \<Longrightarrow> sound f P a) \<Longrightarrow> (\<And>x. o' = Some x \<Longrightarrow> sound f P (g x)) \<Longrightarrow> sound f P (case o' of None \<Rightarrow> a | Some x \<Rightarrow> g x)"
  "(o' = None \<Longrightarrow> sound2 f P a2) \<Longrightarrow> (\<And>x. o' = Some x \<Longrightarrow> sound2 f P (g2 x)) \<Longrightarrow> sound2 f P (case o' of None \<Rightarrow> a2 | Some x \<Rightarrow> g2 x)"
  by (simp_all split: option.split)

section \<open>Calls that only compute a value\<close>

lemma fine_get [sound_intro]:
  "fine f (get_obj a s)" "fine f (get_accel a s)" "fine f (get_vaccel a s)" "fine f (get_proc a s)"
  "fine f (get_data a s)" "fine f (get_task a s)"
  by (auto simp: get_obj_def get_accel_def get_vaccel_def get_proc_def get_data_def get_task_def
      split: option.split arax_body.split intro!: sound_Ok sound_Fault)

lemma fine_assert [sound_intro]: "fine f (arax_assert e m)"
  by (cases e) (auto intro!: sound_Ok sound_Fault)

lemma fine_cond [sound_intro]:
  "fine f (async_condition_lock c)" "fine f (async_condition_wait c)" "fine f async_condition_init"
  using async_condition_cases [of c] by (auto simp: async_condition_wait_def intro!: sound_Ok sound_Fault)

lemma fine_spin [sound_intro]: "fine f (utils_spinlock_lock l)" "fine f (utils_spinlock_unlock l)"
  by (auto simp: utils_spinlock_lock_def utils_spinlock_unlock_def intro!: sound_intro)

lemma fine_completion [sound_intro]: "fine f async_completion_init" "fine f (async_completion_wait c)"
  by (auto simp: async_completion_init_def async_completion_wait_def pthread_mutex_lock_def pthread_mutex_init_def
      rbind_def split: res.splits intro!: sound_intro)

lemma fine_throttle [sound_intro]:
  "fine f (arax_throttle_size_inc t sz)" "fine f (arax_throttle_size_dec t sz)" "fine f (arax_throttle_init a b)"
  unfolding arax_throttle_size_inc_def arax_throttle_size_dec_def arax_throttle_init_def Let_def
  by (intro sound_intro; simp)+

lemma fine_queue [sound_intro]: "fine f (utils_queue_push cap q d)" "fine f (utils_queue_init cap)"
  unfolding utils_queue_push_def utils_queue_init_def Let_def
  by (auto intro!: sound_intro split: prod.splits)

lemma fine_to_array [sound_intro]: "fine f (utils_list_to_array h l want)"
  by (auto simp: utils_list_to_array_def split: option.split intro!: sound_intro)

section \<open>The two regions of the list heap\<close>

text \<open>
  The lists of the repository and the lists of virtual accelerators have no node in common. A heap is
  \<open>vac_closed\<close> when the links of the second kind stay among themselves; the operations on those lists
  then leave the repository alone (\<open>vac_only\<close>), whatever state they are in.
\<close>

fun vac_node :: "node \<Rightarrow> bool" where
  "vac_node (Repo_head _) = False"
| "vac_node (Obj_node _) = False"
| "vac_node _ = True"

definition vac_closed :: "node list_heap \<Rightarrow> bool" where
  "vac_closed h \<longleftrightarrow> (\<forall>n. vac_node n \<longrightarrow> vac_node (nd_next h n) \<and> vac_node (nd_prev h n))"

definition vac_only :: "node list_heap \<Rightarrow> node list_heap \<Rightarrow> bool" where
  "vac_only h h' \<longleftrightarrow> (\<forall>n. \<not> vac_node n \<longrightarrow> nd_next h' n = nd_next h n \<and> nd_prev h' n = nd_prev h n \<and>
     nd_owner h' n = nd_owner h n \<and> ls_length h' n = ls_length h n)"

lemma vac_list_ops:
  assumes "vac_closed h" and "vac_node l" and "vac_node n"
  shows "vac_only h (utils_list_add h l n) \<and> vac_closed (utils_list_add h l n)"
    and "vac_only h (utils_list_del h l n) \<and> vac_closed (utils_list_del h l n)"
    and "vac_only h (utils_list_node_init h n a) \<and> vac_closed (utils_list_node_init h n a)"
    and "vac_only h (utils_list_init h n a) \<and> vac_closed (utils_list_init h n a)"
  using assms
  by (auto simp: vac_only_def vac_closed_def utils_list_add_def utils_list_node_add_def utils_list_del_def
      utils_list_node_init_def utils_list_init_def Let_def)

lemma vac_pop_head:
  "vac_closed h \<Longrightarrow> vac_node l \<Longrightarrow> utils_list_pop_head h l = (r, h') \<Longrightarrow> vac_only h h' \<and> vac_closed h'"
  using vac_list_ops(2) [of h l "nd_next h l"]
  by (auto simp: utils_list_pop_head_def Let_def vac_closed_def vac_only_def split: if_splits)

definition vac_ops :: "node list_heap \<Rightarrow> node \<Rightarrow> node \<Rightarrow> addr \<Rightarrow> node list_heap set" where
  "vac_ops h l n a =
     {utils_list_add h l n, utils_list_del h l n, utils_list_node_init h n a, utils_list_init h n a, snd (utils_list_pop_head h l)}"

lemma vac_ops_only: "vac_closed h \<Longrightarrow> vac_node l \<Longrightarrow> vac_node n \<Longrightarrow> h' \<in> vac_ops h l n a \<Longrightarrow> vac_only h h' \<and> vac_closed h'"
  using vac_list_ops(1,2) [of h l n] vac_list_ops(3,4) [of h l n a] vac_pop_head [of h l "fst (utils_list_pop_head h l)" "snd (utils_list_pop_head h l)"]
  by (auto simp: vac_ops_def)

section \<open>Properties that calls keep\<close>

fun body_type :: "arax_body \<Rightarrow> arax_object_type_e" where
  "body_type (Accel _) = ARAX_TYPE_PHYS_ACCEL"
| "body_type (Vaccel _) = ARAX_TYPE_VIRT_ACCEL"
| "body_type (Proc _) = ARAX_TYPE_PROC"
| "body_type (Data _) = ARAX_TYPE_DATA"
| "body_type (Task _) = ARAX_TYPE_TASK"

named_theorems stable_intro \<open>calls that keep the property of the locale\<close>

locale stable =
  fixes f :: bool and P :: "arax_pipe_s \<Rightarrow> bool"
  assumes frame: "P s \<Longrightarrow> objects s' = objects s \<Longrightarrow> throttle s' = throttle s \<Longrightarrow> allocator s' = allocator s \<Longrightarrow>
      lists s' = lists s \<Longrightarrow> P s'"
    and body: "P s \<Longrightarrow> objects s a = Some (h, b) \<Longrightarrow> body_type b' = body_type b \<Longrightarrow> P (set_body a b' s)"
    and vacs: "P s \<Longrightarrow> vac_node l \<Longrightarrow> vac_node n \<Longrightarrow> h' \<in> vac_ops (lists s) l n c \<Longrightarrow> P (s\<lparr>lists := h'\<rparr>)"
begin

lemma irrelevant [simp]:
  "P (s\<lparr>processes := p\<rparr>) \<longleftrightarrow> P s" "P (s\<lparr>proc_lock := l\<rparr>) \<longleftrightarrow> P s" "P (s\<lparr>proc_map := m\<rparr>) \<longleftrightarrow> P s"
  "P (s\<lparr>last_uid := u\<rparr>) \<longleftrightarrow> P s" "P (s\<lparr>repo_lock := r\<rparr>) \<longleftrightarrow> P s" "P (s\<lparr>cntrl_ready := i\<rparr>) \<longleftrightarrow> P s"
  "P (s\<lparr>cntrl_ready_cond := c\<rparr>) \<longleftrightarrow> P s" "P (s\<lparr>orphan_cond := c\<rparr>) \<longleftrightarrow> P s" "P (s\<lparr>ass_kv := k\<rparr>) \<longleftrightarrow> P s"
  "P (s\<lparr>metrics_kv := k\<rparr>) \<longleftrightarrow> P s" "P (s\<lparr>back_pointers := b\<rparr>) \<longleftrightarrow> P s" "P (s\<lparr>pipe_self := a\<rparr>) \<longleftrightarrow> P s"
  "P (s\<lparr>contents := cs\<rparr>) \<longleftrightarrow> P s" "P (write_bytes x bs s) \<longleftrightarrow> P s"
  by (auto simp: write_bytes_def elim: frame)

lemma set_bodies [simp]:
  "get_accel a s = Ok x1 \<Longrightarrow> P s \<Longrightarrow> P (set_body a (Accel y1) s)"
  "get_vaccel a s = Ok x2 \<Longrightarrow> P s \<Longrightarrow> P (set_body a (Vaccel y2) s)"
  "get_proc a s = Ok x3 \<Longrightarrow> P s \<Longrightarrow> P (set_body a (Proc y3) s)"
  "get_data a s = Ok x4 \<Longrightarrow> P s \<Longrightarrow> P (set_body a (Data y4) s)"
  "get_task a s = Ok x5 \<Longrightarrow> P s \<Longrightarrow> P (set_body a (Task y5) s)"
  by (auto simp: res_simps elim!: body)

lemma set_lists [simp]:
  "P s \<Longrightarrow> vac_node l \<Longrightarrow> vac_node n \<Longrightarrow> P (s\<lparr>lists := utils_list_add (lists s) l n\<rparr>)"
  "P s \<Longrightarrow> vac_node l \<Longrightarrow> vac_node n \<Longrightarrow> P (s\<lparr>lists := utils_list_del (lists s) l n\<rparr>)"
  "P s \<Longrightarrow> vac_node n \<Longrightarrow> P (s\<lparr>lists := utils_list_node_init (lists s) n a\<rparr>)"
  "P s \<Longrightarrow> vac_node n \<Longrightarrow> P (s\<lparr>lists := utils_list_init (lists s) n a\<rparr>)"
  using vacs [of s l n] vacs [of s n n _ a] by (auto simp: vac_ops_def)

lemma set_pop_head:
  "P s \<Longrightarrow> utils_list_pop_head (lists s) l = (r, h) \<Longrightarrow> vac_node l \<Longrightarrow> P (s\<lparr>lists := h\<rparr>)"
  using vacs [of s l l h 0] by (simp add: vac_ops_def)

lemmas bind_rules [stable_intro] =
  sound_bind [where f = f and P = P and Q = P] sound_bind2 [where f = f and P = P and Q = P]

lemma mods [stable_intro]:
  "P s \<Longrightarrow> sound f P (mod_accel a g1 s)" "P s \<Longrightarrow> sound f P (mod_vaccel a g2 s)"
  "P s \<Longrightarrow> sound f P (mod_data a g3 s)" "P s \<Longrightarrow> sound f P (mod_task a g4 s)"
  unfolding mod_accel_def mod_vaccel_def mod_data_def mod_task_def by (intro sound_intro; simp)+

lemma locks [stable_intro]:
  "P s \<Longrightarrow> sound f P (arax_object_list_lock ty s)" "P s \<Longrightarrow> sound f P (arax_object_list_unlock ty s)"
  "P s \<Longrightarrow> sound f P (accel_lock a s)" "P s \<Longrightarrow> sound f P (accel_unlock a s)" "P s \<Longrightarrow> sound f P (accel_notify a s)"
  "P s \<Longrightarrow> sound f P (vaccel_lock a s)" "P s \<Longrightarrow> sound f P (vaccel_unlock a s)"
  unfolding arax_object_list_lock_def arax_object_list_unlock_def accel_lock_def accel_unlock_def accel_notify_def
    vaccel_lock_def vaccel_unlock_def
  by (intro sound_intro stable_intro; simp)+

lemma pipe_orphans [stable_intro]:
  "P s \<Longrightarrow> sound f P (arax_pipe_add_orphan_vaccel v s)" "P s \<Longrightarrow> sound2 f P (arax_pipe_get_orphan_vaccel s)"
  "P s \<Longrightarrow> sound f P (arax_pipe_remove_orphan_vaccel v s)" "P s \<Longrightarrow> sound f P (arax_pipe_orphan_stop s)"
  unfolding arax_pipe_add_orphan_vaccel_def arax_pipe_get_orphan_vaccel_def arax_pipe_remove_orphan_vaccel_def
    arax_pipe_orphan_stop_def Let_def
  by (intro sound_intro stable_intro; auto intro: set_pop_head)+

lemma fine_find_first: "(\<And>a. fine f (p a)) \<Longrightarrow> fine f (find_first p as)"
  by (induction as) (auto intro!: sound_intro)

lemma fine_repo_objects [stable_intro]: "fine f (repo_objects ty s)"
  by (auto simp: repo_objects_def intro!: sound_intro split: option.split)

lemma pipe_finds [stable_intro]:
  "P s \<Longrightarrow> sound2 f P (arax_pipe_find_accel name ty s)" "P s \<Longrightarrow> sound2 f P (arax_pipe_find_proc nm s)"
  unfolding arax_pipe_find_accel_def arax_pipe_find_proc_def
  by (intro sound_intro stable_intro fine_find_first; simp)+

lemma pipe_processes [stable_intro]:
  "P s \<Longrightarrow> sound2 f P (arax_pipe_have_to_mmap pid s)" "P s \<Longrightarrow> sound f P (arax_pipe_mark_unmap env pid s)"
  unfolding arax_pipe_have_to_mmap_def arax_pipe_mark_unmap_def Let_def
  by (intro sound_intro stable_intro; simp)+

lemma accels [stable_intro]:
  "P s \<Longrightarrow> sound f P (arax_accel_wait_for_task a s)" "P s \<Longrightarrow> sound f P (arax_accel_add_task a s)"
  "P s \<Longrightarrow> sound f P (arax_accel_size_inc a sz s)" "P s \<Longrightarrow> sound f P (arax_accel_size_dec a sz s)"
  "P s \<Longrightarrow> sound f P (arax_accel_inc_revision a s)" "P s \<Longrightarrow> sound2 f P (arax_accel_get_assigned_vaccels a s)"
  unfolding arax_accel_wait_for_task_def arax_accel_add_task_def arax_accel_size_inc_def arax_accel_size_dec_def
    arax_accel_inc_revision_def arax_accel_get_assigned_vaccels_def
  by (intro sound_intro stable_intro; simp)+

lemma fine_queue_size [stable_intro]: "fine f (arax_vaccel_queue v s)" "fine f (arax_vaccel_queue_size v s)"
  unfolding arax_vaccel_queue_def arax_vaccel_queue_size_def by (intro sound_intro)+

lemma vaccel_moves [stable_intro]:
  "P s \<Longrightarrow> sound f P (arax_accel_add_vaccel a v s)" "P s \<Longrightarrow> sound f P (arax_accel_del_vaccel a v s)"
  "P s \<Longrightarrow> sound f P (dtor_arax_vaccel_s v s)" "P s \<Longrightarrow> sound f P (arax_accel_set_physical v a s)"
  unfolding arax_accel_add_vaccel_def arax_accel_del_vaccel_def dtor_arax_vaccel_s_def arax_accel_set_physical_def Let_def
  by (intro sound_intro stable_intro; simp)+

lemma vaccel_tasks [stable_intro]: "P s \<Longrightarrow> sound f P (arax_vaccel_add_task env v t s)"
  unfolding arax_vaccel_add_task_def by (intro sound_intro stable_intro; simp)

lemma vaccel_fields [stable_intro]:
  "P s \<Longrightarrow> sound f P (arax_vaccel_set_ordering v ord s)" "P s \<Longrightarrow> sound2 f P (arax_vaccel_set_cid v c s)"
  "P s \<Longrightarrow> sound2 f P (arax_vaccel_set_job_priority v p s)" "P s \<Longrightarrow> sound f P (arax_vaccel_set_meta v m s)"
  unfolding arax_vaccel_set_ordering_def arax_vaccel_set_cid_def arax_vaccel_set_job_priority_def arax_vaccel_set_meta_def
  by (intro sound_intro stable_intro; simp)+

lemma procs [stable_intro]:
  "P s \<Longrightarrow> sound2 f P (arax_proc_set_functor p ty vfn s)" "P s \<Longrightarrow> sound f P (dtor_arax_proc_s p s)"
  unfolding arax_proc_set_functor_def arax_proc_get_functor_def dtor_arax_proc_s_def
  by (intro sound_intro stable_intro; simp)+

lemma datas [stable_intro]:
  "P s \<Longrightarrow> sound f P (arax_data_modified d wh s)" "P s \<Longrightarrow> sound2 f P (arax_data_ref_offset pipe d s)"
  "fine f (arax_data_size d s)" "fine f (arax_data_deref d s)" "fine f (arax_data_ref pipe d s)" "fine f (arax_data_check_flags d s)"
  unfolding arax_data_modified_def arax_data_ref_offset_def arax_data_ref_def arax_data_size_def arax_data_deref_def
    arax_data_check_flags_def Let_def
  by (intro sound_intro stable_intro fine_find_first; simp)+

lemma task_marks [stable_intro]: "P s \<Longrightarrow> sound f P (arax_task_mark_done t st s)"
  unfolding arax_task_mark_done_def by (intro stable_intro)

lemma task_waits [stable_intro]:
  assumes "\<And>t s. P s \<Longrightarrow> sound f P (controller t s)"
  shows "P s \<Longrightarrow> sound f P (arax_task_wait_done controller t s)" "P s \<Longrightarrow> sound2 f P (arax_task_wait controller t s)"
  unfolding arax_task_wait_def arax_task_wait_done_def by (intro sound_intro stable_intro assms; simp)+

lemma fine_host_data [stable_intro]: "fine f (arax_task_host_data env t sz s)"
  unfolding arax_task_host_data_def by (intro sound_intro)

lemma fine_check_semantics [stable_intro]: "fine f (check_semantics inp outp s)"
proof -
  have all: "fine f (io_all_data as s)" for as
    by (induction as) (auto intro!: sound_intro)
  have "fine f (check_semantics_loop all as s)" for all as
    by (induction as) (auto intro!: sound_intro \<open>\<And>as. fine f (io_all_data as s)\<close> simp del: io_all_data.simps)
  then show ?thesis by (simp add: check_semantics_def)
qed

end

text \<open>Drops of references, through \<open>ref_dec\<close>.\<close>

locale stable_drop = stable +
  fixes ref_dec :: ref_dec_fn
  assumes ref_dec: "P s \<Longrightarrow> sound2 f P (ref_dec a s)"
begin

lemmas ref_rules [stable_intro] = ref_dec

lemma ref_drops [stable_intro]:
  "P s \<Longrightarrow> sound2 f P (arax_pipe_delete_accel_with ref_dec a s)" "P s \<Longrightarrow> sound f P (arax_accel_release_with ref_dec a s)"
  "P s \<Longrightarrow> sound2 f P (arax_proc_put_with ref_dec a s)" "P s \<Longrightarrow> sound f P (arax_data_free_with ref_dec a s)"
  "P s \<Longrightarrow> sound f P (arax_task_free_with ref_dec a s)"
  unfolding arax_pipe_delete_accel_with_def arax_accel_release_with_def arax_proc_put_with_def arax_data_free_with_def
    arax_task_free_with_def
  by (intro sound_intro stable_intro; simp)+

lemma ref_dec_all [stable_intro]: "P s \<Longrightarrow> sound f P (ref_dec_all ref_dec as s)"
  by (induction as arbitrary: s) (auto intro!: sound_intro stable_intro)

lemma dtors [stable_intro]:
  "P s \<Longrightarrow> sound f P (dtor_arax_accel_s ref_dec a s)" "P s \<Longrightarrow> sound f P (dtor_arax_task_msg_s ref_dec a s)"
  unfolding dtor_arax_accel_s_def dtor_arax_task_msg_s_def by (intro sound_intro stable_intro; simp)+

end

text \<open>Creation of objects and further references to live ones, in the environment \<open>env\<close>.\<close>

locale stable_env = stable +
  fixes env :: arax_env
  assumes register: "P s \<Longrightarrow> ty \<noteq> ARAX_TYPE_COUNT \<Longrightarrow> sound2 f P (arax_object_register env ty name sz 1 s)"
    and ref_inc: "P s \<Longrightarrow> sound f P (arax_object_ref_inc a s)"
    and rename: "P s \<Longrightarrow> sound f P (arax_object_rename env a name s)"
    and malloc: "P s \<Longrightarrow> fine f (arch_alloc_allocate (mspace env) (allocator s) sz) \<and>
      (\<forall>p al. arch_alloc_allocate (mspace env) (allocator s) sz = Ok (p, al) \<longrightarrow> P (s\<lparr>allocator := al\<rparr>))"
begin

lemmas env_rules [stable_intro] = register ref_inc rename

lemma fine_accel_type [stable_intro]: "fine f (accel_type_field a s)"
  by (auto simp: accel_type_field_def split: option.split arax_body.split intro!: sound_intro)

lemma create_vaccel [stable_intro]: "P s \<Longrightarrow> sound2 f P (arax_vaccel_init env name ty a s)"
  unfolding arax_vaccel_init_def Let_def by (intro sound_intro stable_intro; simp)

lemma creates [stable_intro]:
  "P s \<Longrightarrow> sound2 f P (arax_accel_init env name ty sz cap s)"
  "P s \<Longrightarrow> sound2 f P (arax_proc_init env name s)" "P s \<Longrightarrow> sound2 f P (arax_proc_register env name s)"
  "P s \<Longrightarrow> sound2 f P (arax_data_init_aligned env sz al s)" "P s \<Longrightarrow> sound2 f P (arax_data_init env sz s)"
  "P s \<Longrightarrow> sound2 f P (arax_accel_acquire_phys env a s)" "P s \<Longrightarrow> sound2 f P (arax_accel_acquire_type env ty s)"
  "P s \<Longrightarrow> sound2 f P (ARAX_BUFFER env sz s)"
  unfolding arax_accel_init_def arax_proc_init_def arax_proc_register_def arax_data_init_aligned_def
    arax_data_init_def arax_accel_acquire_phys_def arax_accel_acquire_type_def ARAX_BUFFER_def Let_def
  by (intro sound_intro stable_intro; simp)+

lemma refs [stable_intro]:
  "P s \<Longrightarrow> sound2 f P (arax_proc_get name s)" "P s \<Longrightarrow> sound f P (arax_task_submit env t s)"
  "P s \<Longrightarrow> sound f P (arax_data_set_accel d a s)" "P s \<Longrightarrow> sound f P (arax_data_set_remote d a r s)"
  "P s \<Longrightarrow> sound f P (arax_data_annotate env d txt s)"
  unfolding arax_proc_get_def arax_task_submit_def arax_data_set_accel_def arax_data_set_remote_def arax_data_annotate_def
  by (intro sound_intro stable_intro; simp)+

end

text \<open>Both together: the rest of the interface.\<close>

locale stable_ref = stable_env + stable_drop
begin

lemma migrates [stable_intro]: "P s \<Longrightarrow> sound f P (arax_data_migrate_accel_with ref_dec d a s)"
  unfolding arax_data_migrate_accel_with_def by (intro sound_intro stable_intro; simp)

lemma io_inits [stable_intro]:
  "P s \<Longrightarrow> sound f P (arax_data_arg_init_with ref_dec d a s)" "P s \<Longrightarrow> sound f P (arax_data_input_init_with ref_dec d a s)"
  "P s \<Longrightarrow> sound f P (arax_data_output_init_with ref_dec d a s)"
  unfolding arax_data_arg_init_with_def arax_data_input_init_with_def arax_data_output_init_with_def
  by (intro sound_intro stable_intro; simp)+

lemma bind_io:
  "(\<And>d a s. P s \<Longrightarrow> sound f P (io d a s)) \<Longrightarrow> P s \<Longrightarrow> sound f P (task_bind_io env io a label cnt ds s)"
  by (induction ds arbitrary: s cnt) (auto intro!: sound_intro stable_intro)

lemma task_alloc [stable_intro]: "P s \<Longrightarrow> sound2 f P (arax_task_alloc_with env ref_dec a p hsize inp outp s)"
  unfolding arax_task_alloc_with_def Let_def by (intro sound_intro stable_intro bind_io; simp)

lemma task_issue [stable_intro]: "P s \<Longrightarrow> sound2 f P (arax_task_issue_with env ref_dec a p hinit hsize inp outp s)"
  unfolding arax_task_issue_with_def by (intro sound_intro stable_intro; simp)

lemma data_set [stable_intro]: "P s \<Longrightarrow> sound f P (arax_data_set_with env ref_dec d a user s)"
  unfolding arax_data_set_with_def by (intro sound_intro stable_intro; simp)

lemma controlled [stable_intro]:
  assumes "\<And>t s. P s \<Longrightarrow> sound f P (controller t s)"
  shows "P s \<Longrightarrow> sound2 f P (arax_task_issue_sync_with env ref_dec controller a p hinit hsize inp outp s)"
    and "P s \<Longrightarrow> sound2 f P (arax_data_get_with env ref_dec controller d s)"
    and "P s \<Longrightarrow> sound f P (arax_data_allocate_remote_with env ref_dec controller d a s)"
  unfolding arax_task_issue_sync_with_def arax_data_get_with_def arax_data_allocate_remote_with_def
  by (intro sound_intro stable_intro assms; simp)+

lemma data_memcpy [stable_intro]:
  assumes "\<And>t s. P s \<Longrightarrow> sound f P (controller t s)"
  shows "P s \<Longrightarrow> sound f P (arax_data_memcpy_with env ref_dec controller a d1 d2 s)"
  unfolding arax_data_memcpy_with_def by (intro sound_intro stable_intro assms; simp)

lemma collects [stable_intro]: "P s \<Longrightarrow> sound2 f P (accel_collect ty want as s)"
  by (induction as arbitrary: s) (auto intro!: sound_intro stable_intro)

end

end
