(* ===== verification/Invariant.thy ===== *)
theory Invariant
  imports Stable
begin

text \<open>
  The invariant of the segment. Memory: what the throttle has left plus the sizes of the live objects is
  its capacity, and every object is a block the allocator handed out and did not take back. Repository:
  the list of each type holds exactly the objects of that type. Types: the tag of an object fits its
  structure. \<open>D\<close> is the set of objects whose destructors are running: their count is zero and they are on
  no list of the repository.

  The allocator is a parameter; \<open>mspace_ok\<close> is what its documentation promises of it: a block it returns
  is not in use, or null. Where it never returns null the account of memory is exact, otherwise a
  failed creation loses its share of the throttle.
\<close>

section \<open>The allocator\<close>

fun live_blocks :: "mspace_event list \<Rightarrow> addr set" where
  "live_blocks [] = {}"
| "live_blocks (M_malloc sz p # es) = insert p (live_blocks es)"
| "live_blocks (M_free p # es) = live_blocks es - {p}"

lemma finite_live_blocks [simp]: "finite (live_blocks es)"
  by (induction es rule: live_blocks.induct) simp_all

definition mspace_ok :: "mspace_ops \<Rightarrow> bool" where
  "mspace_ok ops \<longleftrightarrow>
     (\<forall>a sz p a'. mspace_malloc ops a sz = Ok (p, a') \<longrightarrow>
        (if p = 0 then al_root a' = al_root a
         else p \<notin> live_blocks (al_root a) \<and> al_root a' = M_malloc sz p # al_root a)) \<and>
     (\<forall>a p a'. mspace_free ops a p = Ok a' \<longrightarrow> al_root a' = M_free p # al_root a) \<and>
     (\<forall>a sz. mspace_malloc ops a sz \<noteq> Fault Out_of_fuel) \<and> (\<forall>a p. mspace_free ops a p \<noteq> Fault Out_of_fuel)"

lemma mspace_okD:
  assumes "mspace_ok ops"
  shows "mspace_malloc ops a sz = Ok (0, a') \<Longrightarrow> al_root a' = al_root a"
    and "mspace_malloc ops a sz = Ok (p, a') \<Longrightarrow> p \<noteq> 0 \<Longrightarrow>
      p \<notin> live_blocks (al_root a) \<and> al_root a' = M_malloc sz p # al_root a"
    and "mspace_free ops a p = Ok a' \<Longrightarrow> al_root a' = M_free p # al_root a"
    and "fine f (mspace_malloc ops a sz)" and "fine f (mspace_free ops a p)"
  using assms by (auto simp: mspace_ok_def fine_def sound_def split: res.split if_splits)

definition mspace_never_null :: "mspace_ops \<Rightarrow> bool" where
  "mspace_never_null ops \<longleftrightarrow> (\<forall>a sz p a'. mspace_malloc ops a sz = Ok (p, a') \<longrightarrow> p \<noteq> 0)"

section \<open>The invariant\<close>

definition object_size :: "arax_pipe_s \<Rightarrow> addr \<Rightarrow> nat" where
  "object_size s a = (case objects s a of None \<Rightarrow> 0 | Some (h, _) \<Rightarrow> unat (alloc_size h))"

definition space :: "arax_pipe_s \<Rightarrow> nat" where
  "space s = unat (available (throttle s)) + (\<Sum>a\<in>dom (objects s). object_size s a)"

definition memory_inv :: "bool \<Rightarrow> arax_pipe_s \<Rightarrow> bool" where
  "memory_inv exact s \<longleftrightarrow>
     throttle_inv (throttle s) \<and> 0 \<notin> dom (objects s) \<and> dom (objects s) \<subseteq> live_blocks (al_root (allocator s)) \<and>
     space s \<le> unat (capacity (throttle s)) \<and> (exact \<longrightarrow> space s = unat (capacity (throttle s)))"

definition type_inv :: "addr set \<Rightarrow> arax_pipe_s \<Rightarrow> bool" where
  "type_inv D s \<longleftrightarrow> D \<subseteq> dom (objects s) \<and>
     (\<forall>a h b. objects s a = Some (h, b) \<longrightarrow> (ref_count h = 0 \<longleftrightarrow> a \<in> D) \<and>
        (ob_type h = body_type b \<or> ob_type h = ARAX_TYPE_COUNT \<and> a \<in> D))"

definition repo_family :: "(arax_object_type_e \<Rightarrow> addr list) \<Rightarrow> node \<rightharpoonup> node list" where
  "repo_family R n = (case n of Repo_head ty \<Rightarrow> if ty = ARAX_TYPE_COUNT then None else Some (map Obj_node (R ty)) | _ \<Rightarrow> None)"

definition of_type :: "addr set \<Rightarrow> arax_pipe_s \<Rightarrow> arax_object_type_e \<Rightarrow> addr set" where
  "of_type D s ty = {a. a \<notin> D \<and> (\<exists>h b. objects s a = Some (h, b) \<and> body_type b = ty)}"

definition repo_rep :: "addr set \<Rightarrow> arax_pipe_s \<Rightarrow> (arax_object_type_e \<Rightarrow> addr list) \<Rightarrow> bool" where
  "repo_rep D s R \<longleftrightarrow> lists_rep (lists s) (repo_family R) \<and>
     (\<forall>ty. ty \<noteq> ARAX_TYPE_COUNT \<longrightarrow> set (R ty) = of_type D s ty) \<and>
     (\<forall>a\<in>dom (objects s). nd_owner (lists s) (Obj_node a) = a)"

definition seg_inv :: "bool \<Rightarrow> addr set \<Rightarrow> arax_pipe_s \<Rightarrow> bool" where
  "seg_inv exact D s \<longleftrightarrow> memory_inv exact s \<and> type_inv D s \<and> vac_closed (lists s) \<and> (\<exists>R. repo_rep D s R)"

definition seg_ok :: "arax_env \<Rightarrow> bool \<Rightarrow> addr set \<Rightarrow> arax_pipe_s \<Rightarrow> bool" where
  "seg_ok env exact D s \<longleftrightarrow> mspace_ok (mspace env) \<and> (exact \<longrightarrow> mspace_never_null (mspace env)) \<and> seg_inv exact D s"

section \<open>Changes that keep it\<close>

lemma body_type_not_COUNT [simp]: "body_type b \<noteq> ARAX_TYPE_COUNT"
  by (cases b) simp_all

lemma seg_inv_frame:
  "seg_inv exact D s \<Longrightarrow> objects s' = objects s \<Longrightarrow> throttle s' = throttle s \<Longrightarrow> allocator s' = allocator s \<Longrightarrow>
    lists s' = lists s \<Longrightarrow> seg_inv exact D s'"
  by (simp add: seg_inv_def memory_inv_def type_inv_def repo_rep_def of_type_def space_def object_size_def)

lemma seg_inv_closed: "seg_inv exact D s \<Longrightarrow> vac_closed (lists s)"
  by (simp add: seg_inv_def)

lemma seg_inv_typeD:
  assumes "seg_inv exact D s" and "objects s a = Some (h, b)"
  shows "ref_count h = 0 \<longleftrightarrow> a \<in> D" and "ob_type h = body_type b \<or> ob_type h = ARAX_TYPE_COUNT \<and> a \<in> D"
    and "a \<notin> D \<Longrightarrow> ob_type h = body_type b" and "a \<noteq> 0"
proof -
  have t: "type_inv D s" and m: "0 \<notin> dom (objects s)" using assms(1) by (auto simp: seg_inv_def memory_inv_def)
  from t assms(2) show "ref_count h = 0 \<longleftrightarrow> a \<in> D" "ob_type h = body_type b \<or> ob_type h = ARAX_TYPE_COUNT \<and> a \<in> D"
    "a \<notin> D \<Longrightarrow> ob_type h = body_type b" unfolding type_inv_def by blast+
  from m assms(2) show "a \<noteq> 0" by blast
qed

text \<open>An object replaced by another one of its size and type, \<open>D\<close> adjusted to its count.\<close>

lemma seg_inv_replace:
  assumes inv: "seg_inv exact D s" and a: "objects s a = Some (h, b)"
    and h': "alloc_size h' = alloc_size h" "body_type b' = body_type b" "ref_count h' = 0 \<longleftrightarrow> ref_count h = 0"
      "ob_type h' = ob_type h \<or> a \<in> D \<and> ob_type h' = ARAX_TYPE_COUNT"
  shows "seg_inv exact D (s\<lparr>objects := (objects s)(a \<mapsto> (h', b'))\<rparr>)"
proof -
  let ?s = "s\<lparr>objects := (objects s)(a \<mapsto> (h', b'))\<rparr>"
  have dom: "dom (objects ?s) = dom (objects s)" using a by auto
  have "object_size ?s = object_size s" using a h' by (auto simp: object_size_def fun_eq_iff)
  then have "memory_inv exact ?s" using inv dom by (simp add: seg_inv_def memory_inv_def space_def)
  moreover have "type_inv D ?s"
    using inv h' seg_inv_typeD(1,2) [OF inv a] unfolding seg_inv_def type_inv_def dom by auto
  moreover have "of_type D ?s = of_type D s" using a h' by (auto simp: of_type_def fun_eq_iff)
  then have "repo_rep D ?s R = repo_rep D s R" for R unfolding repo_rep_def dom by simp
  ultimately show ?thesis using inv by (simp add: seg_inv_def)
qed

lemma seg_inv_body:
  "seg_inv exact D s \<Longrightarrow> objects s a = Some (h, b) \<Longrightarrow> body_type b' = body_type b \<Longrightarrow> seg_inv exact D (set_body a b' s)"
  using seg_inv_replace [of exact D s a h b h b'] by (simp add: set_body_def)

lemma seg_inv_obj:
  "seg_inv exact D s \<Longrightarrow> objects s a = Some (h, b) \<Longrightarrow> alloc_size h' = alloc_size h \<Longrightarrow>
    (ref_count h' = 0 \<longleftrightarrow> ref_count h = 0) \<Longrightarrow> ob_type h' = ob_type h \<or> a \<in> D \<and> ob_type h' = ARAX_TYPE_COUNT \<Longrightarrow>
    seg_inv exact D (set_obj a h' s)"
  using seg_inv_replace [of exact D s a h b h' b] by (simp add: set_obj_def)

lemma lists_rep_vac_only:
  assumes "lists_rep h (repo_family R)" and "vac_only h h'"
  shows "lists_rep h' (repo_family R)"
proof (rule lists_repI)
  fix l ns
  assume l: "repo_family R l = Some ns"
  then have out: "\<not> vac_node a" if "a \<in> set (l # ns)" for a
    using that by (auto simp: repo_family_def split: node.splits if_splits)
  then have "list_rep h' l ns"
    using assms(2) by (intro list_rep_frame [OF lists_repD(1) [OF assms(1) l]]) (auto simp: vac_only_def)
  then show "list_rep h' l ns \<and> length ns < size_max" using lists_repD(2) [OF assms(1) l] by simp
qed (use assms(1) in \<open>unfold lists_rep_def, blast\<close>)

lemma seg_inv_vacs:
  assumes "seg_inv exact D s" and "vac_only (lists s) h" and "vac_closed h"
  shows "seg_inv exact D (s\<lparr>lists := h\<rparr>)"
proof -
  have "repo_rep D (s\<lparr>lists := h\<rparr>) R" if "repo_rep D s R" for R
    using that lists_rep_vac_only [of "lists s" R h] assms(2) by (auto simp: repo_rep_def vac_only_def of_type_def)
  moreover have "memory_inv exact (s\<lparr>lists := h\<rparr>) = memory_inv exact s" "type_inv D (s\<lparr>lists := h\<rparr>) = type_inv D s"
    by (simp_all add: memory_inv_def type_inv_def space_def object_size_def)
  ultimately show ?thesis using assms(1,3) unfolding seg_inv_def by auto
qed

interpretation seg: stable f "seg_ok env exact D" for f env exact D
proof
  fix s s' :: arax_pipe_s
  show "seg_ok env exact D s \<Longrightarrow> objects s' = objects s \<Longrightarrow> throttle s' = throttle s \<Longrightarrow> allocator s' = allocator s \<Longrightarrow>
      lists s' = lists s \<Longrightarrow> seg_ok env exact D s'"
    unfolding seg_ok_def using seg_inv_frame by blast
next
  fix s l n h c
  assume "seg_ok env exact D s" and l: "vac_node l" "vac_node n" and h: "h \<in> vac_ops (lists s) l n c"
  then show "seg_ok env exact D (s\<lparr>lists := h\<rparr>)"
    using vac_ops_only [OF seg_inv_closed [of exact D] l h] seg_inv_vacs [of exact D s h] by (simp add: seg_ok_def)
qed (simp add: seg_ok_def seg_inv_body)

section \<open>New objects\<close>

lemma repo_family_upd:
  "ty \<noteq> ARAX_TYPE_COUNT \<Longrightarrow> (repo_family R)(Repo_head ty \<mapsto> map Obj_node as) = repo_family (R(ty := as))"
  by (auto simp: repo_family_def fun_eq_iff split: node.splits)

lemma repo_family_Some:
  "repo_family R l = Some ns \<longleftrightarrow> (\<exists>ty. l = Repo_head ty \<and> ty \<noteq> ARAX_TYPE_COUNT \<and> ns = map Obj_node (R ty))"
  by (cases l) (auto simp: repo_family_def)

lemma repo_footprint: "Obj_node a \<in> footprint (repo_family R) \<longleftrightarrow> (\<exists>ty. ty \<noteq> ARAX_TYPE_COUNT \<and> a \<in> set (R ty))"
proof
  assume "Obj_node a \<in> footprint (repo_family R)"
  then show "\<exists>ty. ty \<noteq> ARAX_TYPE_COUNT \<and> a \<in> set (R ty)" by (auto simp: footprint_def repo_family_Some)
next
  assume "\<exists>ty. ty \<noteq> ARAX_TYPE_COUNT \<and> a \<in> set (R ty)"
  then obtain ty where "repo_family R (Repo_head ty) = Some (map Obj_node (R ty))" "a \<in> set (R ty)"
    by (auto simp: repo_family_Some)
  from footprintI [of "repo_family R" "Repo_head ty" _ "Obj_node a", OF this(1)] this(2) show "Obj_node a \<in> footprint (repo_family R)" by simp
qed

lemma repo_rep_list:
  assumes "repo_rep D s R" and "ty \<noteq> ARAX_TYPE_COUNT"
  shows "list_rep (lists s) (Repo_head ty) (map Obj_node (R ty))" and "distinct (R ty)"
proof -
  show l: "list_rep (lists s) (Repo_head ty) (map Obj_node (R ty))"
    using assms lists_repD(1) [of "lists s" "repo_family R" "Repo_head ty"] by (simp add: repo_rep_def repo_family_def)
  then show "distinct (R ty)" by (simp add: list_rep_def distinct_map)
qed

lemma vac_closed_repo_ops:
  assumes "vac_closed h" and l: "list_rep h (Repo_head ty) (map Obj_node as)"
  shows "vac_closed (utils_list_add h (Repo_head ty) (Obj_node p))"
    and "p \<in> set as \<Longrightarrow> vac_closed (utils_list_del h (Repo_head ty) (Obj_node p))"
proof -
  have out: "n \<notin> set (Repo_head ty # Obj_node p # map Obj_node as)" if "vac_node n" for n using that by auto
  show "vac_closed (utils_list_add h (Repo_head ty) (Obj_node p))"
    using assms(1) list_add_other [OF l, of _ "Obj_node p"] out unfolding vac_closed_def by simp
  show "vac_closed (utils_list_del h (Repo_head ty) (Obj_node p))" if "p \<in> set as"
    using assms(1) list_del_other [OF l, of "Obj_node p"] that out unfolding vac_closed_def by simp
qed

lemma card_addr: "finite A \<Longrightarrow> A \<subseteq> - {0, p} \<Longrightarrow> p \<noteq> (0 :: addr) \<Longrightarrow> Suc (card A) < size_max"
proof -
  assume A: "finite A" "A \<subseteq> - {0, p}" "p \<noteq> (0 :: addr)"
  then have "card (insert 0 (insert p A)) \<le> card (UNIV :: addr set)" by (intro card_mono) simp_all
  moreover have "card (insert 0 (insert p A)) = Suc (Suc (card A))"
    using A by (subst card_insert_disjoint; (subst card_insert_disjoint)?) auto
  moreover have "card (UNIV :: addr set) = size_max" by (simp add: card_word size_max_def)
  ultimately show ?thesis by simp
qed

lemma repo_rep_new:
  assumes r: "repo_rep D s R" and p: "p \<notin> dom (objects s)" "p \<noteq> 0" "0 \<notin> dom (objects s)" "D \<subseteq> dom (objects s)"
    and b: "body_type b = ty" "ty \<noteq> ARAX_TYPE_COUNT"
    and s': "objects s' = (objects s)(p \<mapsto> (h, b))"
      "lists s' = utils_list_add (utils_list_node_init (lists s) (Obj_node p) p) (Repo_head ty) (Obj_node p)"
  shows "repo_rep D s' (R(ty := p # R ty))"
proof -
  let ?h = "utils_list_node_init (lists s) (Obj_node p) p"
  have sets: "set (R ty') = of_type D s ty'" if "ty' \<noteq> ARAX_TYPE_COUNT" for ty' using r that by (simp add: repo_rep_def)
  then have fresh: "Obj_node p \<notin> footprint (repo_family R)" using p(1) by (auto simp: repo_footprint of_type_def)
  have "Suc (card (set (R ty))) < size_max"
    using sets [OF b(2)] p by (intro card_addr [of _ p]) (auto simp: of_type_def)
  then have len: "Suc (length (map Obj_node (R ty))) < size_max" using repo_rep_list(2) [OF r b(2)] by (simp add: distinct_card)
  have "lists_rep ?h (repo_family R)" using lists_node_init fresh r by (auto simp: repo_rep_def)
  from lists_add [OF this _ fresh len, of "Repo_head ty"] b(2)
  have "lists_rep (lists s') ((repo_family R)(Repo_head ty \<mapsto> Obj_node p # map Obj_node (R ty)))"
    unfolding s' by (simp add: repo_family_def)
  then have "lists_rep (lists s') (repo_family (R(ty := p # R ty)))" using repo_family_upd [OF b(2), of R "p # R ty"] by simp
  moreover have "set ((R(ty := p # R ty)) ty') = of_type D s' ty'" if "ty' \<noteq> ARAX_TYPE_COUNT" for ty'
    using sets [OF that] p b s'(1) by (auto simp: of_type_def)
  moreover have "nd_owner (lists s') (Obj_node a) = a" if "a \<in> dom (objects s')" for a
    using r that unfolding s' repo_rep_def
    by (auto simp: utils_list_add_def utils_list_node_add_def utils_list_node_init_def Let_def)
  ultimately show ?thesis by (simp add: repo_rep_def)
qed

lemma space_new:
  assumes "finite (dom (objects s))" and "p \<notin> dom (objects s)" and "objects s' = (objects s)(p \<mapsto> (h, b))"
  shows "space s' + unat (available (throttle s)) = space s + unat (available (throttle s')) + unat (alloc_size h)"
proof -
  have "object_size s' p = unat (alloc_size h)" "\<And>a. a \<in> dom (objects s) \<Longrightarrow> object_size s' a = object_size s a"
    using assms(2,3) by (auto simp: object_size_def)
  then have "(\<Sum>a\<in>dom (objects s'). object_size s' a) = unat (alloc_size h) + (\<Sum>a\<in>dom (objects s). object_size s a)"
    using assms by (simp cong: sum.cong)
  then show ?thesis by (simp add: space_def)
qed

lemma throttle_dec_Ok:
  assumes "throttle_inv t" and "arax_throttle_size_dec t sz = Ok t'"
  shows "throttle_inv t'" "capacity t' = capacity t" "unat (available t) = unat (available t') + unat sz"
proof -
  have le: "sz \<le> available t" using throttle_dec_blocks [OF assms(1), of sz] assms(2) by (cases "available t < sz") auto
  with throttle_dec_ok [OF assms(1) le] assms(2) show "throttle_inv t'" "capacity t' = capacity t"
    "unat (available t) = unat (available t') + unat sz" by (auto simp: unat_sub word_le_nat_alt)
qed

lemma seg_inv_finite: "seg_inv exact D s \<Longrightarrow> finite (dom (objects s))"
  using finite_subset [OF _ finite_live_blocks] by (auto simp: seg_inv_def memory_inv_def)

lemma seg_inv_new:
  assumes inv: "seg_inv exact D s" and t: "arax_throttle_size_dec (throttle s) (alloc_size h) = Ok (throttle s')"
    and p: "p \<noteq> 0" "p \<notin> live_blocks (al_root (allocator s))" "al_root (allocator s') = M_malloc sz p # al_root (allocator s)"
    and h: "ob_type h = body_type b" "ref_count h \<noteq> 0"
    and s': "objects s' = (objects s)(p \<mapsto> (h, b))"
      "lists s' = utils_list_add (utils_list_node_init (lists s) (Obj_node p) p) (Repo_head (body_type b)) (Obj_node p)"
  shows "seg_inv exact D s'"
proof -
  have mem: "memory_inv exact s" and ty: "type_inv D s" and cl: "vac_closed (lists s)" using inv by (auto simp: seg_inv_def)
  obtain R where R: "repo_rep D s R" using inv by (auto simp: seg_inv_def)
  have pd: "p \<notin> dom (objects s)" using mem p(2) by (auto simp: memory_inv_def)
  note t' = throttle_dec_Ok [OF _ t]
  have "memory_inv exact s'"
    using mem p t' space_new [OF seg_inv_finite [OF inv] pd s'(1)] s'(1) by (auto simp: memory_inv_def)
  moreover have "type_inv D s'" using ty pd h s'(1) by (auto simp: type_inv_def)
  moreover have "repo_rep D s' (R(body_type b := p # R (body_type b)))"
    using mem ty by (intro repo_rep_new [OF R pd p(1) _ _ refl _ s']) (auto simp: memory_inv_def type_inv_def)
  moreover have "vac_closed (lists s')"
  proof -
    have nd: "vac_closed (utils_list_node_init (lists s) (Obj_node p) p)"
      using cl by (auto simp: vac_closed_def utils_list_node_init_def)
    have "Obj_node p \<notin> set (Repo_head (body_type b) # map Obj_node (R (body_type b)))"
      using R pd by (auto simp: repo_rep_def of_type_def)
    then have "list_rep (utils_list_node_init (lists s) (Obj_node p) p) (Repo_head (body_type b)) (map Obj_node (R (body_type b)))"
      by (intro list_rep_frame [OF repo_rep_list(1) [OF R]]) (auto simp: utils_list_node_init_def)
    from vac_closed_repo_ops(1) [OF nd this] s'(2) show ?thesis by simp
  qed
  ultimately show ?thesis unfolding seg_inv_def by blast
qed

lemma body_type_zero: "ty \<noteq> ARAX_TYPE_COUNT \<Longrightarrow> body_type (zero_body env ty) = ty"
  by (cases ty) simp_all

lemma seg_register:
  assumes "seg_ok env exact D s" and "ty \<noteq> ARAX_TYPE_COUNT" and "refs \<noteq> 0"
  shows "sound2 f (seg_ok env exact D) (arax_object_register env ty name sz refs s)"
proof -
  have inv: "seg_inv exact D s" and ms: "mspace_ok (mspace env)" and nn: "exact \<longrightarrow> mspace_never_null (mspace env)"
    using assms(1) by (auto simp: seg_ok_def)
  let ?al = "mspace_malloc (mspace env) (allocator s) sz"
  have fine: "fine f ?al" by (rule mspace_okD(4) [OF ms])
  have null: "seg_ok env exact D (s\<lparr>throttle := t, allocator := al\<rparr>)"
    if t: "arax_throttle_size_dec (throttle s) sz = Ok t" and al: "?al = Ok (0, al)" for t al
  proof -
    have "\<not> exact" "al_root al = al_root (allocator s)"
      using mspace_okD(1) [OF ms al] nn al unfolding mspace_never_null_def by blast+
    then have "seg_inv exact D (s\<lparr>throttle := t, allocator := al\<rparr>)"
      using inv throttle_dec_Ok [OF _ t]
      by (auto simp: seg_inv_def memory_inv_def type_inv_def repo_rep_def of_type_def space_def object_size_def)
    then show ?thesis using assms(1) by (simp add: seg_ok_def)
  qed
  have new: "seg_ok env exact D (s\<lparr>throttle := t, allocator := al,
       objects := (objects s)(p \<mapsto> (\<lparr>alloc_size = sz, ob_type = ty, ref_count = refs, ob_name = nm\<rparr>, zero_body env ty)),
       lists := utils_list_add (utils_list_node_init (lists s) (Obj_node p) p) (Repo_head ty) (Obj_node p)\<rparr>)"
    if t: "arax_throttle_size_dec (throttle s) sz = Ok t" and al: "?al = Ok (p, al)" and p: "p \<noteq> 0" for t p al nm
  proof -
    have "p \<notin> live_blocks (al_root (allocator s))" "al_root al = M_malloc sz p # al_root (allocator s)"
      using mspace_okD(2) [OF ms al p] by blast+
    then have "seg_inv exact D (s\<lparr>throttle := t, allocator := al,
       objects := (objects s)(p \<mapsto> (\<lparr>alloc_size = sz, ob_type = ty, ref_count = refs, ob_name = nm\<rparr>, zero_body env ty)),
       lists := utils_list_add (utils_list_node_init (lists s) (Obj_node p) p) (Repo_head ty) (Obj_node p)\<rparr>)"
      using t p assms(2,3)
      by (intro seg_inv_new [OF inv, of "\<lparr>alloc_size = sz, ob_type = ty, ref_count = refs, ob_name = nm\<rparr>" _ p sz "zero_body env ty"])
        (simp_all add: body_type_zero)
    then show ?thesis using assms(1) by (simp add: seg_ok_def)
  qed
  show ?thesis
    unfolding arax_object_register_def arax_pipe_size_dec_def arch_alloc_allocate_def arax_object_list_lock_def
      arax_object_list_unlock_def Let_def rbind_assoc rbind.simps(1) prod.case
    by (intro sound_intro; simp add: fine null new)
qed

section \<open>References and names\<close>

lemma inc_not_zero: "0 \<le> sint (c :: u32) \<Longrightarrow> c + 1 \<noteq> 0"
proof
  assume c: "0 \<le> sint c" and "c + 1 = 0"
  then have "c = -1" by (simp add: eq_neg_iff_add_eq_0)
  with c show False by simp
qed

lemma seg_ref_inc:
  assumes ok: "seg_ok env exact D s" and "a \<notin> D"
  shows "sound f (seg_ok env exact D) (arax_object_ref_inc a s)"
proof -
  have "seg_ok env exact D (set_obj a (h\<lparr>ref_count := ref_count h + 1\<rparr>) s)"
    if h: "get_obj a s = Ok h" "0 \<le> sint (ref_count h)" for h
  proof -
    from h(1) obtain b where b: "objects s a = Some (h, b)" by (auto simp: res_simps)
    have inv: "seg_inv exact D s" using ok by (simp add: seg_ok_def)
    have "seg_inv exact D (set_obj a (h\<lparr>ref_count := ref_count h + 1\<rparr>) s)"
      using seg_inv_typeD(1) [OF inv b] assms(2) inc_not_zero [OF h(2)] by (intro seg_inv_obj [OF inv b]) auto
    with ok show ?thesis by (simp add: seg_ok_def)
  qed
  then show ?thesis unfolding arax_object_ref_inc_def by (intro sound_intro; simp)
qed

lemma seg_rename: "seg_ok env exact D s \<Longrightarrow> sound f (seg_ok env exact D) (arax_object_rename env a name s)"
  unfolding arax_object_rename_def by (intro sound_intro) (auto simp: seg_ok_def res_simps intro!: seg_inv_obj)

lemma seg_malloc:
  assumes "seg_ok env exact D s"
  shows "fine f (arch_alloc_allocate (mspace env) (allocator s) sz) \<and>
    (\<forall>p al. arch_alloc_allocate (mspace env) (allocator s) sz = Ok (p, al) \<longrightarrow> seg_ok env exact D (s\<lparr>allocator := al\<rparr>))"
proof -
  have ms: "mspace_ok (mspace env)" using assms by (simp add: seg_ok_def)
  have "seg_ok env exact D (s\<lparr>allocator := al\<rparr>)" if "mspace_malloc (mspace env) (allocator s) sz = Ok (p, al)" for p al
  proof -
    have "live_blocks (al_root (allocator s)) \<subseteq> live_blocks (al_root al)"
      using mspace_okD(1,2) [OF ms] that by (cases "p = 0") fastforce+
    then show ?thesis using assms
      by (auto simp: seg_ok_def seg_inv_def memory_inv_def type_inv_def repo_rep_def of_type_def space_def object_size_def)
  qed
  then show ?thesis using mspace_okD(4) [OF ms] by (auto simp: arch_alloc_allocate_def)
qed

interpretation seg_env: stable_env f "seg_ok env exact {}" env for f env exact
  by unfold_locales (simp_all add: seg_register seg_ref_inc seg_rename seg_malloc)

section \<open>The end of an object\<close>

text \<open>The last reference goes: off the list, and among the objects being destroyed.\<close>

lemma remove1_map_Obj: "remove1 (Obj_node a) (map Obj_node as) = map Obj_node (remove1 a as)"
  by (induction as) auto

lemma seg_inv_die:
  assumes inv: "seg_inv exact D s" and a: "objects s a = Some (h, b)" "a \<notin> D"
  shows "seg_inv exact (insert a D) (set_obj a (h\<lparr>ref_count := 0\<rparr>)
    (s\<lparr>lists := utils_list_del (lists s) (Repo_head (body_type b)) (Obj_node a)\<rparr>))" (is "seg_inv _ _ ?s")
proof -
  obtain R where R: "repo_rep D s R" using inv by (auto simp: seg_inv_def)
  let ?ty = "body_type b"
  have ob: "objects ?s = (objects s)(a \<mapsto> (h\<lparr>ref_count := 0\<rparr>, b))" and li: "lists ?s = utils_list_del (lists s) (Repo_head ?ty) (Obj_node a)"
    using a by (simp_all add: set_obj_def)
  have dom: "dom (objects ?s) = dom (objects s)" using a ob by auto
  have "object_size ?s = object_size s" using a by (auto simp: object_size_def ob fun_eq_iff)
  moreover have "throttle ?s = throttle s" "allocator ?s = allocator s" by (simp_all add: set_obj_def)
  ultimately have "memory_inv exact ?s" using inv by (simp add: seg_inv_def memory_inv_def space_def dom)
  moreover have "type_inv (insert a D) ?s"
    using inv a seg_inv_typeD(3) [OF inv a(1,2)] unfolding seg_inv_def type_inv_def dom by (auto simp: ob)
  moreover have mem: "a \<in> set (R ?ty)" using R a by (auto simp: repo_rep_def of_type_def)
  have "repo_rep (insert a D) ?s (R(?ty := remove1 a (R ?ty)))"
  proof -
    have "lists_rep (lists s) (repo_family R)" "repo_family R (Repo_head ?ty) = Some (map Obj_node (R ?ty))"
      using R by (simp_all add: repo_rep_def repo_family_def)
    from lists_del [OF this, of "Obj_node a"] mem
    have "lists_rep (lists ?s) ((repo_family R)(Repo_head ?ty \<mapsto> map Obj_node (remove1 a (R ?ty))))"
      unfolding li by (simp add: remove1_map_Obj)
    then have "lists_rep (lists ?s) (repo_family (R(?ty := remove1 a (R ?ty))))" by (simp add: repo_family_upd)
    moreover have "set ((R(?ty := remove1 a (R ?ty))) ty) = of_type (insert a D) ?s ty" if "ty \<noteq> ARAX_TYPE_COUNT" for ty
      using R that repo_rep_list(2) [OF R, of ?ty] a by (auto simp: repo_rep_def of_type_def ob)
    moreover have "nd_owner (lists ?s) n = nd_owner (lists s) n" for n by (simp add: li utils_list_del_def Let_def)
    ultimately show ?thesis using R unfolding repo_rep_def dom by simp
  qed
  moreover have "vac_closed (lists ?s)"
    unfolding li using vac_closed_repo_ops(2) [OF seg_inv_closed [OF inv] repo_rep_list(1) [OF R]] mem by simp
  ultimately show ?thesis unfolding seg_inv_def by blast
qed

text \<open>Its memory goes back to the allocator and its size to the throttle.\<close>

lemma space_free:
  assumes "finite (dom (objects s))" and "objects s a = Some (h, b)" and "objects s' = (objects s)(a := None)"
  shows "space s + unat (available (throttle s')) = space s' + unat (available (throttle s)) + unat (alloc_size h)"
proof -
  have "objects s = (objects s')(a \<mapsto> (h, b))" "a \<notin> dom (objects s')" "finite (dom (objects s'))"
    using assms by (auto simp: fun_eq_iff)
  from space_new [OF this(3,2,1)] show ?thesis by simp
qed

lemma seg_inv_free:
  assumes inv: "seg_inv exact (insert a D) s" and a: "objects s a = Some (h, b)" "a \<notin> D"
    and al: "al_root (allocator s') = M_free a # al_root (allocator s)" "lists s' = lists s"
    and ob: "objects s' = (objects s)(a := None)"
    and t: "arax_throttle_size_inc (throttle s) (alloc_size h) = Ok (throttle s')"
  shows "seg_inv exact D s'"
proof -
  have mem: "memory_inv exact s" and ti: "throttle_inv (throttle s)" using inv by (auto simp: seg_inv_def memory_inv_def)
  have "object_size s a \<le> (\<Sum>x\<in>dom (objects s). object_size s x)"
    using a(1) seg_inv_finite [OF inv] by (intro member_le_sum) auto
  then have "unat (available (throttle s)) + unat (alloc_size h) \<le> unat (capacity (throttle s))"
    using mem a(1) by (simp add: memory_inv_def space_def object_size_def)
  from throttle_inc_ok [OF ti this] t have t': "throttle_inv (throttle s')" "capacity (throttle s') = capacity (throttle s)"
    "unat (available (throttle s')) = unat (available (throttle s)) + unat (alloc_size h)" by auto
  from space_free [OF seg_inv_finite [OF inv] a(1) ob] t' have "space s' = space s" by simp
  with mem t' have "memory_inv exact s'" by (auto simp: memory_inv_def al ob)
  moreover have "type_inv D s'" using inv a(2) by (auto simp: seg_inv_def type_inv_def ob)
  moreover have "of_type D s' = of_type (insert a D) s" using a(2) by (auto simp: of_type_def ob fun_eq_iff)
  then have "repo_rep (insert a D) s R \<Longrightarrow> repo_rep D s' R" for R by (auto simp: repo_rep_def al ob)
  ultimately show ?thesis using inv al(2) unfolding seg_inv_def by auto
qed

end
