(* ===== verification/Reclaim.thy ===== *)
theory Reclaim
  imports Invariant
begin

text \<open>
  Dropping references. A drop of the last reference runs a destructor, which drops references in turn.
  The theory shows that this keeps the invariant of the segment, and that it ends: each nested
  destructor works on an object whose count just became zero, and what a destructor creates weighs
  less than what it destroys, so the \<open>burden\<close> of the segment bounds the depth of the recursion.
\<close>

section \<open>What is on the lists\<close>

lemma repo_objects_rep:
  assumes "repo_rep D s R" and "ty \<noteq> ARAX_TYPE_COUNT"
  shows "repo_objects ty s = Ok (R ty)"
proof -
  have "set (R ty) \<subseteq> dom (objects s)" using assms by (auto simp: repo_rep_def of_type_def)
  then have "map (nd_owner (lists s) \<circ> Obj_node) (R ty) = R ty"
    using assms(1) by (intro map_idI) (auto simp: repo_rep_def)
  then show ?thesis using list_rep_for_each [OF repo_rep_list(1) [OF assms]] by (simp add: repo_objects_def)
qed

lemma repo_objects_inv:
  assumes "seg_inv exact D s" and "ty \<noteq> ARAX_TYPE_COUNT"
  shows "\<exists>as. repo_objects ty s = Ok as \<and> set as = of_type D s ty \<and> distinct as"
proof -
  obtain R where R: "repo_rep D s R" using assms(1) by (auto simp: seg_inv_def)
  with repo_objects_rep [OF R assms(2)] repo_rep_list(2) [OF R assms(2)] assms(2) show ?thesis
    by (auto simp: repo_rep_def)
qed

lemma find_first_Ok: "find_first p as = Ok a \<Longrightarrow> a = 0 \<or> a \<in> set as \<and> p a = Ok True"
  by (induction as) (auto simp: res_simps split: if_splits)

lemma list_lock_objects:
  "arax_object_list_lock ty s = Ok s' \<Longrightarrow> objects s' = objects s \<and> lists s' = lists s"
  "arax_object_list_unlock ty s = Ok s' \<Longrightarrow> objects s' = objects s \<and> lists s' = lists s"
  by (auto simp: arax_object_list_lock_def arax_object_list_unlock_def res_simps)

lemma repo_objects_cong: "lists s' = lists s \<Longrightarrow> repo_objects ty s' = repo_objects ty s"
  by (cases "utils_list_for_each (lists s) (Repo_head ty)") (simp_all add: repo_objects_def)

lemma find_proc_live:
  assumes "seg_inv exact D s" and "arax_pipe_find_proc name s = Ok (p, s')"
  shows "p = 0 \<or> p \<in> of_type D s ARAX_TYPE_PROC"
proof -
  obtain s1 as where l: "arax_object_list_lock ARAX_TYPE_PROC s = Ok s1" and as: "repo_objects ARAX_TYPE_PROC s1 = Ok as"
    and p: "find_first (\<lambda>a. rbind (get_obj a s1) (\<lambda>h. Ok (name = ob_name h))) as = Ok p"
    using assms(2) by (auto simp: arax_pipe_find_proc_def res_simps)
  have "set as = of_type D s ARAX_TYPE_PROC"
    using repo_objects_inv [OF assms(1), of ARAX_TYPE_PROC] as list_lock_objects(1) [OF l] repo_objects_cong [of s1 s] by auto
  with find_first_Ok [OF p] show ?thesis by auto
qed

section \<open>The burden\<close>

fun weight :: "arax_body \<Rightarrow> nat" where
  "weight (Data _) = 2"
| "weight (Accel _) = 1"
| "weight (Task _) = 1"
| "weight _ = 0"

definition burden :: "addr set \<Rightarrow> arax_pipe_s \<Rightarrow> nat" where
  "burden D s = (\<Sum>a\<in>dom (objects s) - D. weight (snd (the (objects s a))))"

lemma weight_cong: "body_type b' = body_type b \<Longrightarrow> weight b' = weight b"
  by (cases b; cases b') simp_all

lemma burden_cong:
  assumes "dom (objects s') = dom (objects s)"
    and "\<And>a h b. objects s a = Some (h, b) \<Longrightarrow> body_type (snd (the (objects s' a))) = body_type b"
  shows "burden D s' = burden D s"
  unfolding burden_def assms(1)
proof (rule sum.cong)
  fix a
  assume "a \<in> dom (objects s) - D"
  then obtain h b where "objects s a = Some (h, b)" by auto
  with weight_cong [OF assms(2) [OF this]] show "weight (snd (the (objects s' a))) = weight (snd (the (objects s a)))"
    by simp
qed simp

lemma burden_le: "finite (dom (objects s)) \<Longrightarrow> burden D s \<le> 2 * card (dom (objects s))"
proof -
  assume fin: "finite (dom (objects s))"
  have "weight b \<le> 2" for b by (cases b) simp_all
  then have "burden D s \<le> card (dom (objects s) - D) * 2" 
    using sum_bounded_above [of "dom (objects s) - D" "\<lambda>a. weight (snd (the (objects s a)))" 2] by (simp add: burden_def)
  also have "\<dots> \<le> card (dom (objects s)) * 2" using fin by (intro mult_le_mono1 card_mono) auto
  finally show ?thesis by simp
qed

lemma burden_die:
  assumes "finite (dom (objects s))" and "objects s a = Some (h, b)" and "a \<notin> D"
  shows "burden D s = weight b + burden (insert a D) s"
proof -
  have "dom (objects s) - D = insert a (dom (objects s) - insert a D)" using assms by auto
  then show ?thesis using assms unfolding burden_def by (simp del: insert_Diff_single)
qed

lemma burden_free: "objects s' = (objects s)(a := None) \<Longrightarrow> burden D s' = burden (insert a D) s"
proof -
  assume o: "objects s' = (objects s)(a := None)"
  then have "dom (objects s') - D = dom (objects s) - insert a D" by auto
  then show ?thesis unfolding burden_def by (intro sum.cong) (auto simp: o)
qed

lemma burden_new:
  assumes "finite (dom (objects s))" and "objects s' = (objects s)(p \<mapsto> (h, b))"
  shows "burden D s' \<le> weight b + burden D s"
proof -
  have "burden D s' \<le> (\<Sum>a\<in>insert p (dom (objects s) - D - {p}). weight (snd (the (objects s' a))))"
    unfolding burden_def using assms by (intro sum_mono2) auto
  also have "\<dots> = weight b + (\<Sum>a\<in>dom (objects s) - D - {p}. weight (snd (the (objects s a))))"
    using assms by (subst sum.insert) (auto intro!: sum.cong)
  also have "\<dots> \<le> weight b + burden D s" unfolding burden_def using assms(1) by (intro add_left_mono sum_mono2) auto
  finally show ?thesis .
qed

section \<open>Segments with running destructors\<close>

text \<open>
  \<open>D\<close>: the objects being destroyed; \<open>N\<close>: those of them that are known to be no virtual accelerators;
  \<open>k\<close>: a bound of the burden, which matters unless \<open>f\<close>.
\<close>

definition destroying :: "arax_env \<Rightarrow> bool \<Rightarrow> bool \<Rightarrow> addr set \<Rightarrow> addr set \<Rightarrow> nat \<Rightarrow> arax_pipe_s \<Rightarrow> bool" where
  "destroying env exact f D N k s \<longleftrightarrow> seg_ok env exact D s \<and> (f \<or> burden D s \<le> k) \<and>
     (\<forall>a\<in>N. \<forall>h v. objects s a \<noteq> Some (h, Vaccel v))"

lemma destroying_mono: "destroying env exact f D N k s \<Longrightarrow> k \<le> k' \<Longrightarrow> N' \<subseteq> N \<Longrightarrow> destroying env exact f D N' k' s"
  by (auto simp: destroying_def)

lemma destroying_replace:
  assumes "destroying env exact f D N k s" and "objects s a = Some (h, b)" and "seg_ok env exact D s'"
    and "objects s' = (objects s)(a \<mapsto> (h', b'))" and "body_type b' = body_type b"
  shows "destroying env exact f D N k s'"
proof -
  have "burden D s' = burden D s" using assms(2,4,5) by (intro burden_cong) auto
  moreover have "(\<exists>v. b' = Vaccel v) \<longleftrightarrow> (\<exists>v. b = Vaccel v)" using assms(5) by (cases b; cases b') auto
  ultimately show ?thesis using assms by (fastforce simp: destroying_def)
qed

interpretation dying: stable f "destroying env exact f D N k" for f env exact D N k
proof
  fix s s' :: arax_pipe_s
  assume d: "destroying env exact f D N k s"
  then have ok: "seg_ok env exact D s" by (simp add: destroying_def)
  show "destroying env exact f D N k s'" if "objects s' = objects s" "throttle s' = throttle s" "allocator s' = allocator s"
    "lists s' = lists s"
    using d seg.frame [OF ok that] that(1) by (simp add: destroying_def burden_def)
  show "destroying env exact f D N k (set_body a b' s)" if "objects s a = Some (h, b)" "body_type b' = body_type b" for a h b b'
    using destroying_replace [OF d that(1) seg.body [OF ok that], of h b'] that by (simp add: set_body_def)
  show "destroying env exact f D N k (s\<lparr>lists := h\<rparr>)" if "vac_node l" "vac_node n" "h \<in> vac_ops (lists s) l n c" for l n h c
    using d seg.vacs [OF ok that] by (simp add: destroying_def burden_def)
qed

lemma dying_ref_inc:
  assumes d: "destroying env exact f D N k s" and "a \<notin> D"
  shows "sound f (destroying env exact f D N k) (arax_object_ref_inc a s)"
proof -
  have "sound f (seg_ok env exact D) (arax_object_ref_inc a s)"
    using d seg_ref_inc [OF _ assms(2)] by (simp add: destroying_def)
  moreover have "destroying env exact f D N k s'" if "arax_object_ref_inc a s = Ok s'" "seg_ok env exact D s'" for s'
    using that destroying_replace [OF d _ that(2), of a] by (auto simp: arax_object_ref_inc_def res_simps set_obj_def)
  ultimately show ?thesis by (auto simp: sound_def split: res.splits)
qed

lemma register_objects:
  "arax_object_register env ty name sz refs s = Ok (p, s') \<Longrightarrow>
    if p = 0 then objects s' = objects s
    else objects s' = (objects s)(p \<mapsto> (\<lparr>alloc_size = sz, ob_type = ty, ref_count = refs, ob_name = object_name env name\<rparr>, zero_body env ty))"
  by (auto simp: arax_object_register_def arax_pipe_size_dec_def Let_def res_simps dest!: list_lock_objects split: if_splits)

lemma dying_register_task:
  assumes d: "destroying env exact f D N k s"
  shows "sound2 f (destroying env exact f D N (Suc k)) (arax_object_register env ARAX_TYPE_TASK name sz 1 s)"
proof -
  have ok: "seg_ok env exact D s" and fin: "finite (dom (objects s))"
    using d seg_inv_finite by (auto simp: destroying_def seg_ok_def)
  have "destroying env exact f D N (Suc k) s'"
    if r: "arax_object_register env ARAX_TYPE_TASK name sz 1 s = Ok (p, s')" and "seg_ok env exact D s'" for p s'
  proof (cases "p = 0")
    case True
    with register_objects [OF r] d that(2) show ?thesis by (auto simp: destroying_def burden_def)
  next
    case False
    with register_objects [OF r] have "objects s' = (objects s)(p \<mapsto> (\<lparr>alloc_size = sz, ob_type = ARAX_TYPE_TASK, ref_count = 1,
        ob_name = object_name env name\<rparr>, zero_body env ARAX_TYPE_TASK))" by simp
    with burden_new [OF fin this, of D] d that(2) show ?thesis by (auto simp: destroying_def)
  qed
  moreover have "sound2 f (seg_ok env exact D) (arax_object_register env ARAX_TYPE_TASK name sz 1 s)"
    by (rule seg_register [OF ok]) simp_all
  ultimately show ?thesis by (auto simp: sound2_def sound_def split: res.splits)
qed

section \<open>The destructor of data\<close>

text \<open>The reference a submission takes is to a virtual accelerator, or the submission does not get through.\<close>

lemma no_vaccel_no_task:
  assumes "\<And>h v. objects s a \<noteq> Some (h, Vaccel v)"
  shows "arax_vaccel_add_task env a t s = Fault (Bad_access ''arax_vaccel_s'')"
  using assms by (auto simp: arax_vaccel_add_task_def vaccel_lock_def get_vaccel_def split: option.split arax_body.split)

lemma ref_inc_bodies: "arax_object_ref_inc a s = Ok s' \<Longrightarrow> map_option snd (objects s' x) = map_option snd (objects s x)"
  by (auto simp: arax_object_ref_inc_def res_simps set_obj_def)

lemma mod_task_vaccels: "mod_task t g s = Ok s' \<Longrightarrow> objects s' x = Some (h, Vaccel v) \<longleftrightarrow> objects s x = Some (h, Vaccel v)"
  by (auto simp: mod_task_def res_simps set_body_def split: if_splits)

lemma fine_submit_no_vaccel:
  assumes "get_task t s = Ok m" and "\<And>h v. objects s (ta_accel m) \<noteq> Some (h, Vaccel v)"
  shows "sound f P (arax_task_submit env t s)"
proof -
  have "sound f P (arax_vaccel_add_task env (ta_accel m) t s2)"
    if "arax_object_ref_inc (ta_accel m) s = Ok s1" "mod_task t g s1 = Ok s2" for s1 s2 g
  proof -
    have "objects s1 (ta_accel m) \<noteq> Some (h, Vaccel v)" for h v
    proof
      assume "objects s1 (ta_accel m) = Some (h, Vaccel v)"
      with ref_inc_bodies [OF that(1), of "ta_accel m"] obtain h' where "objects s (ta_accel m) = Some (h', Vaccel v)"
        by (cases "objects s (ta_accel m)") auto
      with assms(2) show False by blast
    qed
    then have "objects s2 (ta_accel m) \<noteq> Some (h, Vaccel v)" for h v using mod_task_vaccels [OF that(2)] by blast
    from no_vaccel_no_task [OF this] show ?thesis by (simp add: sound_Fault)
  qed
  then show ?thesis unfolding arax_task_submit_def assms(1) rbind.simps
    by (intro sound_bind_value; simp add: mod_task_def arax_object_ref_inc_def) (intro sound_intro)+
qed

lemma dying_submit:
  assumes d: "destroying env exact f D D k s"
  shows "sound f (destroying env exact f D D k) (arax_task_submit env t s)"
proof (cases "get_task t s")
  case (Ok m)
  show ?thesis
  proof (cases "\<exists>h v. objects s (ta_accel m) = Some (h, Vaccel v)")
    case True
    then have "ta_accel m \<notin> D" using d by (auto simp: destroying_def)
    note inc = dying_ref_inc [OF d this]
    show ?thesis unfolding arax_task_submit_def Ok rbind.simps
      by (intro sound_intro dying.bind_rules inc dying.mods dying.vaccel_tasks)
  qed (use fine_submit_no_vaccel [OF Ok] in blast)
next
  case (Fault e)
  have "fine f (get_task t s)" by (intro sound_intro)
  with Fault show ?thesis unfolding arax_task_submit_def by (simp add: fine_def sound_def)
qed

text \<open>The task that frees the remote copy has no buffers, so only its own object is new.\<close>

lemma dying_issue:
  assumes d: "destroying env exact f D D k s"
  shows "sound2 f (destroying env exact f D D (Suc k)) (arax_task_issue_with env ref_dec a p hinit hsize [] [] s)"
proof -
  have alloc: "sound2 f (destroying env exact f D D (Suc k)) (arax_task_alloc_with env ref_dec a p hsize [] [] s)"
    unfolding arax_task_alloc_with_def Let_def append_Nil list.size simp_thms if_True rbind.simps task_bind_io.simps
    by (intro sound_intro sound_bind2 [OF dying_register_task [OF d]] dying.bind_rules dying.mods; simp)
  show ?thesis
    unfolding arax_task_issue_with_def
    by (intro sound_intro sound_bind2 [OF alloc] dying.bind_rules dying.mods dying_submit dying.fine_check_semantics
        dying.fine_host_data; simp)
qed

lemma dying_proc_get:
  assumes d: "destroying env exact f D N k s"
  shows "sound2 f (destroying env exact f D N k) (arax_proc_get name s)"
proof -
  have inv: "seg_inv exact D s" using d by (simp add: destroying_def seg_ok_def)
  have "sound f (destroying env exact f D N k) (arax_object_ref_inc p s')"
    if "arax_pipe_find_proc name s = Ok (p, s')" "destroying env exact f D N k s'" "p \<noteq> 0" for p s'
    using find_proc_live [OF inv that(1)] that dying_ref_inc [OF that(2)] by (auto simp: of_type_def)
  then show ?thesis unfolding arax_proc_get_def
    by (intro sound_intro sound_bind2 [OF dying.pipe_finds(2) [OF d]] dying.bind_rules; simp)
qed

lemma dying_data:
  assumes d: "destroying env exact f D D k s" and a: "a \<in> D"
    and rd: "\<And>x s. destroying env exact f D D (Suc k) s \<Longrightarrow> sound2 f (destroying env exact f D D (Suc k)) (ref_dec x s)"
  shows "sound f (destroying env exact f D D (Suc k)) (dtor_arax_data_s env ref_dec a s)"
proof -
  have d': "destroying env exact f D D (Suc k) s" using destroying_mono [OF d, of "Suc k" D] by simp
  have mark: "destroying env exact f D D (Suc k) (set_obj a (h\<lparr>ob_type := ARAX_TYPE_COUNT\<rparr>) s)"
    if s: "destroying env exact f D D (Suc k) s" and h: "get_obj a s = Ok h" for h s
  proof -
    from h obtain b where b: "objects s a = Some (h, b)" by (auto simp: res_simps)
    have "seg_ok env exact D (set_obj a (h\<lparr>ob_type := ARAX_TYPE_COUNT\<rparr>) s)"
      using s a b by (auto simp: destroying_def seg_ok_def intro!: seg_inv_obj)
    from destroying_replace [OF s b this, of _ b] b show ?thesis by (simp add: set_obj_def)
  qed
  have issue: "sound2 f (destroying env exact f D D (Suc k)) (arax_task_issue_with env ref_dec v p hinit hsize [] [] s)"
    if "destroying env exact f D D k s" for v p hinit hsize s by (rule dying_issue [OF that])
  show ?thesis unfolding dtor_arax_data_s_def Let_def
    by (intro sound_intro sound_bind [where P = "destroying env exact f D D (Suc k)"] sound_bind2 [OF dying_proc_get [OF d]]
        sound_bind2 [OF issue] sound_bind2 [OF rd] mark d'; (assumption | simp)?)
qed

section \<open>Dropping references\<close>

definition no_vaccel :: "arax_body \<Rightarrow> bool" where
  "no_vaccel b \<longleftrightarrow> body_type b \<noteq> ARAX_TYPE_VIRT_ACCEL"

lemma destroying_die:
  assumes d: "destroying env exact f D D k s" and a: "objects s a = Some (h, b)" "a \<notin> D"
  shows "destroying env exact f (insert a D) (if no_vaccel b then insert a D else D) (k - weight b)
    (set_obj a (h\<lparr>ref_count := 0\<rparr>) (s\<lparr>lists := utils_list_del (lists s) (Repo_head (body_type b)) (Obj_node a)\<rparr>))"
    (is "destroying _ _ _ ?D ?N ?k ?s")
proof -
  have inv: "seg_inv exact D s" using d by (simp add: destroying_def seg_ok_def)
  have ob: "objects ?s = (objects s)(a \<mapsto> (h\<lparr>ref_count := 0\<rparr>, b))" using a by (simp add: set_obj_def)
  have "burden ?D ?s = burden ?D s" using a by (intro burden_cong) (auto simp: ob)
  moreover have "burden D s = weight b + burden ?D s" by (rule burden_die [OF seg_inv_finite [OF inv] a])
  ultimately have "f \<or> burden ?D ?s \<le> ?k" using d by (auto simp: destroying_def)
  moreover have "\<forall>x\<in>?N. \<forall>h v. objects ?s x \<noteq> Some (h, Vaccel v)"
    using d a(2) by (auto simp: ob destroying_def no_vaccel_def split: if_splits)
  moreover have "seg_ok env exact ?D ?s" using d seg_inv_die [OF inv a] by (simp add: destroying_def seg_ok_def)
  ultimately show ?thesis unfolding destroying_def by blast
qed

lemma destroying_free:
  assumes d: "destroying env exact f (insert a D) D k s" and a: "objects s a = Some (h, b)" "a \<notin> D"
    and al: "mspace_free (mspace env) (allocator s) a = Ok al" and t: "arax_throttle_size_inc (throttle s) (alloc_size h) = Ok t"
  shows "destroying env exact f D D k (s\<lparr>allocator := al, objects := (objects s)(a := None), throttle := t\<rparr>)" (is "destroying _ _ _ _ _ _ ?s")
proof -
  have inv: "seg_inv exact (insert a D) s" and ms: "mspace_ok (mspace env)" using d by (auto simp: destroying_def seg_ok_def)
  have "seg_inv exact D ?s"
    using mspace_okD(3) [OF ms al] t by (intro seg_inv_free [OF inv a]) simp_all
  moreover have "burden D ?s = burden (insert a D) s" by (rule burden_free) simp
  ultimately show ?thesis using d by (auto simp: destroying_def seg_ok_def)
qed

lemma dying_reclaim:
  assumes dt: "sound f (destroying env exact f (insert a D) D k) (dtor ty a s)" and a: "a \<notin> D"
  shows "sound f (destroying env exact f D D k) (object_reclaim env dtor ty a s)"
proof -
  have ms: "fine f (mspace_free (mspace env) (allocator s') a)" if "destroying env exact f (insert a D) D k s'" for s'
    using that mspace_okD(5) by (auto simp: destroying_def seg_ok_def)
  have fr: "destroying env exact f D D k (s'\<lparr>allocator := al, objects := (objects s')(a := None), throttle := t\<rparr>)"
    if "destroying env exact f (insert a D) D k s'" "get_obj a s' = Ok h" "mspace_free (mspace env) (allocator s') a = Ok al"
      "arax_throttle_size_inc (throttle s') (alloc_size h) = Ok t" for s' h al t
    using destroying_free [OF that(1) _ a that(3)] that(2,4) by (auto simp: res_simps)
  show ?thesis
    unfolding object_reclaim_def arch_alloc_free_def arch_alloc_free_fn_def arax_pipe_size_inc_def rbind_assoc rbind.simps prod.case
    by (intro sound_bind [OF dt] sound_intro sound_bind_value [where 'a = arch_alloc]; simp add: ms fr)
qed

lemma dying_dtor:
  assumes d: "destroying env exact f (insert a D) (if no_vaccel b then insert a D else D) (k - weight b) s"
    and k: "f \<or> weight b \<le> k" and ty: "ty = body_type b"
    and rd: "\<And>j D' x s. f \<or> j < k \<Longrightarrow> destroying env exact f D' D' j s \<Longrightarrow> sound2 f (destroying env exact f D' D' j) (rdec x s)"
  shows "sound f (destroying env exact f (insert a D) D k) (dtor_table env rdec ty a s)"
proof -
  let ?P = "\<lambda>j. destroying env exact f (insert a D) (insert a D) j"
  have weaken: "?P j s' \<Longrightarrow> j \<le> k \<Longrightarrow> destroying env exact f (insert a D) D k s'" for j s'
    by (rule destroying_mono) auto
  show ?thesis
  proof (cases b)
    case (Accel x)
    with d have s: "?P (k - 1) s" by (simp add: no_vaccel_def)
    have "stable_drop f (?P (k - 1)) rdec" by unfold_locales (use rd [of "k - 1"] k Accel in auto)
    from sound_mono(1) [OF stable_drop.dtors(1) [OF this s] weaken] show ?thesis by (simp add: ty Accel)
  next
    case (Vaccel x)
    with d have "destroying env exact f (insert a D) D k s" by (simp add: no_vaccel_def)
    from dying.vaccel_moves(3) [OF this] show ?thesis by (simp add: ty Vaccel)
  next
    case (Proc x)
    with d have "destroying env exact f (insert a D) D k s" using weaken [of k s] by (simp add: no_vaccel_def)
    from dying.procs(2) [OF this] show ?thesis by (simp add: ty Proc)
  next
    case (Data x)
    with d have s: "?P (k - 2) s" by (simp add: no_vaccel_def)
    have j: "Suc (k - 2) \<le> k \<or> f" "f \<or> Suc (k - 2) < k" using k Data by auto
    have "?P (Suc (k - 2)) s' \<Longrightarrow> destroying env exact f (insert a D) D k s'" for s'
      using j(1) weaken [of "Suc (k - 2)" s'] by (auto simp: destroying_def)
    from sound_mono(1) [OF dying_data [OF s _ rd [OF j(2)]] this] show ?thesis by (simp add: ty Data)
  next
    case (Task x)
    with d have s: "?P (k - 1) s" by (simp add: no_vaccel_def)
    have "stable_drop f (?P (k - 1)) rdec" by unfold_locales (use rd [of "k - 1"] k Task in auto)
    from sound_mono(1) [OF stable_drop.dtors(2) [OF this s] weaken] show ?thesis by (simp add: ty Task)
  qed
qed

text \<open>The common end of the two ways to drop a reference: the count goes down, at zero the object goes.\<close>

lemma dying_drop:
  assumes d: "destroying env exact f D D k s" and a: "objects s a = Some (h, b)" "a \<notin> D"
    and rd: "\<And>j D' x s. f \<or> j < k \<Longrightarrow> destroying env exact f D' D' j s \<Longrightarrow> sound2 f (destroying env exact f D' D' j) (rdec x s)"
  shows "ref_count h \<noteq> 1 \<Longrightarrow> destroying env exact f D D k (set_obj a (h\<lparr>ref_count := ref_count h - 1\<rparr>) s)"
    and "s' = set_obj a (h\<lparr>ref_count := 0\<rparr>) (s\<lparr>lists := utils_list_del (lists s) (Repo_head (ob_type h)) (Obj_node a)\<rparr>)\<lparr>repo_lock := l\<rparr> \<Longrightarrow>
      sound f (destroying env exact f D D k) (object_reclaim env (dtor_table env rdec) (ob_type h) a s')"
proof -
  have inv: "seg_inv exact D s" and ok: "seg_ok env exact D s" using d by (auto simp: destroying_def seg_ok_def)
  have ty: "ob_type h = body_type b" by (rule seg_inv_typeD(3) [OF inv a(1,2)])
  have rc: "ref_count h \<noteq> 0" using seg_inv_typeD(1) [OF inv a(1)] a(2) by simp
  show "destroying env exact f D D k (set_obj a (h\<lparr>ref_count := ref_count h - 1\<rparr>) s)" if "ref_count h \<noteq> 1"
  proof -
    have "seg_ok env exact D (set_obj a (h\<lparr>ref_count := ref_count h - 1\<rparr>) s)"
      using ok rc that by (auto simp: seg_ok_def intro!: seg_inv_obj [OF inv a(1)])
    from destroying_replace [OF d a(1) this, of _ b] a(1) show ?thesis by (simp add: set_obj_def)
  qed
  assume s': "s' = set_obj a (h\<lparr>ref_count := 0\<rparr>) (s\<lparr>lists := utils_list_del (lists s) (Repo_head (ob_type h)) (Obj_node a)\<rparr>)\<lparr>repo_lock := l\<rparr>"
  have "f \<or> weight b \<le> k"
    using d burden_die [OF seg_inv_finite [OF inv] a] by (auto simp: destroying_def)
  then have "sound f (destroying env exact f (insert a D) D k) (dtor_table env rdec (body_type b) a s')"
    using destroying_die [OF d a] unfolding s' ty by (intro dying_dtor [OF _ _ refl rd]) (simp_all only: dying.irrelevant)
  from dying_reclaim [where dtor = "dtor_table env rdec", OF this a(2)] show "sound f (destroying env exact f D D k) (object_reclaim env (dtor_table env rdec) (ob_type h) a s')"
    by (simp add: ty)
qed

lemma set_obj_lists: "(set_obj a h s)\<lparr>lists := l\<rparr> = set_obj a h (s\<lparr>lists := l\<rparr>)" "lists (set_obj a h s) = lists s"
  by (simp_all add: set_obj_def)

lemma list_unlock_Ok:
  "fine f (arax_object_list_unlock ty s)" "arax_object_list_unlock ty s = Ok s' \<Longrightarrow> \<exists>l. s' = s\<lparr>repo_lock := l\<rparr>"
  unfolding arax_object_list_unlock_def by (intro sound_intro) (auto simp: res_simps)

lemma pos_not_zero: "0 < sint (c :: u32) \<Longrightarrow> c \<noteq> 0"
  by auto

lemma dying_ref_dec_with:
  assumes d: "destroying env exact f D D k s"
    and rd: "\<And>j D' x s. f \<or> j < k \<Longrightarrow> destroying env exact f D' D' j s \<Longrightarrow> sound2 f (destroying env exact f D' D' j) (rdec x s)"
  shows "sound2 f (destroying env exact f D D k) (arax_object_ref_dec_with env (dtor_table env rdec) a s)"
proof -
  let ?P = "destroying env exact f D D k"
  have body: "sound2 f ?P
      (if ref_count h - 1 = 0
       then rbind (arax_object_list_unlock (ob_type h) (set_obj a (h\<lparr>ref_count := ref_count h - 1\<rparr>)
              (s\<lparr>lists := utils_list_del (lists s) (Repo_head (ob_type h)) (Obj_node a)\<rparr>)))
            (\<lambda>s. rbind (object_reclaim env (dtor_table env rdec) (ob_type h) a s) (\<lambda>s. Ok (ref_count h - 1, s)))
       else rbind (arax_object_list_unlock (ob_type h) (set_obj a (h\<lparr>ref_count := ref_count h - 1\<rparr>) s)) (\<lambda>s. Ok (ref_count h - 1, s)))"
    if s: "?P s" and h: "objects s a = Some (h, b)" "ref_count h \<noteq> 0" for s h b
  proof -
    have "seg_inv exact D s" using s by (auto simp: destroying_def seg_ok_def)
    then have a: "a \<notin> D" using seg_inv_typeD(1) [OF _ h(1)] h(2) by blast
    note drop = dying_drop [OF s h(1) a, where rdec = rdec, OF rd]
    have reclaim: "sound f ?P (object_reclaim env (dtor_table env rdec) (ob_type h) a s')"
      if "ref_count h - 1 = 0" "arax_object_list_unlock (ob_type h) (set_obj a (h\<lparr>ref_count := ref_count h - 1\<rparr>)
              (s\<lparr>lists := utils_list_del (lists s) (Repo_head (ob_type h)) (Obj_node a)\<rparr>)) = Ok s'" for s'
      using list_unlock_Ok(2) [OF that(2)] drop(2) that(1) by auto
    show ?thesis
    proof (cases "ref_count h - 1 = 0")
      case True
      show ?thesis unfolding if_P [OF True]
        by (intro sound_bind_value(2) [where 'a = arax_pipe_s] list_unlock_Ok sound_bind(2) [where P = ?P] reclaim True sound_Ok)
    next
      case False
      then have "?P (set_obj a (h\<lparr>ref_count := ref_count h - 1\<rparr>) s)" using drop(1) by auto
      then show ?thesis unfolding if_not_P [OF False] by (intro sound_bind(2) [where P = ?P] dying.locks(2) sound_Ok)
    qed
  qed
  have live: "\<exists>b. objects s' a = Some (h, b) \<and> ref_count h \<noteq> 0"
    if "get_obj a s = Ok h" "0 < sint (ref_count h)" "arax_object_list_lock ty s = Ok s'" for h s' ty
    using that pos_not_zero list_lock_objects(1) [OF that(3)] by (auto simp: res_simps)
  show ?thesis unfolding arax_object_ref_dec_with_def Let_def set_obj_lists
  proof (intro sound_value fine_get fine_assert sound_bind(2) [OF dying.locks(1) [OF d]], goal_cases)
    case (1 _ h _ _ s')
    then obtain b where "objects s' a = Some (h, b)" "ref_count h \<noteq> 0" using live [of h _ s'] by auto
    from body [OF 1(6) this] show ?case .
  qed
qed

lemma dying_ref_dec_pre_locked_with:
  assumes d: "destroying env exact f D D k s"
    and rd: "\<And>j D' x s. f \<or> j < k \<Longrightarrow> destroying env exact f D' D' j s \<Longrightarrow> sound2 f (destroying env exact f D' D' j) (rdec x s)"
  shows "sound2 f (destroying env exact f D D k) (arax_object_ref_dec_pre_locked_with env (dtor_table env rdec) a s)"
proof (cases "get_obj a s")
  case (Ok h)
  then obtain b where h: "objects s a = Some (h, b)" by (auto simp: res_simps)
  let ?P = "destroying env exact f D D k"
  have inv: "seg_inv exact D s" using d by (auto simp: destroying_def seg_ok_def)
  show ?thesis
  proof (cases "a \<in> D")
    case True
    then have "ref_count h = 0" using seg_inv_typeD(1) [OF inv h] by simp
    then show ?thesis unfolding arax_object_ref_dec_pre_locked_with_def Ok Let_def by (simp add: sound_Fault)
  next
    case False
    have "sound f ?P (object_reclaim env (dtor_table env rdec) (ob_type h) a (set_obj a (h\<lparr>ref_count := 0\<rparr>)
        (s\<lparr>lists := utils_list_del (lists s) (Repo_head (ob_type h)) (Obj_node a)\<rparr>)))"
      by (rule dying_drop(2) [OF d h False, where l = "repo_lock s"], rule rd) (simp_all add: set_obj_def)
    moreover have "?P (set_obj a (h\<lparr>ref_count := ref_count h - 1\<rparr>) s)" if "ref_count h \<noteq> 1"
      by (rule dying_drop(1) [OF d h False, where rdec = rdec], rule rd) (simp_all add: that)
    ultimately have "sound f ?P
       (if ref_count h - 1 = 0
        then object_reclaim env (dtor_table env rdec) (ob_type h) a (set_obj a (h\<lparr>ref_count := ref_count h - 1\<rparr>)
              (s\<lparr>lists := utils_list_del (lists s) (Repo_head (ob_type h)) (Obj_node a)\<rparr>))
        else Ok (set_obj a (h\<lparr>ref_count := ref_count h - 1\<rparr>) s))"
      by (auto simp: sound_Ok)
    then show ?thesis
      unfolding arax_object_ref_dec_pre_locked_with_def Ok Let_def rbind.simps set_obj_lists
      by (intro sound_bind(2) [where P = ?P] sound_value fine_assert sound_Ok)
  qed
next
  case (Fault e)
  have "fine f (get_obj a s)" by (rule fine_get)
  with Fault show ?thesis by (simp add: arax_object_ref_dec_pre_locked_with_def fine_def sound_def sound2_def)
qed

lemma dying_ref_dec:
  "f \<or> k < n \<Longrightarrow> destroying env exact f D D k s \<Longrightarrow> sound2 f (destroying env exact f D D k) (arax_object_ref_dec n env a s)"
proof (induction n arbitrary: k D s a)
  case 0
  then show ?case by (simp add: sound2_def sound_def)
next
  case (Suc n)
  show ?case unfolding arax_object_ref_dec.simps
    by (rule dying_ref_dec_with [OF Suc.prems(2)], rule Suc.IH) (use Suc.prems(1) in auto)
qed

lemma destroying_start:
  "seg_ok env exact {} s \<Longrightarrow> f \<or> burden {} s \<le> k \<Longrightarrow> destroying env exact f {} {} k s"
  "destroying env exact f {} {} k s \<Longrightarrow> seg_ok env exact {} s"
  by (auto simp: destroying_def)

interpretation seg_ref: stable_ref True "seg_ok env exact {}" env "arax_object_ref_dec fuel env" for env exact fuel
proof unfold_locales
  fix s a
  assume "seg_ok env exact {} s"
  then have "destroying env exact True {} {} 0 s" by (simp add: destroying_start)
  then have "sound2 True (destroying env exact True {} {} 0) (arax_object_ref_dec fuel env a s)" by (rule dying_ref_dec [rotated]) simp
  then show "sound2 True (seg_ok env exact {}) (arax_object_ref_dec fuel env a s)"
    by (rule sound_mono(2)) (rule destroying_start(2))
qed

section \<open>More fuel does not change a result\<close>

definition less_fuel :: "'a res \<Rightarrow> 'a res \<Rightarrow> bool" where
  "less_fuel r r' \<longleftrightarrow> r = Fault Out_of_fuel \<or> r' = r"

named_theorems fuel_intro \<open>calls that are monotone in the fuel\<close>

lemma less_fuel_refl [fuel_intro]: "less_fuel r r"
  by (simp add: less_fuel_def)

lemma less_fuel_bind [fuel_intro]:
  "less_fuel m m' \<Longrightarrow> (\<And>x. less_fuel (k x) (k' x)) \<Longrightarrow> less_fuel (rbind m k) (rbind m' k')"
  unfolding less_fuel_def by (cases m) auto

lemma less_fuel_if [fuel_intro]:
  "(c \<Longrightarrow> less_fuel r r') \<Longrightarrow> (\<not> c \<Longrightarrow> less_fuel q q') \<Longrightarrow> less_fuel (if c then r else q) (if c then r' else q')"
  by simp

lemma less_fuel_let [fuel_intro]: "(\<And>x. less_fuel (g x) (g' x)) \<Longrightarrow> less_fuel (let x = e in g x) (let x = e in g' x)"
  by simp

lemma less_fuel_prod [fuel_intro]:
  "(\<And>x y. less_fuel (g x y) (g' x y)) \<Longrightarrow> less_fuel (case p of (x, y) \<Rightarrow> g x y) (case p of (x, y) \<Rightarrow> g' x y)"
  by (simp split: prod.split)

lemma less_fuel_calls:
  assumes rd: "\<And>a s. less_fuel (rd a s) (rd' a s)"
  shows "less_fuel (arax_accel_release_with rd a s) (arax_accel_release_with rd' a s)"
    and "less_fuel (ref_dec_all rd as s) (ref_dec_all rd' as s)"
    and "less_fuel (arax_data_migrate_accel_with rd d a s) (arax_data_migrate_accel_with rd' d a s)"
proof -
  show "less_fuel (ref_dec_all rd as s) (ref_dec_all rd' as s)"
    by (induction as arbitrary: s) (auto intro!: fuel_intro rd)
qed (unfold arax_accel_release_with_def arax_data_migrate_accel_with_def Let_def, (intro fuel_intro rd)+)

lemma less_fuel_bind_io:
  "(\<And>d a s. less_fuel (io d a s) (io' d a s)) \<Longrightarrow> less_fuel (task_bind_io env io a label cnt ds s) (task_bind_io env io' a label cnt ds s)"
  by (induction ds arbitrary: s cnt) (auto intro!: fuel_intro)

lemma less_fuel_issue:
  assumes rd: "\<And>a s. less_fuel (rd a s) (rd' a s)"
  shows "less_fuel (arax_task_issue_with env rd a p hinit hsize inp outp s) (arax_task_issue_with env rd' a p hinit hsize inp outp s)"
  unfolding arax_task_issue_with_def arax_task_alloc_with_def arax_data_input_init_with_def arax_data_output_init_with_def Let_def
  by (intro fuel_intro less_fuel_bind_io less_fuel_calls rd)

lemma less_fuel_dtor:
  assumes rd: "\<And>a s. less_fuel (rd a s) (rd' a s)"
  shows "less_fuel (dtor_table env rd ty a s) (dtor_table env rd' ty a s)"
  by (cases ty)
    (simp_all add: dtor_arax_accel_s_def dtor_arax_data_s_def dtor_arax_task_msg_s_def less_fuel_refl,
      (intro fuel_intro less_fuel_calls less_fuel_issue rd)+)

lemma ref_dec_more_fuel: "less_fuel (arax_object_ref_dec n env a s) (arax_object_ref_dec (n + m) env a s)"
proof (induction n arbitrary: a s)
  case 0
  show ?case by (simp add: less_fuel_def)
next
  case (Suc n)
  show ?case unfolding add_Suc arax_object_ref_dec.simps arax_object_ref_dec_with_def object_reclaim_def Let_def
    by (intro fuel_intro less_fuel_dtor Suc)
qed

end
