(* ===== verification/Boot.thy ===== *)
theory Boot
  imports Reclaim
begin

text \<open>
  The start of a segment: \<open>arax_pipe_init\<close> on fresh memory establishes the invariant of theory \<open>Invariant\<close>.
  A small concrete environment and segment serve the examples of the properties about the segment.
\<close>

section \<open>A fresh segment\<close>

lemma repo_init_lists:
  "lists (arax_object_repo_init s) = fold (\<lambda>r h. utils_list_init h (Repo_head r) 0) object_types (lists s)"
  "objects (arax_object_repo_init s) = objects s"
  by (simp_all add: arax_object_repo_init_def object_types_def)

definition boot_lists :: "node list_heap" where
  "boot_lists = utils_list_init (fold (\<lambda>r h. utils_list_init h (Repo_head r) 0) object_types
     \<lparr>nd_next = id, nd_prev = id, nd_owner = (\<lambda>_. 0), ls_length = (\<lambda>_. 0)\<rparr>) Orphan_head 0"

lemma boot_lists_fields:
  "nd_next boot_lists n = n" "nd_prev boot_lists n = n" "ls_length boot_lists n = 0"
  by (simp_all add: boot_lists_def object_types_def utils_list_init_def utils_list_node_init_def)

lemma boot_lists_rep: "lists_rep boot_lists (repo_family (\<lambda>_. []))" "vac_closed boot_lists"
proof -
  have "list_rep boot_lists l []" for l by (simp add: list_rep_def boot_lists_fields)
  then show "lists_rep boot_lists (repo_family (\<lambda>_. []))"
    by (intro lists_repI) (auto simp: repo_family_Some size_max_def)
  show "vac_closed boot_lists" by (simp add: vac_closed_def boot_lists_fields)
qed

lemma pipe_init_fresh:
  assumes "arax_pipe_init env mem sz e (zero_pipe env) = Ok (p, s)"
  shows "objects s = Map.empty \<and> lists s = boot_lists \<and> processes s = 1 \<and> repo_lock s = (\<lambda>_. 0) \<and> orphan_cond s = cond_free \<and>
    throttle s = \<lparr>available = sz - sizeof_pipe env, capacity = sz - sizeof_pipe env, ready = cond_free\<rparr> \<and> shm_size s = sz"
  using assms
  by (auto simp: arax_pipe_init_def arax_pipe_add_process_def zero_pipe_def Let_def res_simps arch_alloc_init_once_def
      repo_init_lists boot_lists_def arax_throttle_init_def arax_object_repo_init_def object_types_def utils_spinlock_init_def
      fun_eq_iff split: prod.splits)

lemma seg_inv_boot:
  assumes "objects s = Map.empty" and "lists s = boot_lists" and "throttle s = \<lparr>available = c, capacity = c, ready = cond_free\<rparr>"
  shows "seg_inv exact {} s"
proof -
  have "repo_rep {} s (\<lambda>_. [])" using assms boot_lists_rep by (simp add: repo_rep_def of_type_def)
  then show ?thesis using assms boot_lists_rep
    by (auto simp: seg_inv_def memory_inv_def type_inv_def space_def throttle_inv_def)
qed

lemma pipe_init_ok:
  assumes "arax_pipe_init env mem sz e (zero_pipe env) = Ok (p, s)" and "mspace_ok (mspace env)"
    and "exact \<longrightarrow> mspace_never_null (mspace env)"
  shows "seg_ok env exact {} s"
  using pipe_init_fresh [OF assms(1)] seg_inv_boot [of s _ exact] assms(2,3) by (simp add: seg_ok_def)

section \<open>Registration\<close>

text \<open>When memory is left and the list of the type is not locked, a registration gets through, and does this.\<close>

lemma register_Ok:
  assumes "throttle_inv (throttle s)" and "sz \<le> available (throttle s)" and "repo_lock s ty = 0"
    and "mspace_malloc (mspace env) (allocator s) sz = Ok (p, al)" and "p \<noteq> 0"
  shows "arax_object_register env ty name sz refs s =
    Ok (p, s\<lparr>throttle := (throttle s)\<lparr>available := available (throttle s) - sz\<rparr>, allocator := al,
      objects := (objects s)(p \<mapsto> (\<lparr>alloc_size = sz, ob_type = ty, ref_count = refs, ob_name = object_name env name\<rparr>, zero_body env ty)),
      lists := utils_list_add (utils_list_node_init (lists s) (Obj_node p) p) (Repo_head ty) (Obj_node p)\<rparr>)"
proof -
  have "(repo_lock s)(ty := 0) = repo_lock s" using assms(3) by auto
  then show ?thesis using throttle_dec_ok(1) [OF assms(1,2)] assms(3-5)
    by (simp add: arax_object_register_def arax_pipe_size_dec_def arch_alloc_allocate_def arax_object_list_lock_def
        arax_object_list_unlock_def Let_def)
qed

section \<open>A concrete environment\<close>

text \<open>
  An allocator that takes the next page for every block and aborts when there is none, as the page
  source of the segment does.
\<close>

definition demo_malloc :: "arch_alloc \<Rightarrow> u64 \<Rightarrow> (addr \<times> arch_alloc) res" where
  "demo_malloc a sz =
     (let p = of_nat (4096 * Suc (length (al_root a))) in
      if p = 0 \<or> p \<in> live_blocks (al_root a) then Fault (Assert_failed ''off != BITMAP_NOT_FOUND'')
      else Ok (p, a\<lparr>al_root := M_malloc sz p # al_root a\<rparr>))"

definition demo_mspace :: mspace_ops where
  "demo_mspace =
     \<lparr>create_mspace = (\<lambda>a. Ok (a\<lparr>al_root := []\<rparr>)), destroy_mspace = Ok, mspace_malloc = demo_malloc,
      mspace_free = (\<lambda>a p. Ok (a\<lparr>al_root := M_free p # al_root a\<rparr>)), mspace_mallinfo = (\<lambda>_. (0, 0)),
      mspace_inspect_all = (\<lambda>_. [])\<rparr>"

definition demo_env :: arax_env where
  "demo_env =
     \<lparr>queue_capacity = 8, kv_capacity = 4, proc_map_size = 8, object_name_size = 32, sizeof_pipe = 256,
      sizeof_alloc_inner = 64, allocator_offset = 128, sizeof_accel = 512, sizeof_vaccel = 512, sizeof_proc = 256,
      sizeof_data = 128, sizeof_task = 256, git_rev = ''0123abcd'', data_annotate = False, realtime = 0,
      mspace = demo_mspace\<rparr>"

lemma demo_mspace_ok: "mspace_ok (mspace demo_env)" "mspace_never_null (mspace demo_env)"
  by (auto simp: mspace_ok_def mspace_never_null_def demo_env_def demo_mspace_def demo_malloc_def Let_def split: if_splits)

text \<open>A segment of 64 KiB at the page 16 with a procedure and a data buffer.\<close>

definition demo_calls :: "(addr \<times> arax_pipe_s) res" where
  "demo_calls =
     rbind (arax_pipe_init demo_env 65536 65536 True (zero_pipe demo_env)) (\<lambda>(_, s).
     rbind (arax_proc_init demo_env ''noop'' s) (\<lambda>(_, s).
     arax_data_init demo_env 100 s))"

definition demo_segment :: arax_pipe_s where
  "demo_segment = (case demo_calls of Ok (_, s) \<Rightarrow> s | Fault _ \<Rightarrow> zero_pipe demo_env)"

lemma demo_init:
  "\<exists>s. arax_pipe_init demo_env 65536 65536 True (zero_pipe demo_env) = Ok (65536, s) \<and> al_root (allocator s) = []"
  by (simp add: arax_pipe_init_def arax_pipe_add_process_def zero_pipe_def Let_def arch_alloc_init_once_def demo_env_def
      demo_mspace_def throttle_init_ok split: prod.split)

text \<open>The two objects.\<close>

definition demo_proc :: "arax_object_s \<times> arax_body" where
  "demo_proc = (\<lparr>alloc_size = 256, ob_type = ARAX_TYPE_PROC, ref_count = 1, ob_name = ''noop''\<rparr>, zero_body demo_env ARAX_TYPE_PROC)"

definition demo_data :: "arax_object_s \<times> arax_body" where
  "demo_data = (\<lparr>alloc_size = 237, ob_type = ARAX_TYPE_DATA, ref_count = 1, ob_name = ''UNUSED''\<rparr>,
     Data \<lparr>remote = 0, accel_meta = 0, da_accel = 0, da_size = 100, da_align = 1, flags = 0,
       buffer = data_buffer demo_env 8192 1, da_phys = 0\<rparr>)"

lemma demo_proc_ok:
  assumes "arax_pipe_init demo_env 65536 65536 True (zero_pipe demo_env) = Ok (65536, s)" and "al_root (allocator s) = []"
  shows "\<exists>s1. arax_proc_init demo_env ''noop'' s = Ok (4096, s1) \<and> objects s1 = [4096 \<mapsto> demo_proc] \<and>
      throttle s1 = \<lparr>available = 65024, capacity = 65280, ready = cond_free\<rparr> \<and> repo_lock s1 = (\<lambda>_. 0) \<and>
      al_root (allocator s1) = [M_malloc 256 4096] \<and> processes s1 = 1"
  unfolding arax_proc_init_def using pipe_init_fresh [OF assms(1)] assms(2)
  by (subst register_Ok [where p = 4096 and al = "(allocator s)\<lparr>al_root := [M_malloc 256 4096]\<rparr>"])
    (auto simp: demo_env_def demo_mspace_def demo_malloc_def demo_proc_def object_name_def throttle_inv_def fun_eq_iff)

lemma demo_calls_ok:
  "\<exists>s. demo_calls = Ok (8192, s) \<and> objects s = [4096 \<mapsto> demo_proc, 8192 \<mapsto> demo_data] \<and>
    throttle s = \<lparr>available = 64787, capacity = 65280, ready = cond_free\<rparr> \<and> repo_lock s = (\<lambda>_. 0) \<and> processes s = 1"
proof -
  obtain s where s: "arax_pipe_init demo_env 65536 65536 True (zero_pipe demo_env) = Ok (65536, s)" "al_root (allocator s) = []"
    using demo_init by blast
  from demo_proc_ok [OF s] obtain s1 where s1: "arax_proc_init demo_env ''noop'' s = Ok (4096, s1)" "objects s1 = [4096 \<mapsto> demo_proc]"
    "throttle s1 = \<lparr>available = 65024, capacity = 65280, ready = cond_free\<rparr>" "repo_lock s1 = (\<lambda>_. 0)"
    "al_root (allocator s1) = [M_malloc 256 4096]" "processes s1 = 1" by blast
  then have "\<exists>s2. arax_data_init demo_env 100 s1 = Ok (8192, s2) \<and> objects s2 = [4096 \<mapsto> demo_proc, 8192 \<mapsto> demo_data] \<and>
      throttle s2 = \<lparr>available = 64787, capacity = 65280, ready = cond_free\<rparr> \<and> repo_lock s2 = (\<lambda>_. 0) \<and> processes s2 = 1"
    unfolding arax_data_init_def arax_data_init_aligned_def Let_def ARAX_BUFF_ALLOC_SIZE_def
    by (subst register_Ok [where p = 8192 and al = "(allocator s1)\<lparr>al_root := M_malloc 237 8192 # al_root (allocator s1)\<rparr>"])
      (auto simp: demo_env_def demo_mspace_def demo_malloc_def demo_data_def object_name_def throttle_inv_def mod_data_def get_data_def
        set_body_def fun_eq_iff)
  then show ?thesis using s(1) s1(1) by (simp add: demo_calls_def)
qed

lemma demo_segment_ok: "seg_ok demo_env exact {} demo_segment"
proof -
  obtain a s where s: "demo_calls = Ok (a, s)" using demo_calls_ok by blast
  have "sound2 True (seg_ok demo_env exact {}) demo_calls"
    unfolding demo_calls_def
    by (intro sound_bind2 [where P = "seg_ok demo_env exact {}"] seg_env.creates)
      (auto simp: sound2_def sound_def demo_mspace_ok pipe_init_ok split: res.split)
  from soundD(2) [OF this s] show ?thesis by (simp add: demo_segment_def s)
qed

lemma demo_segment_state:
  "objects demo_segment = [4096 \<mapsto> demo_proc, 8192 \<mapsto> demo_data]"
  "throttle demo_segment = \<lparr>available = 64787, capacity = 65280, ready = cond_free\<rparr>"
  "repo_lock demo_segment = (\<lambda>_. 0)" "processes demo_segment = 1"
proof -
  obtain s where s: "demo_calls = Ok (8192, s)" "objects s = [4096 \<mapsto> demo_proc, 8192 \<mapsto> demo_data]"
    "throttle s = \<lparr>available = 64787, capacity = 65280, ready = cond_free\<rparr>" "repo_lock s = (\<lambda>_. 0)" "processes s = 1"
    using demo_calls_ok by blast
  have "demo_segment = s" unfolding demo_segment_def s(1) by simp
  with s show "objects demo_segment = [4096 \<mapsto> demo_proc, 8192 \<mapsto> demo_data]"
    "throttle demo_segment = \<lparr>available = 64787, capacity = 65280, ready = cond_free\<rparr>"
    "repo_lock demo_segment = (\<lambda>_. 0)" "processes demo_segment = 1" by simp_all
qed

lemma demo_segment_objects: "dom (objects demo_segment) = {4096, 8192}"
  by (auto simp: demo_segment_state)

end
