(* ===== verification/Api.thy ===== *)
theory Api
  imports Boot
begin

text \<open>
  The library as a whole: sequences of calls of any number of processes on one segment. \<open>arax_call\<close> has one
  rule for every function that changes the segment, \<open>arax_run\<close> any number of them after each other, where a
  function that waits for a task lets the controller run meanwhile. The code of processes that reaches into
  the segment without a function of the library has rules too: the controller pops the queues of virtual
  accelerators and sets \<open>data->phys\<close>, \<open>data->remote\<close> and the state of tasks, and all of them write the buffers and the host data of tasks. The finer interleavings of the
  functions that synchronise with each other are the subject of the theories \<open>Spinlock\<close>, \<open>Queue\<close> and \<open>Throttle\<close>.
\<close>

section \<open>Calls and runs\<close>

inductive arax_call :: "arax_env \<Rightarrow> arax_pipe_s \<Rightarrow> arax_pipe_s \<Rightarrow> bool" for env :: arax_env where
  call_attach: "arax_init_fn conf os env w st s = Ok (vp, st', s') \<Longrightarrow> processes s \<noteq> 0 \<Longrightarrow> arax_call env s s'"
| call_ready: "arax_controller_init_done s = s' \<Longrightarrow> arax_call env s s'"
| call_leave: "arax_exit conf os env st s = Ok (st', s') \<Longrightarrow> processes s \<noteq> 1 \<Longrightarrow> arax_call env s s'"
| call_ptr_valid: "arax_ptr_valid conf os env ptr st s = Ok (v, st', s') \<Longrightarrow> processes s \<noteq> 0 \<Longrightarrow> arax_call env s s'"
| call_metric: "arax_plot_register_metric conf os env nm m st s = Ok (m', st', s') \<Longrightarrow> processes s \<noteq> 0 \<Longrightarrow> arax_call env s s'"
| call_ref_inc: "arax_object_ref_inc a s = Ok s' \<Longrightarrow> arax_call env s s'"
| call_ref_dec: "arax_object_ref_dec n env a s = Ok (r, s') \<Longrightarrow> arax_call env s s'"
| call_rename: "arax_object_rename env a nm s = Ok s' \<Longrightarrow> arax_call env s s'"
| call_add_orphan: "arax_pipe_add_orphan_vaccel v s = Ok s' \<Longrightarrow> arax_call env s s'"
| call_get_orphan: "arax_pipe_get_orphan_vaccel s = Ok (v, s') \<Longrightarrow> arax_call env s s'"
| call_remove_orphan: "arax_pipe_remove_orphan_vaccel v s = Ok s' \<Longrightarrow> arax_call env s s'"
| call_orphan_stop: "arax_pipe_orphan_stop s = Ok s' \<Longrightarrow> arax_call env s s'"
| call_find_accel: "arax_pipe_find_accel nm ty s = Ok (a, s') \<Longrightarrow> arax_call env s s'"
| call_find_proc: "arax_pipe_find_proc pn s = Ok (a, s') \<Longrightarrow> arax_call env s s'"
| call_delete_accel: "arax_pipe_delete_accel n env a s = Ok (i, s') \<Longrightarrow> arax_call env s s'"
| call_accel_init: "arax_accel_init env an ty sz cap s = Ok (a, s') \<Longrightarrow> arax_call env s s'"
| call_wait_for_task: "arax_accel_wait_for_task a s = Ok s' \<Longrightarrow> arax_call env s s'"
| call_accel_add_task: "arax_accel_add_task a s = Ok s' \<Longrightarrow> arax_call env s s'"
| call_accel_size_inc: "arax_accel_size_inc a sz s = Ok s' \<Longrightarrow> arax_call env s s'"
| call_accel_size_dec: "arax_accel_size_dec a sz s = Ok s' \<Longrightarrow> arax_call env s s'"
| call_accel_revision: "arax_accel_inc_revision a s = Ok s' \<Longrightarrow> arax_call env s s'"
| call_add_vaccel: "arax_accel_add_vaccel a v s = Ok s' \<Longrightarrow> arax_call env s s'"
| call_del_vaccel: "arax_accel_del_vaccel a v s = Ok s' \<Longrightarrow> arax_call env s s'"
| call_assigned: "arax_accel_get_assigned_vaccels a s = Ok (vs, s') \<Longrightarrow> arax_call env s s'"
| call_set_physical: "arax_accel_set_physical v a s = Ok s' \<Longrightarrow> arax_call env s s'"
| call_accel_list: "arax_accel_list n env ty ph old s = Ok (r, s') \<Longrightarrow> arax_call env s s'"
| call_accel_list_free: "arax_accel_list_free n env as s = Ok s' \<Longrightarrow> arax_call env s s'"
| call_acquire_phys: "arax_accel_acquire_phys env a s = Ok (r, s') \<Longrightarrow> arax_call env s s'"
| call_acquire_type: "arax_accel_acquire_type env ty s = Ok (a, s') \<Longrightarrow> arax_call env s s'"
| call_accel_release: "arax_accel_release n env a s = Ok s' \<Longrightarrow> arax_call env s s'"
| call_vaccel_init: "arax_vaccel_init env vn ty a s = Ok (v, s') \<Longrightarrow> arax_call env s s'"
| call_vaccel_add_task: "arax_vaccel_add_task env v t s = Ok s' \<Longrightarrow> arax_call env s s'"
| call_vaccel_pop: "get_vaccel v s = Ok va \<Longrightarrow> utils_queue_pop (queue_capacity env) (va_queue va) = (r, q) \<Longrightarrow>
    arax_call env s (set_body v (Vaccel (va\<lparr>va_queue := q\<rparr>)) s)"
| call_ordering: "arax_vaccel_set_ordering v ord s = Ok s' \<Longrightarrow> arax_call env s s'"
| call_cid: "arax_vaccel_set_cid v c s = Ok (c', s') \<Longrightarrow> arax_call env s s'"
| call_priority: "arax_vaccel_set_job_priority v pr s = Ok (p', s') \<Longrightarrow> arax_call env s s'"
| call_meta: "arax_vaccel_set_meta v mt s = Ok s' \<Longrightarrow> arax_call env s s'"
| call_proc_init: "arax_proc_init env pn s = Ok (p, s') \<Longrightarrow> arax_call env s s'"
| call_proc_register: "arax_proc_register env pn s = Ok (p, s') \<Longrightarrow> arax_call env s s'"
| call_proc_get: "arax_proc_get pn s = Ok (p, s') \<Longrightarrow> arax_call env s s'"
| call_proc_put: "arax_proc_put n env p s = Ok (r, s') \<Longrightarrow> arax_call env s s'"
| call_functor: "arax_proc_set_functor p ty f s = Ok (f', s') \<Longrightarrow> arax_call env s s'"
| call_data_init: "arax_data_init_aligned env sz al s = Ok (d, s') \<Longrightarrow> arax_call env s s'"
| call_data_init_1: "arax_data_init env sz s = Ok (d, s') \<Longrightarrow> arax_call env s s'"
| call_buffer: "ARAX_BUFFER env sz s = Ok (d, s') \<Longrightarrow> arax_call env s s'"
| call_data_ref_offset: "arax_data_ref_offset pipe d s = Ok (d', s') \<Longrightarrow> arax_call env s s'"
| call_data_modified: "arax_data_modified d wh s = Ok s' \<Longrightarrow> arax_call env s s'"
| call_data_free: "arax_data_free n env d s = Ok s' \<Longrightarrow> arax_call env s s'"
| call_data_migrate: "arax_data_migrate_accel n env d a s = Ok s' \<Longrightarrow> arax_call env s s'"
| call_data_arg_init: "arax_data_arg_init n env d a s = Ok s' \<Longrightarrow> arax_call env s s'"
| call_data_set_accel: "arax_data_set_accel d a s = Ok s' \<Longrightarrow> arax_call env s s'"
| call_data_set_remote: "arax_data_set_remote d a r s = Ok s' \<Longrightarrow> arax_call env s s'"
| call_data_annotate: "arax_data_annotate env d nm s = Ok s' \<Longrightarrow> arax_call env s s'"
| call_data_set: "arax_data_set n env d a bytes s = Ok s' \<Longrightarrow> arax_call env s s'"
| call_data_phys: "get_data d s = Ok da \<Longrightarrow> arax_call env s (set_body d (Data (da\<lparr>da_phys := p\<rparr>)) s)"
| call_data_remote: "get_data d s = Ok da \<Longrightarrow> arax_call env s (set_body d (Data (da\<lparr>remote := p\<rparr>)) s)"
| call_data_write: "arax_call env s (write_bytes b bytes s)"
| call_task_issue: "arax_task_issue n env a p hinit hs inp outp s = Ok (t, s') \<Longrightarrow> arax_call env s s'"
| call_host_data: "get_task t s = Ok ta \<Longrightarrow> arax_call env s (set_body t (Task (ta\<lparr>host_data := bytes\<rparr>)) s)"
| call_task_state: "get_task t s = Ok ta \<Longrightarrow> arax_call env s (set_body t (Task (ta\<lparr>ta_state := ts\<rparr>)) s)"
| call_task_submit: "arax_task_submit env t s = Ok s' \<Longrightarrow> arax_call env s s'"
| call_task_mark_done: "arax_task_mark_done t ts s = Ok s' \<Longrightarrow> arax_call env s s'"
| call_task_free: "arax_task_free n env t s = Ok s' \<Longrightarrow> arax_call env s s'"

text \<open>The calls that wait for the controller.\<close>

inductive waiting_call :: "arax_env \<Rightarrow> controller_fn \<Rightarrow> arax_pipe_s \<Rightarrow> arax_pipe_s \<Rightarrow> bool"
  for env :: arax_env and controller :: controller_fn where
  wait_task: "arax_task_wait controller t s = Ok (ts, s') \<Longrightarrow> waiting_call env controller s s'"
| wait_issue: "arax_task_issue_sync n env controller a p hinit hs inp outp s = Ok (ts, s') \<Longrightarrow> waiting_call env controller s s'"
| wait_get: "arax_data_get n env controller d s = Ok (bytes, s') \<Longrightarrow> waiting_call env controller s s'"
| wait_memcpy: "arax_data_memcpy n env controller a d1 d2 s = Ok s' \<Longrightarrow> waiting_call env controller s s'"
| wait_allocate: "arax_data_allocate_remote n env controller d a s = Ok s' \<Longrightarrow> waiting_call env controller s s'"

inductive arax_run :: "arax_env \<Rightarrow> arax_pipe_s \<Rightarrow> arax_pipe_s \<Rightarrow> bool" for env :: arax_env where
  run_start: "arax_run env s s"
| run_call: "arax_run env s s1 \<Longrightarrow> arax_call env s1 s' \<Longrightarrow> arax_run env s s'"
| run_wait: "arax_run env s s1 \<Longrightarrow> (\<forall>t s2 s3. controller t s2 = Ok s3 \<longrightarrow> arax_run env s2 s3) \<Longrightarrow>
    waiting_call env controller s1 s' \<Longrightarrow> arax_run env s s'"

section \<open>What runs keep\<close>

lemmas api_defs =
  arax_pipe_delete_accel_def arax_accel_release_def arax_proc_put_def arax_data_free_def arax_data_migrate_accel_def
  arax_data_arg_init_def arax_task_issue_def arax_task_issue_sync_def arax_task_free_def arax_data_get_def
  arax_data_set_def arax_data_memcpy_def arax_data_allocate_remote_def arax_accel_list_free_def

text \<open>A process that joins or leaves touches neither the objects nor the memory.\<close>

lemma attach_ok:
  assumes "arax_init_fn conf os env w st s = Ok (vp, st', s')" and "processes s \<noteq> 0 \<or> threads st \<noteq> 0"
  shows "objects s' = objects s \<and> throttle s' = throttle s \<and> allocator s' = allocator s \<and> lists s' = lists s \<and>
    (processes s \<noteq> 0 \<longrightarrow> processes s' \<noteq> 0 \<or> threads st' = 1)"
proof -
  have wait: "objects s2 = objects s1 \<and> throttle s2 = throttle s1 \<and> allocator s2 = allocator s1 \<and> lists s2 = lists s1 \<and>
      processes s2 = processes s1"
    if "wait_for_controller w s1 = Ok s2" for w s1 s2
    using that by (auto simp: wait_for_controller_def res_simps split: if_splits)
  have mmap: "objects s2 = objects s1 \<and> throttle s2 = throttle s1 \<and> allocator s2 = allocator s1 \<and> lists s2 = lists s1 \<and>
      processes s2 = processes s1 \<and> threads st2 = threads st1"
    if "map_segment os cf st1 s1 = Ok (st2, s2)" for cf st1 s1 st2 s2
    using that by (auto simp: map_segment_def res_simps init_fail_def Let_def arax_pipe_mmap_address_def arax_pipe_have_to_mmap_def
        split: if_splits prod.splits)
  have init: "objects s2 = objects s1 \<and> throttle s2 = throttle s1 \<and> allocator s2 = allocator s1 \<and> lists s2 = lists s1"
    if "arax_pipe_init env mem sz e s1 = Ok (p, s2)" "processes s1 \<noteq> 0" for mem sz e s1 p s2
    using that by (auto simp: arax_pipe_init_def arax_pipe_add_process_def arch_alloc_init_always_def Let_def split: if_splits)
  show ?thesis using assms
    by (auto simp: arax_init_fn_def res_simps init_fail_def Let_def split: if_splits option.splits
        dest!: wait mmap init)
qed

lemma leave_ok:
  assumes "arax_exit conf os env st s = Ok (st', s')" and "processes s \<noteq> 1"
  shows "objects s' = objects s \<and> throttle s' = throttle s \<and> allocator s' = allocator s \<and> lists s' = lists s"
  using assms by (auto simp: arax_exit_def arax_pipe_exit_def arax_pipe_del_process_def arax_pipe_mark_unmap_def res_simps Let_def
      split: if_splits prod.splits)

lemma ptr_valid_ok:
  assumes "arax_ptr_valid conf os env ptr st s = Ok (v, st', s')" and "processes s \<noteq> 0 \<or> threads st \<noteq> 0"
  shows "objects s' = objects s \<and> throttle s' = throttle s \<and> allocator s' = allocator s \<and> lists s' = lists s"
  using assms attach_ok by (auto simp: arax_ptr_valid_def arax_init_def res_simps)

text \<open>
  A property of the segment that tolerates the creation of objects, references and the drop of references,
  is kept by every run.
\<close>

locale stable_api = stable_env True P env for P :: "arax_pipe_s \<Rightarrow> bool" and env +
  assumes drop: "P s \<Longrightarrow> sound2 True P (arax_object_ref_dec fuel env a s)"
    and drop_pre_locked: "P s \<Longrightarrow> sound2 True P (arax_object_ref_dec_pre_locked fuel env a s)"

sublocale stable_api < ref: stable_ref True P env "arax_object_ref_dec fuel env" for fuel
  by unfold_locales (rule drop)

sublocale stable_api < pre: stable_drop True P "arax_object_ref_dec_pre_locked fuel env" for fuel
  by unfold_locales (rule drop_pre_locked)

context stable_api
begin

lemma accel_list_ok: "P s \<Longrightarrow> sound2 True P (arax_accel_list n env ty ph old s)"
  unfolding arax_accel_list_def arax_accel_list_free_pre_locked_def Let_def
  by (intro sound_intro stable_intro pre.ref_dec_all ref.collects; simp)

lemma metric_ok:
  assumes m: "arax_plot_register_metric conf os env nm m st s = Ok (m', st', s')" and "processes s \<noteq> 0" and ok: "P s"
  shows "P s'"
proof -
  have alloc: "P (s1\<lparr>allocator := al\<rparr>)"
    if "P s1" "arch_alloc_allocate (mspace env) (allocator s1) sz = Ok (p, al)" for s1 sz p al
    using malloc that by blast
  have alloc2: "P (s1\<lparr>allocator := al2\<rparr>)"
    if "P s1" "arch_alloc_allocate (mspace env) (allocator s1) sz = Ok (p, al)"
      "arch_alloc_allocate (mspace env) al sz2 = Ok (q, al2)" for s1 sz p al sz2 q al2
    using alloc [OF alloc [OF that(1,2)], of sz2 q al2] that(3) by simp
  from m obtain pipe st1 s1 where i: "arax_init conf os env st s = Ok (pipe, st1, s1)"
    by (auto simp: arax_plot_register_metric_def res_simps)
  note attach = attach_ok [OF i [unfolded arax_init_def]]
  then have ok1: "P s1" and pr: "processes s1 \<noteq> 0 \<or> threads st1 \<noteq> 0"
    using assms(2) frame [OF ok, of s1] by auto
  have pv: "P s2" if "arax_ptr_valid conf os env m st1 s1 = Ok (v, st2, s2)" for v st2 s2
    using ptr_valid_ok [OF that pr] frame [OF ok1, of s2] by blast
  show ?thesis using m i ok1
    by (auto simp: arax_plot_register_metric_def res_simps Let_def split: if_splits dest!: pv intro: alloc alloc2)
qed

lemmas keeps_rules =
  ref.ref_rules ref.ref_drops ref.ref_dec_all ref.migrates ref.io_inits ref.task_issue ref.data_set
  env_rules create_vaccel creates refs
  pipe_orphans pipe_finds accels vaccel_moves vaccel_tasks vaccel_fields procs datas task_marks accel_list_ok

lemma call_keeps:
  assumes "arax_call env s s'" and ok: "P s"
  shows "P s'"
  using assms(1)
proof cases
  case call_attach
  then show ?thesis using attach_ok frame ok by metis
next
  case call_leave
  then show ?thesis using leave_ok frame ok by metis
next
  case call_ptr_valid
  then show ?thesis using ptr_valid_ok frame ok by metis
next
  case call_metric
  then show ?thesis using metric_ok ok by metis
next
  case call_vaccel_pop
  then show ?thesis using ok by simp
next
  case call_data_phys
  then show ?thesis using ok by simp
next
  case call_data_remote
  then show ?thesis using ok by simp
next
  case call_task_state
  then show ?thesis using ok by simp
next
  case call_data_write
  then show ?thesis using ok by simp
next
  case call_host_data
  then show ?thesis using ok by simp
next
  case call_ready
  then show ?thesis using ok by (auto simp: arax_controller_init_done_def)
qed (unfold api_defs, (erule soundD [rotated], (rule keeps_rules), rule ok)+)

lemma waiting_keeps:
  assumes "waiting_call env controller s s'" and ok: "P s" and c: "\<And>t s s'. controller t s = Ok s' \<Longrightarrow> P s \<Longrightarrow> P s'"
  shows "P s'"
proof -
  have s: "sound True P (controller t s)" if "P s" for t s
    using c [of t s] that by (simp add: sound_def split: res.split)
  from assms(1) show ?thesis
    by cases (unfold api_defs, (erule soundD [rotated], rule task_waits ref.controlled ref.data_memcpy, erule s, rule ok)+)
qed

lemma run_keeps: "arax_run env s s' \<Longrightarrow> P s \<Longrightarrow> P s'"
proof (induction rule: arax_run.induct)
  case (run_call s s1 s')
  then show ?case using call_keeps by blast
next
  case (run_wait s s1 controller s')
  show ?case by (rule waiting_keeps [OF run_wait.hyps(2) run_wait.IH(1) [OF run_wait.prems]]) (use run_wait.IH(2) in blast)
qed

end

text \<open>The invariant of the segment is such a property.\<close>

interpretation seg_api: stable_api "seg_ok env exact {}" env for env exact
proof unfold_locales
  fix s fuel a
  assume s: "seg_ok env exact {} s"
  show "sound2 True (seg_ok env exact {}) (arax_object_ref_dec fuel env a s)" by (rule seg_ref.ref_dec [OF s])
  have "destroying env exact True {} {} 0 s" using s by (simp add: destroying_start)
  then have "sound2 True (destroying env exact True {} {} 0) (arax_object_ref_dec_pre_locked fuel env a s)"
    unfolding arax_object_ref_dec_pre_locked_def by (rule dying_ref_dec_pre_locked_with) (simp add: dying_ref_dec)
  then show "sound2 True (seg_ok env exact {}) (arax_object_ref_dec_pre_locked fuel env a s)"
    by (rule sound_mono(2)) (rule destroying_start(2))
qed

text \<open>So is a much weaker one: the capacity of the segment never changes.\<close>

definition has_capacity :: "u64 \<Rightarrow> arax_pipe_s \<Rightarrow> bool" where
  "has_capacity c s \<longleftrightarrow> capacity (throttle s) = c"

interpretation cap: stable f "has_capacity c" for f c
  by unfold_locales (auto simp: has_capacity_def)

lemma throttle_capacity:
  "arax_throttle_size_dec t sz = Ok t' \<Longrightarrow> capacity t' = capacity t"
  "arax_throttle_size_inc t sz = Ok t' \<Longrightarrow> capacity t' = capacity t"
  by (auto simp: arax_throttle_size_dec_def arax_throttle_size_inc_def res_simps Let_def split: if_splits)

lemma cap_register: "has_capacity c s \<Longrightarrow> sound2 True (has_capacity c) (arax_object_register env ty name sz refs s)"
  by (auto simp: sound2_def sound_def arax_object_register_def arax_pipe_size_dec_def arax_object_list_lock_def
      arax_object_list_unlock_def has_capacity_def res_simps Let_def dest: throttle_capacity split: res.split if_splits)

interpretation cap_env: stable_env True "has_capacity c" env for c env
proof unfold_locales
  fix s a nm sz
  assume s: "has_capacity c s"
  show "sound2 True (has_capacity c) (arax_object_register env ty nm sz 1 s)" for ty nm sz by (rule cap_register [OF s])
  show "sound True (has_capacity c) (arax_object_ref_inc a s)" "sound True (has_capacity c) (arax_object_rename env a nm s)"
    using s by (auto simp: sound_def arax_object_ref_inc_def arax_object_rename_def has_capacity_def res_simps split: res.split)
  show "fine True (arch_alloc_allocate (mspace env) (allocator s) sz) \<and>
      (\<forall>p al. arch_alloc_allocate (mspace env) (allocator s) sz = Ok (p, al) \<longrightarrow> has_capacity c (s\<lparr>allocator := al\<rparr>))"
    using s by (simp add: fine_def sound_def has_capacity_def split: res.split)
qed


lemma cap_reclaim:
  assumes "\<And>ty a s. has_capacity c s \<Longrightarrow> sound True (has_capacity c) (dt ty a s)" and "has_capacity c s"
  shows "sound True (has_capacity c) (object_reclaim env dt ty a s)"
proof -
  have "has_capacity c s2" if "arax_pipe_size_inc sz s1 = Ok s2" "has_capacity c s1" for sz s1 s2
    using that throttle_capacity(2) by (auto simp: arax_pipe_size_inc_def has_capacity_def res_simps)
  moreover have "has_capacity c s1" if "dt ty a s = Ok s1" for s1 using soundD(1) [OF assms(1) that] assms(2) .
  ultimately show ?thesis
    by (auto simp: sound_def object_reclaim_def res_simps split: res.split) (auto simp: has_capacity_def)
qed

lemma cap_ref_dec_with:
  assumes "\<And>ty a s. has_capacity c s \<Longrightarrow> sound True (has_capacity c) (dt ty a s)" and s: "has_capacity c s"
  shows "sound2 True (has_capacity c) (arax_object_ref_dec_with env dt a s)"
    and "sound2 True (has_capacity c) (arax_object_ref_dec_pre_locked_with env dt a s)"
proof -
  have set: "has_capacity c (set_obj a h s)" "has_capacity c (s\<lparr>lists := l\<rparr>)" if "has_capacity c s" for a h s l
    using that by (simp_all add: has_capacity_def)
  show "sound2 True (has_capacity c) (arax_object_ref_dec_with env dt a s)"
    unfolding arax_object_ref_dec_with_def Let_def
    by (intro sound_intro cap.bind_rules cap.locks cap_reclaim assms set; assumption?)
  show "sound2 True (has_capacity c) (arax_object_ref_dec_pre_locked_with env dt a s)"
    unfolding arax_object_ref_dec_pre_locked_with_def Let_def
    by (intro sound_intro cap.bind_rules cap_reclaim assms set; assumption?)
qed

lemma cap_dtor:
  assumes "\<And>a s. has_capacity c s \<Longrightarrow> sound2 True (has_capacity c) (rd a s)" and s: "has_capacity c s"
  shows "sound True (has_capacity c) (dtor_table env rd ty a s)"
proof -
  have r: "stable_ref True (has_capacity c) env rd" by unfold_locales (rule assms(1))
  then have d: "stable_drop True (has_capacity c) rd" by (simp add: stable_ref_def)
  have set: "has_capacity c (set_obj a h s)" if "has_capacity c s" for h s using that by (simp add: has_capacity_def)
  show ?thesis
  proof (cases ty)
    case ARAX_TYPE_DATA
    show ?thesis unfolding ARAX_TYPE_DATA dtor_table.simps dtor_arax_data_s_def Let_def
      by (intro sound_intro cap.bind_rules cap_env.refs stable_ref.task_issue [OF r] assms set; (assumption | simp)?)
  qed (simp_all add: stable_drop.dtors [OF d s] cap.vaccel_moves cap.procs s sound_Fault)
qed

lemma cap_ref_dec: "has_capacity c s \<Longrightarrow> sound2 True (has_capacity c) (arax_object_ref_dec n env a s)"
proof (induction n arbitrary: a s)
  case (Suc n)
  show ?case unfolding arax_object_ref_dec.simps by (intro cap_ref_dec_with cap_dtor Suc)
qed (simp add: sound2_def sound_def)

interpretation cap_api: stable_api "has_capacity c" env for c env
  by unfold_locales
    (simp_all add: cap_ref_dec arax_object_ref_dec_pre_locked_def cap_ref_dec_with cap_dtor)

section \<open>A run on the example segment\<close>

definition demo_boot :: arax_pipe_s where
  "demo_boot = (case arax_pipe_init demo_env 65536 65536 True (zero_pipe demo_env) of Ok (_, s) \<Rightarrow> s | Fault _ \<Rightarrow> zero_pipe demo_env)"

lemma demo_boot: "arax_pipe_init demo_env 65536 65536 True (zero_pipe demo_env) = Ok (65536, demo_boot)"
  using demo_init by (auto simp: demo_boot_def)

lemma demo_run: "arax_run demo_env demo_boot demo_segment"
proof -
  obtain s where s: "demo_calls = Ok (8192, s)" using demo_calls_ok by blast
  then obtain p s1 where 1: "arax_proc_init demo_env ''noop'' demo_boot = Ok (p, s1)" and 2: "arax_data_init demo_env 100 s1 = Ok (8192, s)"
    by (auto simp: demo_calls_def demo_boot res_simps)
  have "arax_run demo_env demo_boot s"
    by (rule run_call [OF run_call [OF run_start]], rule call_proc_init [OF 1], rule call_data_init_1 [OF 2])
  then show ?thesis unfolding demo_segment_def s by simp
qed

end
