(* ===== verification/Lifetime.thy ===== *)
theory Lifetime
  imports Api
begin

text \<open>
  What the invariant of theory \<open>Invariant\<close> and \<open>run_keeps\<close> of theory \<open>Api\<close> say of a segment after any calls: the state of
  its objects, the lengths of the lists, the memory that is available, and what the last reference to
  an object leaves behind. The properties of the whole library in theory \<open>Spec2Isabelle\<close> rest on these lemmas.
\<close>

section \<open>From the invariant to the state\<close>

lemma run_from_boot:
  assumes "arax_pipe_init env mem sz e (zero_pipe env) = Ok (p, s0)" and "arax_run env s0 s"
    and "mspace_ok (mspace env)" and "exact \<longrightarrow> mspace_never_null (mspace env)"
  shows "seg_ok env exact {} s" and "capacity (throttle s) = sz - sizeof_pipe env"
proof -
  show "seg_ok env exact {} s" by (rule seg_api.run_keeps [OF assms(2) pipe_init_ok [OF assms(1,3,4)]])
  have "has_capacity (sz - sizeof_pipe env) s0" using pipe_init_fresh [OF assms(1)] by (simp add: has_capacity_def)
  then have "has_capacity (sz - sizeof_pipe env) s" by (rule cap_api.run_keeps [OF assms(2)])
  then show "capacity (throttle s) = sz - sizeof_pipe env" by (simp add: has_capacity_def)
qed

lemma live_objects:
  assumes "seg_ok env exact {} s" and "objects s a = Some (h, b)"
  shows "ref_count h \<noteq> 0" and "ob_type h = body_type b" and "ob_type h \<noteq> ARAX_TYPE_COUNT" and "a \<noteq> 0"
  using seg_inv_typeD [of exact "{}" s a h b] assms by (auto simp: seg_ok_def)

lemma of_type_live:
  assumes "seg_ok env exact {} s"
  shows "of_type {} s ty = {a. \<exists>h b. objects s a = Some (h, b) \<and> ob_type h = ty}"
  using live_objects(2) [OF assms] by (auto simp: of_type_def)

text \<open>The lengths of the lists add up to the number of live objects.\<close>

lemma repo_lengths:
  assumes ok: "seg_ok env exact {} s"
  shows "(\<Sum>ty\<leftarrow>object_types. unat (ls_length (lists s) (Repo_head ty))) = card (dom (objects s))"
proof -
  have inv: "seg_inv exact {} s" using ok by (simp add: seg_ok_def)
  then obtain R where R: "repo_rep {} s R" by (auto simp: seg_inv_def)
  have len: "unat (ls_length (lists s) (Repo_head ty)) = card (of_type {} s ty)" if "ty \<noteq> ARAX_TYPE_COUNT" for ty
  proof -
    have "list_rep (lists s) (Repo_head ty) (map Obj_node (R ty))" "distinct (R ty)" using repo_rep_list [OF R that] .
    moreover have "length (R ty) < size_max" using R that lists_repD(2) [of "lists s" "repo_family R" "Repo_head ty"]
      by (auto simp: repo_rep_def repo_family_def)
    moreover have "set (R ty) = of_type {} s ty" using R that by (simp add: repo_rep_def)
    ultimately show ?thesis using distinct_card [of "R ty"] by (simp add: list_rep_def unat_of_nat size_max_def)
  qed
  have dom: "dom (objects s) = (\<Union>ty\<in>set object_types. of_type {} s ty)"
    by (auto simp: of_type_def object_types_def) (metis body_type.elims)
  have "card (dom (objects s)) = (\<Sum>ty\<in>set object_types. card (of_type {} s ty))" unfolding dom
    using seg_inv_finite [OF inv] by (intro card_UN_disjoint) (auto simp: of_type_def object_types_def intro: finite_subset)
  also have "\<dots> = (\<Sum>ty\<leftarrow>object_types. card (of_type {} s ty))" by (subst sum_list_distinct_conv_sum_set) (simp_all add: object_types_def)
  also have "\<dots> = (\<Sum>ty\<leftarrow>object_types. unat (ls_length (lists s) (Repo_head ty)))"
    by (intro arg_cong [where f = sum_list] map_cong refl) (auto simp: len object_types_def)
  finally show ?thesis by simp
qed

text \<open>Objects that hold no references: procedures, and data without a remote copy or an accelerator.\<close>

definition plain_body :: "arax_body \<Rightarrow> bool" where
  "plain_body b = (case b of Proc _ \<Rightarrow> True | Data d \<Rightarrow> remote d = 0 \<and> da_accel d = 0 | _ \<Rightarrow> False)"

lemma plain_dtor:
  assumes "objects s a = Some (h, b)" and "plain_body b"
  shows "\<exists>h'. alloc_size h' = alloc_size h \<and> (\<forall>rd. dtor_table env rd (body_type b) a s = Ok (set_obj a h' s))"
proof (cases b)
  case (Proc p)
  have "set_obj a h s = s" using assms(1) by (cases s) (simp add: set_obj_def fun_upd_idem)
  then show ?thesis using Proc by (intro exI [of _ h]) (simp add: dtor_arax_proc_s_def)
next
  case (Data d)
  then show ?thesis using assms
    by (intro exI [of _ "h\<lparr>ob_type := ARAX_TYPE_COUNT\<rparr>"]) (simp add: plain_body_def dtor_arax_data_s_def get_data_def get_obj_def)
qed (use assms(2) in \<open>auto simp: plain_body_def\<close>)

text \<open>The last reference to such an object goes through, and this is what is left.\<close>

lemma last_ref_plain:
  assumes ok: "seg_ok env exact {} s" and o: "objects s a = Some (h, b)" and "ref_count h = 1" and "plain_body b"
    and "repo_lock s (ob_type h) = 0" and free: "mspace_free (mspace env) (allocator s) a = Ok al"
  shows "arax_object_ref_dec (Suc n) env a s = Ok (0, s\<lparr>objects := (objects s)(a := None), allocator := al,
    lists := utils_list_del (lists s) (Repo_head (ob_type h)) (Obj_node a),
    throttle := (throttle s)\<lparr>available := available (throttle s) + alloc_size h\<rparr>\<rparr>)"
proof -
  let ?l = "utils_list_del (lists s) (Repo_head (ob_type h)) (Obj_node a)"
  let ?s = "set_obj a (h\<lparr>ref_count := 0\<rparr>) (s\<lparr>lists := ?l\<rparr>)"
  note live = live_objects [OF ok o]
  have lock: "(repo_lock s)(ob_type h := 0) = repo_lock s" using assms(5) by auto
  have "memory_inv exact s" using ok by (simp add: seg_ok_def seg_inv_def)
  moreover have "object_size s a \<le> (\<Sum>a\<in>dom (objects s). object_size s a)"
    using ok o seg_inv_finite by (intro member_le_sum) (auto simp: seg_ok_def)
  ultimately have "throttle_inv (throttle s)" "unat (available (throttle s)) + unat (alloc_size h) \<le> unat (capacity (throttle s))"
    using o by (auto simp: memory_inv_def space_def object_size_def)
  note inc = throttle_inc_ok(1) [OF this]
  have "objects ?s a = Some (h\<lparr>ref_count := 0\<rparr>, b)" using o by (simp add: set_obj_def)
  from plain_dtor [OF this assms(4)] obtain h' where
    d: "\<And>rd. dtor_table env rd (ob_type h) a ?s = Ok (set_obj a h' ?s)" "alloc_size h' = alloc_size h"
    using live(2) by auto
  have "object_reclaim env (dtor_table env rd) (ob_type h) a ?s = Ok (s\<lparr>objects := (objects s)(a := None), allocator := al,
      lists := ?l, throttle := (throttle s)\<lparr>available := available (throttle s) + alloc_size h\<rparr>\<rparr>)" for rd
    using d o free inc by (cases s) (simp add: object_reclaim_def get_obj_def set_obj_def arch_alloc_free_def arch_alloc_free_fn_def
        arax_pipe_size_inc_def)
  then show ?thesis using live o assms(3,5) lock
    by (cases s) (simp add: arax_object_ref_dec_with_def get_obj_def arax_object_list_lock_def arax_object_list_unlock_def set_obj_def Let_def)
qed

text \<open>The available memory says whether an object of positive size is live.\<close>

lemma available_iff:
  assumes "seg_ok env True {} s"
  shows "available (throttle s) = capacity (throttle s) \<longleftrightarrow> (\<forall>a\<in>dom (objects s). object_size s a = 0)"
proof -
  have fin: "finite (dom (objects s))" using assms seg_inv_finite by (auto simp: seg_ok_def)
  have "unat (available (throttle s)) + (\<Sum>a\<in>dom (objects s). object_size s a) = unat (capacity (throttle s))"
    using assms by (simp add: seg_ok_def seg_inv_def memory_inv_def space_def)
  then have "available (throttle s) = capacity (throttle s) \<longleftrightarrow> (\<Sum>a\<in>dom (objects s). object_size s a) = 0"
    by (metis add_cancel_right_right word_unat_eq_iff)
  then show ?thesis using fin by simp
qed

text \<open>The two objects of the example segment released again.\<close>

lemma demo_release:
  "\<exists>s1 s2. arax_object_ref_dec 1 demo_env 4096 demo_segment = Ok (0, s1) \<and> arax_object_ref_dec 1 demo_env 8192 s1 = Ok (0, s2) \<and>
    objects s2 = Map.empty \<and> processes s2 = 1"
proof -
  have free: "\<exists>al'. mspace_free (mspace demo_env) al x = Ok al'" for al x by (simp add: demo_env_def demo_mspace_def)
  obtain al where "mspace_free (mspace demo_env) (allocator demo_segment) 4096 = Ok al" using free by blast
  from last_ref_plain [OF demo_segment_ok _ _ _ _ this, where n = 0] obtain s1 where
    s1: "arax_object_ref_dec 1 demo_env 4096 demo_segment = Ok (0, s1)" "objects s1 = [8192 \<mapsto> demo_data]" "repo_lock s1 = (\<lambda>_. 0)"
      "processes s1 = 1"
    by (auto simp: demo_segment_state demo_proc_def plain_body_def fun_upd_twist)
  have ok1: "seg_ok demo_env False {} s1" by (rule soundD(2) [OF seg_ref.ref_dec [OF demo_segment_ok] s1(1)])
  obtain al' where "mspace_free (mspace demo_env) (allocator s1) 8192 = Ok al'" using free by blast
  from last_ref_plain [OF ok1 _ _ _ _ this, where n = 0] s1(2-4) obtain s2 where
    "arax_object_ref_dec 1 demo_env 8192 s1 = Ok (0, s2)" "objects s2 = Map.empty" "processes s2 = 1"
    by (auto simp: demo_data_def plain_body_def)
  with s1(1) show ?thesis by blast
qed

end
