(* ===== verification/Buffers.thy ===== *)
theory Buffers
  imports Lifetime
begin

text \<open>
  Data buffers (\<open>src/core/arax_data.c\<close>): where the bytes of a buffer lie in the block of its object, and the way
  from the bytes back to the object.
\<close>

section \<open>Alignment\<close>

lemma data_buffer_nat:
  assumes "unat d + unat (sizeof_data env) + 8 + unat al < 2 ^ 64" and "al \<noteq> 0"
  shows "unat (data_buffer env d al) mod unat al = 0"
    and "unat d + unat (sizeof_data env) + 8 < unat (data_buffer env d al)"
    and "unat (data_buffer env d al) \<le> unat d + unat (sizeof_data env) + 8 + unat al"
proof -
  let ?b = "unat d + unat (sizeof_data env) + 8" and ?a = "unat al"
  have b: "unat (d + sizeof_data env + 8) = ?b" using assms(1) by (simp add: unat_word_ariths)
  have "unat (d + sizeof_data env + 8 + al) = ?b + ?a" using assms(1) by (subst unat_add_lem [THEN iffD1]) (simp_all add: b)
  moreover have a: "0 < ?a" using assms(2) by (simp add: unat_gt_0)
  moreover have "unat ((d + sizeof_data env + 8) mod al) = ?b mod ?a" by (simp add: unat_mod_distrib b)
  ultimately have u: "unat (data_buffer env d al) = ?b + ?a - ?b mod ?a"
    unfolding data_buffer_def Let_def
    by (subst unat_sub) (simp_all add: word_le_nat_alt trans_le_add1)
  have "?b + ?a - ?b mod ?a = (?b div ?a + 1) * ?a" using div_mult_mod_eq [of ?b ?a] by (simp only: distrib_right)
  then show "unat (data_buffer env d al) mod ?a = 0" using u by simp
  show "?b < unat (data_buffer env d al)" "unat (data_buffer env d al) \<le> ?b + ?a" using u a mod_less_divisor [OF a, of ?b] by linarith+
qed

lemma data_init_result:
  assumes "arax_data_init_aligned env sz al s = Ok (d, s')" and "d \<noteq> 0"
  shows "al \<noteq> 0 \<and> (\<exists>h dd. objects s' d = Some (h, Data dd) \<and> alloc_size h = sizeof_data env + ARAX_BUFF_ALLOC_SIZE sz al \<and>
    ob_type h = ARAX_TYPE_DATA \<and> da_size dd = sz \<and> buffer dd = data_buffer env d al) \<and> back_pointers s' (data_buffer env d al) = d"
  using assms
  by (auto simp: arax_data_init_aligned_def arax_object_register_def Let_def res_simps mod_data_def set_body_def
      arax_object_list_lock_def arax_object_list_unlock_def split: if_splits prod.splits)

text \<open>The first buffer of the example segment.\<close>

lemma demo_first_data:
  assumes "al \<noteq> 0" and "sizeof_data demo_env + ARAX_BUFF_ALLOC_SIZE sz al \<le> 65280"
  shows "\<exists>s'. arax_data_init_aligned demo_env sz al demo_boot = Ok (4096, s') \<and> shm_size s' = 65536"
proof -
  note f = pipe_init_fresh [OF demo_boot]
  have root: "al_root (allocator demo_boot) = []" using demo_init demo_boot by auto
  let ?sz = "sizeof_data demo_env + ARAX_BUFF_ALLOC_SIZE sz al"
  have m: "mspace_malloc (mspace demo_env) (allocator demo_boot) ?sz = Ok (4096, (allocator demo_boot)\<lparr>al_root := [M_malloc ?sz 4096]\<rparr>)"
    by (simp add: demo_env_def demo_mspace_def demo_malloc_def root)
  have "sizeof_pipe demo_env = 256" by (simp add: demo_env_def)
  then have "throttle_inv (throttle demo_boot)" "?sz \<le> available (throttle demo_boot)" "repo_lock demo_boot ARAX_TYPE_DATA = 0"
    using f assms(2) by (simp_all add: throttle_inv_def)
  from register_Ok [OF this m] f assms(1) show ?thesis
    unfolding arax_data_init_aligned_def Let_def by (simp add: mod_data_def get_data_def set_body_def)
qed

section \<open>The properties\<close>

text \<open>C10. The bytes of a buffer, and the pointer back to its object in front of them, lie inside the block
  that the object was given, behind the structure, and the buffer has the alignment that was asked for, as long
  as such a block fits the address space.\<close>

theorem data_buffer_in_block:
  assumes "arax_data_init_aligned env sz al s = Ok (d, s')" and "d \<noteq> 0"
    and "unat d + unat (sizeof_data env) + unat sz + unat al + 8 < 2 ^ 64"
  shows "\<exists>h dd. objects s' d = Some (h, Data dd) \<and> da_size dd = sz \<and> unat (buffer dd) mod unat al = 0 \<and>
    unat d + unat (sizeof_data env) \<le> unat (buffer dd) - 8 \<and> 8 \<le> unat (buffer dd) \<and>
    unat (buffer dd) + unat (da_size dd) \<le> unat d + unat (alloc_size h)"
proof -
  from data_init_result [OF assms(1,2)] obtain h dd where
    r: "al \<noteq> 0" "objects s' d = Some (h, Data dd)" "alloc_size h = sizeof_data env + ARAX_BUFF_ALLOC_SIZE sz al" "da_size dd = sz"
      "buffer dd = data_buffer env d al" by blast
  have "unat (alloc_size h) = unat (sizeof_data env) + unat sz + unat al + 8"
    using assms(3) by (simp add: r(3) ARAX_BUFF_ALLOC_SIZE_def unat_word_ariths)
  with data_buffer_nat [OF _ r(1), of d env] assms(3) r show ?thesis by (intro exI [of _ h] exI [of _ dd]) simp
qed

theorem data_buffer_in_block_witness:
  "\<exists>s' h dd. arax_data_init_aligned demo_env 1000 64 demo_boot = Ok (4096, s') \<and> objects s' 4096 = Some (h, Data dd) \<and>
     unat (buffer dd) mod 64 = 0 \<and> unat (buffer dd) + 1000 \<le> 4096 + unat (alloc_size h)"
proof -
  obtain s' where s: "arax_data_init_aligned demo_env 1000 64 demo_boot = Ok (4096, s')"
    using demo_first_data [of 64 1000] by (auto simp: ARAX_BUFF_ALLOC_SIZE_def demo_env_def)
  from data_buffer_in_block [OF s] obtain h dd where "objects s' 4096 = Some (h, Data dd)" "da_size dd = 1000"
    "unat (buffer dd) mod 64 = 0" "unat (buffer dd) + unat (da_size dd) \<le> 4096 + unat (alloc_size h)"
    by (auto simp: demo_env_def)
  with s show ?thesis by (intro exI conjI) simp_all
qed



text \<open>The size of the block is computed without a test for overflow: a buffer of the largest size is
  created in a block of no more than the structure and eight bytes, and claims to have all its bytes.\<close>

theorem data_size_wraps:
  assumes "arax_data_init env (- 1) s = Ok (d, s')" and "d \<noteq> 0"
  shows "arax_data_size d s' = Ok (- 1) \<and> (\<exists>h b. objects s' d = Some (h, b) \<and> alloc_size h = sizeof_data env + 8)"
proof -
  from data_init_result [OF assms(1) [unfolded arax_data_init_def] assms(2)] obtain h dd where
    "objects s' d = Some (h, Data dd)" "alloc_size h = sizeof_data env + ARAX_BUFF_ALLOC_SIZE (- 1) 1" "da_size dd = - 1" by blast
  then show ?thesis by (simp add: arax_data_size_def get_data_def ARAX_BUFF_ALLOC_SIZE_def)
qed

theorem data_size_wraps_witness:
  "\<exists>s'. arax_data_init demo_env (- 1) demo_boot = Ok (4096, s') \<and> arax_data_size 4096 s' = Ok (- 1) \<and>
     (\<exists>h b. objects s' 4096 = Some (h, b) \<and> alloc_size h = 136)"
proof -
  obtain s' where s: "arax_data_init demo_env (- 1) demo_boot = Ok (4096, s')"
    using demo_first_data [of 1 "- 1"] by (auto simp: ARAX_BUFF_ALLOC_SIZE_def demo_env_def arax_data_init_def)
  from data_size_wraps [OF s] s show ?thesis by (auto simp: demo_env_def)
qed

end
