(* ===== verification/Directory.thy ===== *)
theory Directory
  imports Buffers
begin

text \<open>
  Finding objects in the repository: procedures by name, accelerators by name and type, and the list of
  accelerators. The locale \<open>directory\<close> is the interface to the repository that the searches rely on: the list of
  the type can be locked and walked, and shows the live objects of the type.
\<close>

lemma find_first_find:
  "(\<And>a. a \<in> set as \<Longrightarrow> p a = Ok (q a)) \<Longrightarrow> find_first p as = Ok (case find q as of None \<Rightarrow> 0 | Some a \<Rightarrow> a)"
  by (induction as) auto

text \<open>A search for the first member of a list with a property, null when there is none.\<close>

lemma find_member:
  assumes "0 \<notin> set as" and "r = (case find q as of None \<Rightarrow> 0 | Some a \<Rightarrow> a)"
  shows "if r = 0 then \<forall>a\<in>set as. \<not> q a else r \<in> set as \<and> q r"
  using assms by (auto simp: find_None_iff find_Some_iff split: option.splits) (metis nth_mem)+

lemma relock:
  "repo_lock s ty = 0 \<Longrightarrow> arax_object_list_lock ty s = Ok (s\<lparr>repo_lock := (repo_lock s)(ty := 1)\<rparr>)"
  "repo_lock s ty = 0 \<Longrightarrow> arax_object_list_unlock ty (s\<lparr>repo_lock := (repo_lock s)(ty := 1)\<rparr>) = Ok s"
  by (cases s; simp add: arax_object_list_lock_def arax_object_list_unlock_def fun_upd_idem)+

text \<open>The accelerators of a type on a list, with one more reference to each of them if they are wanted.\<close>

definition accel_fits :: "arax_accel_type_e \<Rightarrow> arax_pipe_s \<Rightarrow> addr \<Rightarrow> bool" where
  "accel_fits ty s a \<longleftrightarrow> ty = ANY \<or> accel_type_field a s = Ok ty"

definition ref_objects :: "addr set \<Rightarrow> (addr \<rightharpoonup> arax_object_s \<times> arax_body) \<Rightarrow> addr \<rightharpoonup> arax_object_s \<times> arax_body" where
  "ref_objects A m a = (if a \<in> A then map_option (\<lambda>(h, b). (h\<lparr>ref_count := ref_count h + 1\<rparr>, b)) (m a) else m a)"

definition ref_all :: "addr set \<Rightarrow> arax_pipe_s \<Rightarrow> arax_pipe_s" where
  "ref_all A s = s\<lparr>objects := ref_objects A (objects s)\<rparr>"

lemma ref_all_empty: "ref_all {} s = s"
proof -
  have "ref_objects {} (objects s) = objects s" by (simp add: ref_objects_def fun_eq_iff)
  then show ?thesis by (cases s) (simp add: ref_all_def)
qed

lemma ref_all_lock: "ref_all A (s\<lparr>repo_lock := l\<rparr>) = (ref_all A s)\<lparr>repo_lock := l\<rparr>" "repo_lock (ref_all A s) = repo_lock s"
  by (simp_all add: ref_all_def)

lemma ref_all_insert:
  assumes "a \<notin> A" and "objects s a = Some (h, b)"
  shows "ref_all A (set_obj a (h\<lparr>ref_count := ref_count h + 1\<rparr>) s) = ref_all (insert a A) s"
proof -
  have "ref_objects A ((objects s)(a \<mapsto> (h\<lparr>ref_count := ref_count h + 1\<rparr>, b))) = ref_objects (insert a A) (objects s)"
    using assms by (simp add: ref_objects_def fun_eq_iff)
  then show ?thesis using assms(2) by (simp add: ref_all_def set_obj_def)
qed

lemma accel_type_field_set_obj: "accel_type_field x (set_obj a h s) = accel_type_field x s"
  by (auto simp: accel_type_field_def set_obj_def split: option.split prod.split)

lemma accel_collect_filter:
  assumes "distinct as" and "\<And>a. a \<in> set as \<Longrightarrow> a \<noteq> 0 \<and> (\<exists>h b t. objects s a = Some (h, b) \<and> accel_type_field a s = Ok t \<and>
      ob_type h \<noteq> ARAX_TYPE_COUNT \<and> (want \<longrightarrow> 0 \<le> sint (ref_count h)))"
  shows "accel_collect ty want as s = Ok (filter (accel_fits ty s) as, if want then ref_all (set (filter (accel_fits ty s) as)) s else s)"
  using assms
proof (induction as arbitrary: s)
  case Nil
  then show ?case by (simp add: ref_all_empty)
next
  case (Cons a as)
  from Cons.prems(2) [of a] obtain h b t where
    a: "a \<noteq> 0" "objects s a = Some (h, b)" "accel_type_field a s = Ok t" "ob_type h \<noteq> ARAX_TYPE_COUNT" "want \<Longrightarrow> 0 \<le> sint (ref_count h)" by auto
  let ?s = "set_obj a (h\<lparr>ref_count := ref_count h + 1\<rparr>) s"
  have IH: "accel_collect ty want as s' = Ok (filter (accel_fits ty s') as, if want then ref_all (set (filter (accel_fits ty s') as)) s' else s')"
    if "s' = s \<or> s' = ?s" for s'
  proof (rule Cons.IH)
    fix x
    assume x: "x \<in> set as"
    then have "x \<noteq> a" using Cons.prems(1) by auto
    then have "objects ?s x = objects s x" by (simp add: set_obj_def)
    with that Cons.prems(2) [of x] x show "x \<noteq> 0 \<and> (\<exists>h b t. objects s' x = Some (h, b) \<and> accel_type_field x s' = Ok t \<and>
      ob_type h \<noteq> ARAX_TYPE_COUNT \<and> (want \<longrightarrow> 0 \<le> sint (ref_count h)))" by (auto simp: accel_type_field_set_obj)
  qed (use Cons.prems(1) in simp)
  have fits: "accel_fits ty ?s = accel_fits ty s" by (simp add: accel_fits_def accel_type_field_set_obj fun_eq_iff)
  have inc: "arax_object_ref_inc a s = Ok ?s" if want using a that by (simp add: arax_object_ref_inc_def get_obj_def)
  have out: "a \<notin> set (filter (accel_fits ty s) as)" using Cons.prems(1) by simp
  have "accel_fits ty s a \<longleftrightarrow> ty = ANY \<or> t = ty" using a(3) by (simp add: accel_fits_def)
  then show ?case using a(3) inc IH [of s] IH [of ?s] fits ref_all_insert [OF out a(2)] by auto
qed

locale directory =
  fixes P :: "arax_pipe_s \<Rightarrow> bool"
  assumes walk: "P s \<Longrightarrow> ty \<noteq> ARAX_TYPE_COUNT \<Longrightarrow> \<exists>as. repo_objects ty s = Ok as \<and> distinct as \<and>
      set as = {a. \<exists>h b. objects s a = Some (h, b) \<and> ob_type h = ty}"
    and bodies: "P s \<Longrightarrow> objects s a = Some (h, b) \<Longrightarrow> a \<noteq> 0 \<and> ob_type h = body_type b"
begin

text \<open>A search under the lock, with a test that looks at objects only.\<close>

lemma search:
  assumes "P s" and "ty \<noteq> ARAX_TYPE_COUNT" and "repo_lock s ty = 0"
    and test: "\<And>a h b. objects s a = Some (h, b) \<Longrightarrow> ob_type h = ty \<Longrightarrow>
      test a (s\<lparr>repo_lock := (repo_lock s)(ty := 1)\<rparr>) = Ok (q a)"
  shows "\<exists>r. rbind (arax_object_list_lock ty s) (\<lambda>s. rbind (repo_objects ty s) (\<lambda>as. rbind (find_first (\<lambda>a. test a s) as) (\<lambda>r.
      rbind (arax_object_list_unlock ty s) (\<lambda>s. Ok (r, s))))) = Ok (r, s) \<and>
    (if r = 0 then \<forall>a h b. objects s a = Some (h, b) \<and> ob_type h = ty \<longrightarrow> \<not> q a
     else (\<exists>h b. objects s r = Some (h, b) \<and> ob_type h = ty \<and> body_type b = ty) \<and> q r)"
proof -
  obtain as where as: "repo_objects ty s = Ok as" "set as = {a. \<exists>h b. objects s a = Some (h, b) \<and> ob_type h = ty}"
    using walk [OF assms(1,2)] by blast
  let ?r = "case find q as of None \<Rightarrow> 0 | Some a \<Rightarrow> a" and ?s = "s\<lparr>repo_lock := (repo_lock s)(ty := 1)\<rparr>"
  have "find_first (\<lambda>a. test a ?s) as = Ok ?r" using as(2) test by (intro find_first_find) auto
  moreover have "0 \<notin> set as" using as(2) bodies [OF assms(1), of 0] by auto
  from find_member [OF this refl, of q] have "if ?r = 0 then \<forall>a\<in>set as. \<not> q a else ?r \<in> set as \<and> q ?r" .
  ultimately show ?thesis using as relock [OF assms(3)] repo_objects_cong [of ?s s ty] bodies [OF assms(1)]
    by (intro exI [of _ ?r]) (auto split: if_splits)
qed

lemma find_proc:
  assumes "P s" and "repo_lock s ARAX_TYPE_PROC = 0"
  shows "\<exists>p. arax_pipe_find_proc name s = Ok (p, s) \<and>
    (if p = 0 then \<forall>a h b. objects s a = Some (h, b) \<and> ob_type h = ARAX_TYPE_PROC \<longrightarrow> ob_name h \<noteq> name
     else \<exists>h b. objects s p = Some (h, b) \<and> ob_type h = ARAX_TYPE_PROC \<and> ob_name h = name)"
  using search [OF assms(1) _ assms(2), where test = "\<lambda>a s. rbind (get_obj a s) (\<lambda>h. Ok (name = ob_name h))"
      and q = "\<lambda>a. name = ob_name (fst (the (objects s a)))"]
  unfolding arax_pipe_find_proc_def by (force simp: get_obj_def split: if_splits)

lemma find_accel:
  assumes "P s" and "repo_lock s ARAX_TYPE_PHYS_ACCEL = 0"
  shows "\<exists>r. arax_pipe_find_accel name ty s = Ok (r, s) \<and>
    (let fits = (\<lambda>a. \<exists>h x. objects s a = Some (h, Accel x) \<and> (ty = ANY \<or> ac_type x = ty) \<and> (name = None \<or> name = Some (ob_name h)))
     in if r = 0 then \<forall>a. \<not> fits a else fits r)"
proof -
  let ?q = "\<lambda>a. \<exists>h x. objects s a = Some (h, Accel x) \<and> (ty = ANY \<or> ac_type x = ty) \<and> (name = None \<or> name = Some (ob_name h))"
  have accel: "\<exists>x. b = Accel x" if "objects s a = Some (h, b)" "ob_type h = ARAX_TYPE_PHYS_ACCEL" for a h b
    using bodies [OF assms(1) that(1)] that(2) by (cases b) auto
  have phys: "ob_type h = ARAX_TYPE_PHYS_ACCEL" if "objects s a = Some (h, Accel x)" for a h x
    using bodies [OF assms(1) that] by simp
  from search [OF assms(1) _ assms(2), where q = ?q and test = "\<lambda>a s. rbind (get_accel a s) (\<lambda>ac. rbind (get_obj a s) (\<lambda>h.
         Ok (\<not> (ty \<noteq> ANY \<and> ty \<noteq> ac_type ac) \<and> (name = None \<or> name = Some (ob_name h)))))"]
  obtain r where "arax_pipe_find_accel name ty s = Ok (r, s)"
    "if r = 0 then \<forall>a h b. objects s a = Some (h, b) \<and> ob_type h = ARAX_TYPE_PHYS_ACCEL \<longrightarrow> \<not> ?q a else ?q r"
    unfolding arax_pipe_find_accel_def by (force simp: get_obj_def get_accel_def dest: accel split: if_splits)
  then show ?thesis unfolding Let_def using phys by (intro exI [of _ r]) (metis (no_types, lifting))
qed

end

interpretation dir: directory "seg_ok env exact {}" for env exact
proof
  fix s ty
  assume ok: "seg_ok env exact {} s" and "ty \<noteq> ARAX_TYPE_COUNT"
  then show "\<exists>as. repo_objects ty s = Ok as \<and> distinct as \<and> set as = {a. \<exists>h b. objects s a = Some (h, b) \<and> ob_type h = ty}"
    using repo_objects_inv [of exact "{}" s ty] unfolding of_type_live [OF ok] by (auto simp: seg_ok_def)
qed (auto dest: live_objects)

section \<open>A virtual accelerator\<close>

text \<open>The example segment with one virtual accelerator instead.\<close>

definition demo_vaccel :: "arax_object_s \<times> arax_body" where
  "demo_vaccel = (\<lparr>alloc_size = 512, ob_type = ARAX_TYPE_VIRT_ACCEL, ref_count = 1, ob_name = ''FILL''\<rparr>,
     Vaccel \<lparr>va_type = GPU, ordering = SEQUENTIAL, va_lock = 0, cid = -1, priority = -1, va_phys = 0, meta = 0,
       va_queue = \<lparr>q_entries = replicate 8 0, q_lock = 0, q_bottom = 0, q_top = 0\<rparr>\<rparr>)"

lemma demo_acquire:
  "\<exists>s. arax_accel_acquire_type demo_env GPU demo_boot = Ok (4096, s) \<and> objects s = [4096 \<mapsto> demo_vaccel] \<and> repo_lock s = (\<lambda>_. 0) \<and>
    throttle s = \<lparr>available = 64768, capacity = 65280, ready = cond_free\<rparr> \<and> seg_ok demo_env exact {} s"
proof -
  note f = pipe_init_fresh [OF demo_boot]
  have root: "al_root (allocator demo_boot) = []" using demo_init demo_boot by auto
  have m: "mspace_malloc (mspace demo_env) (allocator demo_boot) 512 = Ok (4096, (allocator demo_boot)\<lparr>al_root := [M_malloc 512 4096]\<rparr>)"
    by (simp add: demo_env_def demo_mspace_def demo_malloc_def root)
  have c: "sizeof_pipe demo_env = 256" "sizeof_vaccel demo_env = 512" "queue_capacity demo_env = 8" "object_name_size demo_env = 32"
    by (simp_all add: demo_env_def)
  have "throttle_inv (throttle demo_boot)" "512 \<le> available (throttle demo_boot)" "repo_lock demo_boot ARAX_TYPE_VIRT_ACCEL = 0"
    using f c by (simp_all add: throttle_inv_def)
  note reg = register_Ok [OF this m, of "''FILL''" 1]
  have q: "utils_queue_init 8 = Ok \<lparr>q_entries = replicate 8 0, q_lock = 0, q_bottom = 0, q_top = 0\<rparr>"
    by (simp add: utils_queue_init_def utils_spinlock_init_def)
  have "\<exists>s. arax_accel_acquire_type demo_env GPU demo_boot = Ok (4096, s) \<and> objects s = [4096 \<mapsto> demo_vaccel] \<and> repo_lock s = (\<lambda>_. 0) \<and>
    throttle s = \<lparr>available = 64768, capacity = 65280, ready = cond_free\<rparr>"
    using f c unfolding arax_accel_acquire_type_def arax_vaccel_init_def
    by (simp add: reg q mod_vaccel_def get_vaccel_def set_body_def arax_pipe_add_orphan_vaccel_def Let_def demo_vaccel_def object_name_def
        utils_spinlock_init_def fun_eq_iff)
  then obtain s where s: "arax_accel_acquire_type demo_env GPU demo_boot = Ok (4096, s)" "objects s = [4096 \<mapsto> demo_vaccel]"
    "repo_lock s = (\<lambda>_. 0)" "throttle s = \<lparr>available = 64768, capacity = 65280, ready = cond_free\<rparr>" by blast
  have "seg_ok demo_env exact {} demo_boot" by (rule pipe_init_ok [OF demo_boot demo_mspace_ok(1)]) (simp add: demo_mspace_ok)
  from soundD(2) [OF seg_env.creates(7) [OF this] s(1)] s show ?thesis by blast
qed

section \<open>The properties\<close>

text \<open>C35. A procedure is registered once and found again: after a registration, registering the name again gives
  the same object and changes nothing, and \<open>arax_proc_get\<close> gives it with one more reference. (The name has to
  fit the array of the header, and the count an \<open>int\<close>.)\<close>

theorem proc_register_get:
  assumes ok: "seg_ok env exact {} s" and lock: "repo_lock s ARAX_TYPE_PROC = 0"
    and reg: "arax_proc_register env name s = Ok (p, s1)" "p \<noteq> 0" and name: "length name < object_name_size env"
  shows "arax_proc_register env name s1 = Ok (p, s1) \<and> (\<exists>h b. objects s1 p = Some (h, b) \<and> ob_name h = name \<and>
    (0 \<le> sint (ref_count h) \<longrightarrow> arax_proc_get name s1 = Ok (p, set_obj p (h\<lparr>ref_count := ref_count h + 1\<rparr>) s1)))"
proof -
  have ok1: "seg_ok env exact {} s1" by (rule soundD(2) [OF seg_env.creates(3) [OF ok] reg(1)])
  obtain q where q: "arax_pipe_find_proc name s = Ok (q, s)"
    "q = 0 \<Longrightarrow> \<forall>a h b. objects s a = Some (h, b) \<and> ob_type h = ARAX_TYPE_PROC \<longrightarrow> ob_name h \<noteq> name"
    using dir.find_proc [OF ok lock, of name] by (auto split: if_splits)
  have new: "objects s1 = (objects s)(p \<mapsto> (\<lparr>alloc_size = sizeof_proc env, ob_type = ARAX_TYPE_PROC, ref_count = 1, ob_name = name\<rparr>,
        zero_body env ARAX_TYPE_PROC)) \<and> repo_lock s1 ARAX_TYPE_PROC = 0" if "q = 0"
    using that reg q(1) name
    by (auto simp: arax_proc_register_def arax_proc_init_def arax_object_register_def object_name_def res_simps Let_def
        arax_pipe_size_dec_def arax_object_list_lock_def arax_object_list_unlock_def split: if_splits)
  have old: "s1 = s \<and> p = q" if "q \<noteq> 0" using that reg(1) q(1) by (simp add: arax_proc_register_def)
  then have "repo_lock s1 ARAX_TYPE_PROC = 0" using new lock by auto
  from dir.find_proc [OF ok1 this, of name] obtain r where r: "arax_pipe_find_proc name s1 = Ok (r, s1)"
    "if r = 0 then \<forall>a h b. objects s1 a = Some (h, b) \<and> ob_type h = ARAX_TYPE_PROC \<longrightarrow> ob_name h \<noteq> name
     else \<exists>h b. objects s1 r = Some (h, b) \<and> ob_type h = ARAX_TYPE_PROC \<and> ob_name h = name" by blast
  have "r = p"
  proof (cases "q = 0")
    case True
    with r(2) q(2) new reg(2) show ?thesis by (auto split: if_splits)
  qed (use old q(1) r(1) in auto)
  with r reg(2) obtain h b where find: "arax_pipe_find_proc name s1 = Ok (p, s1)" and h: "objects s1 p = Some (h, b)" "ob_name h = name"
    by auto
  have "arax_object_ref_inc p s1 = Ok (set_obj p (h\<lparr>ref_count := ref_count h + 1\<rparr>) s1)" if "0 \<le> sint (ref_count h)"
    using that h(1) reg(2) live_objects [OF ok1 h(1)] by (simp add: arax_object_ref_inc_def get_obj_def)
  with find h reg(2) show ?thesis by (auto simp: arax_proc_register_def arax_proc_get_def)
qed

theorem proc_register_get_witness:
  "\<exists>p s1 s2. arax_proc_register demo_env ''noop'' demo_boot = Ok (p, s1) \<and> arax_proc_register demo_env ''noop'' s1 = Ok (p, s1) \<and>
     arax_proc_get ''noop'' s1 = Ok (p, s2)"
proof -
  note f = pipe_init_fresh [OF demo_boot]
  have ok: "seg_ok demo_env False {} demo_boot" by (rule pipe_init_ok [OF demo_boot demo_mspace_ok(1)]) simp
  have lock: "repo_lock demo_boot ARAX_TYPE_PROC = 0" using f by simp
  obtain q where "arax_pipe_find_proc ''noop'' demo_boot = Ok (q, demo_boot)" "q = 0"
    using dir.find_proc [OF ok lock, of "''noop''"] f by (auto split: if_splits)
  moreover obtain s1 where "arax_proc_init demo_env ''noop'' demo_boot = Ok (4096, s1)" "objects s1 4096 = Some demo_proc"
    using demo_proc_ok [OF demo_boot] demo_init demo_boot by auto
  ultimately have s1: "arax_proc_register demo_env ''noop'' demo_boot = Ok (4096, s1)" "objects s1 4096 = Some demo_proc"
    by (simp_all add: arax_proc_register_def)
  from proc_register_get [OF ok lock s1(1)] s1 show ?thesis by (auto simp: demo_env_def demo_proc_def)
qed

text \<open>C34. The list of accelerators is exact: \<open>arax_accel_list\<close> counts the live accelerators of the type, physical or
  virtual; when asked for them it returns those, each of them once and with one more reference, and nothing else
  changes.\<close>

theorem accel_list_exact:
  assumes ok: "seg_ok env exact {} s" and lty: "lty = (if physical then ARAX_TYPE_PHYS_ACCEL else ARAX_TYPE_VIRT_ACCEL)"
    and "repo_lock s lty = 0"
    and counts: "\<forall>a h b. objects s a = Some (h, b) \<longrightarrow> 0 \<le> sint (ref_count h)"
  shows "\<exists>found. distinct found \<and>
    set found = {a. \<exists>h b. objects s a = Some (h, b) \<and> ob_type h = lty \<and> (ty = ANY \<or> arax_accel_type a s = Ok ty)} \<and>
    arax_accel_list n env ty physical None s = Ok ((of_nat (length found), None), s) \<and>
    arax_accel_list n env ty physical (Some []) s = Ok ((of_nat (length found), Some found), ref_all (set found) s)"
proof -
  have lty': "lty \<noteq> ARAX_TYPE_COUNT" using lty by simp
  obtain as where as: "repo_objects lty s = Ok as" "distinct as" "set as = {a. \<exists>h b. objects s a = Some (h, b) \<and> ob_type h = lty}"
    using dir.walk [OF ok lty'] by blast
  let ?s = "s\<lparr>repo_lock := (repo_lock s)(lty := 1)\<rparr>"
  have field: "accel_type_field a ?s = accel_type_field a s" for a by (simp add: accel_type_field_def)
  have typed: "\<exists>t. accel_type_field a s = Ok t" if "objects s a = Some (h, b)" "ob_type h = lty" for a h b
    using live_objects(2) [OF ok that(1)] that lty by (cases b) (auto simp: accel_type_field_def split: if_splits)
  have walk: "repo_objects lty ?s = Ok as" using as(1) repo_objects_cong [of ?s s lty] by simp
  let ?f = "filter (accel_fits ty s) as"
  have "accel_fits ty ?s = accel_fits ty s" by (simp add: accel_fits_def field fun_eq_iff)
  then have collect: "accel_collect ty want as ?s = Ok (?f, if want then ref_all (set ?f) ?s else ?s)" for want
    using as live_objects(3,4) [OF ok] counts typed field by (subst accel_collect_filter) fastforce+
  have unlock: "arax_object_list_unlock lty (ref_all (set ?f) ?s) = Ok (ref_all (set ?f) s)"
    using relock(2) [of "ref_all (set ?f) s" lty] assms(3) by (simp add: ref_all_lock)
  show ?thesis
  proof (intro exI conjI)
    show "distinct ?f" using as(2) by simp
    show "set ?f = {a. \<exists>h b. objects s a = Some (h, b) \<and> ob_type h = lty \<and> (ty = ANY \<or> arax_accel_type a s = Ok ty)}"
      using as(3) by (auto simp: accel_fits_def arax_accel_type_def)
    show "arax_accel_list n env ty physical None s = Ok ((of_nat (length ?f), None), s)"
      "arax_accel_list n env ty physical (Some []) s = Ok ((of_nat (length ?f), Some ?f), ref_all (set ?f) s)"
      using relock [OF assms(3)] walk collect unlock unfolding arax_accel_list_def lty [symmetric] Let_def
      by (simp_all add: arax_accel_list_free_pre_locked_def)
  qed
qed

theorem accel_list_exact_witness:
  "\<exists>s s'. arax_accel_acquire_type demo_env GPU demo_boot = Ok (4096, s) \<and>
     arax_accel_list 1 demo_env GPU False None s = Ok ((1, None), s) \<and>
     arax_accel_list 1 demo_env GPU False (Some []) s = Ok ((1, Some [4096]), s')"
proof -
  obtain s where s: "arax_accel_acquire_type demo_env GPU demo_boot = Ok (4096, s)" "objects s = [4096 \<mapsto> demo_vaccel]"
    "repo_lock s = (\<lambda>_. 0)" "seg_ok demo_env False {} s" using demo_acquire by blast
  have counts: "\<forall>a h b. objects s a = Some (h, b) \<longrightarrow> 0 \<le> sint (ref_count h)"
    by (auto simp: s(2) demo_vaccel_def split: if_splits)
  have "{a. \<exists>h b. objects s a = Some (h, b) \<and> ob_type h = ARAX_TYPE_VIRT_ACCEL \<and> (GPU = ANY \<or> arax_accel_type a s = Ok GPU)} = {4096}"
    by (auto simp: s(2) demo_vaccel_def arax_accel_type_def accel_type_field_def split: if_splits)
  with accel_list_exact [OF s(4) _ _ counts, where lty = ARAX_TYPE_VIRT_ACCEL and physical = False and n = 1 and ty = GPU] s(3)
  obtain found where
    f: "distinct found" "set found = {4096}" "arax_accel_list 1 demo_env GPU False None s = Ok ((of_nat (length found), None), s)"
      "arax_accel_list 1 demo_env GPU False (Some []) s = Ok ((of_nat (length found), Some found), ref_all (set found) s)"
    by auto
  from f(1,2) have "found = [4096]" by (cases found) (auto, metis list.set_intros(1) neq_Nil_conv singletonD insertE subsetD subset_refl)
  with s(1) f(3,4) show ?thesis by simp
qed

end
