(* ===== verification/Dispatch.thy ===== *)
theory Dispatch
  imports Directory
begin

text \<open>
  The way of a task (\<open>src/core/arax_task.c\<close>, \<open>src/core/arax_vaccel.c\<close>, \<open>src/core/arax_accel.c\<close>): into the queue of its
  virtual accelerator, and back to the application that waits for it.
\<close>

section \<open>Submitting\<close>

text \<open>What \<open>arax_vaccel_add_task\<close> does with the queue, read as a bounded list.\<close>

lemma vaccel_add_task:
  assumes c: "good_capacity (queue_capacity env)" and v: "objects s a = Some (h, Vaccel v)" "va_lock v = 0"
    and q: "q_inv (queue_capacity env) (va_queue v)" and t: "t \<noteq> 0"
    and phys: "va_phys v \<noteq> 0 \<Longrightarrow> get_accel (va_phys v) s = Ok x \<and> ac_lock x = cond_free"
  shows "if length (q_contents (queue_capacity env) (va_queue v)) < unat (queue_capacity env)
    then \<exists>q' s'. arax_vaccel_add_task env a t s = Ok s' \<and> q_inv (queue_capacity env) q' \<and>
      q_contents (queue_capacity env) q' = q_contents (queue_capacity env) (va_queue v) @ [t] \<and>
      objects s' a = Some (h, Vaccel (v\<lparr>va_queue := q'\<rparr>)) \<and>
      (\<forall>y. y \<noteq> a \<and> y \<noteq> va_phys v \<longrightarrow> objects s' y = objects s y) \<and>
      (va_phys v \<noteq> 0 \<longrightarrow> arax_accel_pending_tasks (va_phys v) s' = Ok (ac_tasks x + 1))
    else arax_vaccel_add_task env a t s = Fault (Blocked ''while (!utils_queue_push(&(accel->queue), task))'')"
proof -
  let ?cap = "queue_capacity env"
  have ne: "va_phys v \<noteq> a" if "va_phys v \<noteq> 0" using phys [OF that] v(1) by (auto simp: get_accel_def)
  obtain q' where q': "q_inv ?cap q'" "if length (q_contents ?cap (va_queue v)) < unat ?cap
     then utils_queue_push ?cap (va_queue v) t = Ok (t, q') \<and> q_contents ?cap q' = q_contents ?cap (va_queue v) @ [t]
     else utils_queue_push ?cap (va_queue v) t = Ok (0, q') \<and> q_contents ?cap q' = q_contents ?cap (va_queue v)"
    using utils_queue_push_ok [OF c q t] by blast
  show ?thesis using v q' t phys ne
    by (cases "va_phys v = 0")
      (auto simp: arax_vaccel_add_task_def vaccel_lock_def vaccel_unlock_def get_vaccel_def mod_vaccel_def set_body_def
        arax_accel_add_task_def accel_lock_def accel_unlock_def accel_notify_def mod_accel_def get_accel_def arax_accel_pending_tasks_def
        split: option.splits arax_body.splits)
qed

text \<open>A task on the virtual accelerator of the example.\<close>

definition demo_task :: arax_task_msg_s where
  "demo_task = \<lparr>ta_accel = 4096, ta_proc = 0, host_size = 0, in_count = 0, out_count = 0, ta_type = GPU, ta_state = task_failed,
     ta_started = 0, ta_done = \<lparr>compl_mutex = True\<rparr>, task_io = [], host_data = []\<rparr>"

definition demo_dispatch :: arax_pipe_s where
  "demo_dispatch = (zero_pipe demo_env)\<lparr>objects := [4096 \<mapsto> demo_vaccel,
     8192 \<mapsto> (\<lparr>alloc_size = 256, ob_type = ARAX_TYPE_TASK, ref_count = 1, ob_name = ''task''\<rparr>, Task demo_task)]\<rparr>"

lemma demo_dispatch_objects:
  "objects demo_dispatch = [4096 \<mapsto> demo_vaccel,
     8192 \<mapsto> (\<lparr>alloc_size = 256, ob_type = ARAX_TYPE_TASK, ref_count = 1, ob_name = ''task''\<rparr>, Task demo_task)]"
  by (simp add: demo_dispatch_def)

section \<open>The properties\<close>

text \<open>C9. Submitting a task puts it at the end of the queue of its virtual accelerator, marks it issued, takes a
  reference to the accelerator for it and counts it at the physical accelerator if there is one; with a full
  queue the caller spins until a task is taken out.\<close>

theorem task_submit_enqueues:
  assumes c: "good_capacity (queue_capacity env)" and t: "get_task t s = Ok tk" "t \<noteq> 0" and a: "ta_accel tk \<noteq> 0"
    and v: "objects s (ta_accel tk) = Some (h, Vaccel v)" "va_lock v = 0" "q_inv (queue_capacity env) (va_queue v)"
    and h: "ob_type h \<noteq> ARAX_TYPE_COUNT" "0 \<le> sint (ref_count h)"
    and phys: "va_phys v \<noteq> 0 \<longrightarrow> get_accel (va_phys v) s = Ok x \<and> ac_lock x = cond_free"
  shows "if length (q_contents (queue_capacity env) (va_queue v)) < unat (queue_capacity env)
    then \<exists>q' s'. arax_task_submit env t s = Ok s' \<and>
      q_contents (queue_capacity env) q' = q_contents (queue_capacity env) (va_queue v) @ [t] \<and> q_inv (queue_capacity env) q' \<and>
      objects s' (ta_accel tk) = Some (h\<lparr>ref_count := ref_count h + 1\<rparr>, Vaccel (v\<lparr>va_queue := q'\<rparr>)) \<and>
      arax_task_stat t s' = Ok (task_issued, realtime env) \<and>
      (va_phys v \<noteq> 0 \<longrightarrow> arax_accel_pending_tasks (va_phys v) s' = Ok (ac_tasks x + 1))
    else arax_task_submit env t s = Fault (Blocked ''while (!utils_queue_push(&(accel->queue), task))'')"
proof -
  let ?a = "ta_accel tk" and ?cap = "queue_capacity env"
  obtain ht where t': "objects s t = Some (ht, Task tk)" using t(1) by (auto simp: res_simps)
  have ne: "t \<noteq> ?a" "va_phys v \<noteq> 0 \<Longrightarrow> va_phys v \<noteq> t" using t' v(1) phys by (auto simp: get_accel_def)
  let ?h = "h\<lparr>ref_count := ref_count h + 1\<rparr>" and ?t = "tk\<lparr>ta_started := realtime env, ta_state := task_issued\<rparr>"
  let ?s = "set_body t (Task ?t) (set_obj ?a ?h s)"
  have submit: "arax_task_submit env t s = arax_vaccel_add_task env ?a t ?s"
    using t t' a v(1) h ne(1) by (simp add: arax_task_submit_def arax_object_ref_inc_def get_obj_def mod_task_def get_task_def set_obj_def)
  have s: "objects ?s ?a = Some (?h, Vaccel v)" "objects ?s t = Some (ht, Task ?t)" using v(1) t' ne(1) by (simp_all add: set_body_def set_obj_def)
  have p: "get_accel (va_phys v) ?s = Ok x \<and> ac_lock x = cond_free" if "va_phys v \<noteq> 0"
  proof -
    have "get_accel (va_phys v) s = Ok x \<and> ac_lock x = cond_free" using phys that by simp
    moreover have "va_phys v \<noteq> ?a" using calculation v(1) by (auto simp: get_accel_def)
    ultimately show ?thesis using ne(2) [OF that] by (simp add: get_accel_def set_body_def set_obj_def)
  qed
  have stat: "arax_task_stat t s' = Ok (task_issued, realtime env)" if "\<forall>y. y \<noteq> ?a \<and> y \<noteq> va_phys v \<longrightarrow> objects s' y = objects ?s y"
    "va_phys v \<noteq> t" for s'
    using that ne(1) s(2) by (simp add: arax_task_stat_def get_task_def)
  have "va_phys v \<noteq> t" using ne(2) t(2) by (cases "va_phys v = 0") auto
  with vaccel_add_task [OF c s(1) v(2,3) t(2) p] stat show ?thesis unfolding submit by (auto split: if_splits)
qed

theorem task_submit_enqueues_witness:
  "\<exists>q' s'. arax_task_submit demo_env 8192 demo_dispatch = Ok s' \<and> q_contents 8 q' = [8192] \<and>
     arax_task_stat 8192 s' = Ok (task_issued, 0)"
proof -
  obtain h v where v: "demo_vaccel = (h, Vaccel v)" "va_lock v = 0" "ob_type h = ARAX_TYPE_VIRT_ACCEL" "ref_count h = 1" "va_phys v = 0"
    "va_queue v = \<lparr>q_entries = replicate 8 0, q_lock = 0, q_bottom = 0, q_top = 0\<rparr>" by (simp add: demo_vaccel_def)
  have q: "q_inv 8 (va_queue v)" "q_contents 8 (va_queue v) = []" by (simp_all add: v(6) q_inv_def q_rep_def q_contents_def q_distance_def)
  have env: "queue_capacity demo_env = 8" "realtime demo_env = 0" by (simp_all add: demo_env_def)
  have c: "good_capacity 8" by (simp add: good_capacity_def)
  have task: "get_task 8192 demo_dispatch = Ok demo_task" "ta_accel demo_task = 4096"
    by (simp_all add: get_task_def demo_dispatch_objects) (simp add: demo_task_def)
  show ?thesis using task_submit_enqueues [of demo_env 8192 demo_dispatch demo_task h v] task v q c
    by (auto simp: env demo_dispatch_objects)
qed

text \<open>C37. Waiting for a task and completing it: until the task is marked done, a caller that nobody helps sleeps;
  once it is marked done, the wait returns at once with the state it was given, whatever else happens; but when
  that state says that the task failed, the wait runs into an assertion instead of reporting it.\<close>

theorem task_wait_done:
  assumes "get_task t s = Ok tk" and "compl_mutex (ta_done tk)" and "ta_state tk = task_issued"
  shows "arax_task_wait (\<lambda>_. Ok) t s = Fault (Blocked ''pthread_mutex_lock'') \<and>
    (\<exists>s'. arax_task_mark_done t st s = Ok s' \<and>
       (if st = task_failed
        then arax_task_wait controller t s' = Fault (Assert_failed ''msg->state == task_issued || msg->state == task_completed'')
        else \<exists>s''. arax_task_wait controller t s' = Ok (st, s'') \<and> get_task t s'' = Ok (tk\<lparr>ta_state := st\<rparr>)))"
  using assms
  by (cases st)
    (auto simp: arax_task_wait_def arax_task_wait_done_def arax_task_mark_done_def mod_task_def get_task_def set_body_def
      async_completion_check_def async_completion_wait_def async_completion_complete_def pthread_mutex_lock_def
      pthread_mutex_trylock_def pthread_mutex_unlock_def split: option.splits arax_body.splits)

theorem task_wait_done_witness:
  "\<exists>s s' s''. get_task 8192 s = Ok (demo_task\<lparr>ta_state := task_issued\<rparr>) \<and>
     arax_task_wait (\<lambda>_. Ok) 8192 s = Fault (Blocked ''pthread_mutex_lock'') \<and>
     arax_task_mark_done 8192 task_completed s = Ok s' \<and> arax_task_wait (\<lambda>_. Ok) 8192 s' = Ok (task_completed, s'')"
proof -
  let ?s = "set_body 8192 (Task (demo_task\<lparr>ta_state := task_issued\<rparr>)) demo_dispatch"
  have g: "get_task 8192 ?s = Ok (demo_task\<lparr>ta_state := task_issued\<rparr>)" by (simp add: get_task_def set_body_def demo_dispatch_objects)
  from task_wait_done [OF g, of task_completed "\<lambda>_. Ok"] g show ?thesis by (auto simp: demo_task_def)
qed

lemma used_slots_minus:
  assumes "utils_queue_used_slots q \<noteq> 0"
  shows "(scast (utils_queue_used_slots q - 1) :: u64) = scast (utils_queue_used_slots q) - 1"
proof -
  let ?k = "uint (q_bottom q - q_top q)"
  have u: "utils_queue_used_slots q = word_of_int ?k" by (simp add: utils_queue_used_slots_def q_distance_sub)
  have k: "0 \<le> ?k" "?k < 65536" using uint_lt2p [of "q_bottom q - q_top q"] by simp_all
  have sc: "(scast (word_of_int i :: u32) :: u64) = word_of_int i" if "0 \<le> i" "i < 65536" for i
    using that by (simp add: signed_of_int signed_take_bit_int_eq_self)
  have "?k \<noteq> 0" using assms u by (metis of_int_0)
  moreover have "utils_queue_used_slots q - 1 = word_of_int (?k - 1)" by (simp add: u)
  ultimately show ?thesis using sc [of ?k] sc [of "?k - 1"] k u by simp
qed

text \<open>Moving a virtual accelerator with tasks in its queue to a physical accelerator and away again leaves the
  number of pending tasks there one too high, since the way back takes one task less off than was added; with an
  empty queue the number is right, and the virtual accelerator is as it was.\<close>

theorem accel_move_counts:
  assumes a: "get_accel a s = Ok x" "ac_lock x = cond_free" "a \<noteq> 0"
    and v: "get_vaccel v s = Ok y" "va_phys y = 0" "va_lock y = 0" and o: "orphan_cond s = cond_free"
  shows "\<exists>s1 s2. arax_accel_add_vaccel a v s = Ok s1 \<and>
    arax_accel_pending_tasks a s1 = Ok (ac_tasks x + scast (utils_queue_used_slots (va_queue y))) \<and>
    arax_accel_del_vaccel a v s1 = Ok s2 \<and> get_vaccel v s2 = Ok y \<and>
    arax_accel_pending_tasks a s2 = Ok (ac_tasks x + (if utils_queue_used_slots (va_queue y) = 0 then 0 else 1))"
proof -
  obtain h b where ob: "objects s a = Some (h, Accel x)" "objects s v = Some (b, Vaccel y)" using a v by (auto simp: res_simps)
  then have "a \<noteq> v" by auto
  with ob assms used_slots_minus [of "va_queue y"] show ?thesis
    by (simp add: arax_accel_add_vaccel_def arax_accel_del_vaccel_def arax_pipe_remove_orphan_vaccel_def arax_vaccel_queue_size_def
        arax_vaccel_queue_def vaccel_lock_def vaccel_unlock_def get_vaccel_def mod_vaccel_def set_body_def arax_accel_inc_revision_def
        accel_lock_def accel_unlock_def accel_notify_def mod_accel_def get_accel_def arax_accel_pending_tasks_def Let_def)
qed

theorem accel_move_counts_witness:
  "\<exists>s s1 s2. arax_accel_pending_tasks 12288 s = Ok 0 \<and> arax_accel_add_vaccel 12288 4096 s = Ok s1 \<and>
     arax_accel_pending_tasks 12288 s1 = Ok 1 \<and> arax_accel_del_vaccel 12288 4096 s1 = Ok s2 \<and> arax_accel_pending_tasks 12288 s2 = Ok 1"
proof -
  let ?x = "\<lparr>ac_type = GPU, ac_state = accel_idle, ac_lock = cond_free, ac_tasks = 0, revision = 0,
     ac_throttle = \<lparr>available = 0, capacity = 0, ready = cond_free\<rparr>, free_vaq = 0\<rparr>"
  let ?y = "\<lparr>va_type = GPU, ordering = SEQUENTIAL, va_lock = 0, cid = 0, priority = 0, va_phys = 0, meta = 0,
     va_queue = \<lparr>q_entries = [8192], q_lock = 0, q_bottom = 1, q_top = 0\<rparr>\<rparr>"
  let ?s = "(zero_pipe demo_env)\<lparr>orphan_cond := cond_free, objects := [
     12288 \<mapsto> (\<lparr>alloc_size = 512, ob_type = ARAX_TYPE_PHYS_ACCEL, ref_count = 1, ob_name = ''gpu''\<rparr>, Accel ?x),
     4096 \<mapsto> (\<lparr>alloc_size = 512, ob_type = ARAX_TYPE_VIRT_ACCEL, ref_count = 1, ob_name = ''FILL''\<rparr>, Vaccel ?y)]\<rparr>"
  have a: "get_accel 12288 ?s = Ok ?x" and v: "get_vaccel 4096 ?s = Ok ?y" by (simp_all add: get_accel_def get_vaccel_def)
  have "utils_queue_used_slots (va_queue ?y) = 1" by (simp add: utils_queue_used_slots_def q_distance_def)
  with accel_move_counts [OF a _ _ v] obtain s1 s2 where "arax_accel_add_vaccel 12288 4096 ?s = Ok s1"
    "arax_accel_pending_tasks 12288 s1 = Ok 1" "arax_accel_del_vaccel 12288 4096 s1 = Ok s2" "arax_accel_pending_tasks 12288 s2 = Ok 1"
    by auto
  moreover have "arax_accel_pending_tasks 12288 ?s = Ok 0" by (simp add: arax_accel_pending_tasks_def a)
  ultimately show ?thesis by blast
qed

end
