(* ===== verification/Device.thy ===== *)
theory Device
  imports Dispatch
begin

text \<open>
  The accelerator side of a task: the operations every backend of the controller implements
  (\<open>controller/include/deviceBaseOps.h\<close>), the CPU backend (\<open>controller/src/Cpu/CPUaccelThread.cpp\<close>) and its
  builtin procedures (\<open>controller/src/Cpu/CpuBuiltins.cpp\<close>).

  A procedure is reached through a functor, the address of its code in a loaded library: \<open>code\<close> maps such an
  address and a task to what the code does to the segment. Argument structures are read out of the host data
  of the task with the layout of the x86-64 ABI.

  The backend touches the segment only through the interface of the library (\<open>arax_run\<close>): the locale
  \<open>device\<close> has this as its law and the CPU backend is its instance.
\<close>

section \<open>Runs of the library as results\<close>

text \<open>\<open>sound True (arax_run env s0)\<close>: if the call returns, all it did since \<open>s0\<close> was to call the library.\<close>

named_theorems run_intro \<open>calls that are runs of the library\<close>

lemma run_one: "arax_call env s s' \<Longrightarrow> arax_run env s s'"
  by (rule run_call [OF run_start])

lemma run_trans: "arax_run env s1 s2 \<Longrightarrow> arax_run env s0 s1 \<Longrightarrow> arax_run env s0 s2"
proof (induction rule: arax_run.induct)
  case (run_wait s s1 controller s')
  show ?case
    by (rule arax_run.run_wait [OF run_wait.IH(1) [OF run_wait.prems] _ run_wait.hyps(2)]) (use run_wait.IH(2) in blast)
qed (auto intro: run_call)

lemma run_calls [run_intro]:
  assumes "arax_run env s0 s"
  shows "sound True (arax_run env s0) (arax_object_ref_inc a s)"
    and "sound2 True (arax_run env s0) (arax_object_ref_dec n env a s)"
    and "sound True (arax_run env s0) (arax_pipe_add_orphan_vaccel a s)"
    and "sound2 True (arax_run env s0) (arax_pipe_get_orphan_vaccel s)"
    and "sound True (arax_run env s0) (arax_accel_wait_for_task a s)"
    and "sound True (arax_run env s0) (arax_accel_add_task a s)"
    and "sound True (arax_run env s0) (arax_accel_size_inc a sz s)"
    and "sound True (arax_run env s0) (arax_accel_size_dec a sz s)"
    and "sound True (arax_run env s0) (arax_accel_add_vaccel a v s)"
    and "sound True (arax_run env s0) (arax_accel_del_vaccel a v s)"
    and "sound2 True (arax_run env s0) (arax_accel_get_assigned_vaccels a s)"
    and "sound2 True (arax_run env s0) (arax_accel_init env nm ty sz cap s)"
    and "sound True (arax_run env s0) (arax_accel_release n env a s)"
    and "sound2 True (arax_run env s0) (arax_proc_register env pn s)"
    and "sound2 True (arax_run env s0) (arax_proc_set_functor p ty f s)"
    and "sound True (arax_run env s0) (arax_task_mark_done t st s)"
    and "sound True (arax_run env s0) (arax_task_free n env t s)"
  using assms by (auto simp: sound_def sound2_def split: res.split intro: run_call arax_call.intros)

lemma run_writes [run_intro]:
  assumes "arax_run env s0 s"
  shows "arax_run env s0 (write_bytes b bytes s)"
    and "get_data d s = Ok da \<Longrightarrow> arax_run env s0 (set_body d (Data (da\<lparr>da_phys := p\<rparr>)) s)"
    and "get_data d s = Ok da \<Longrightarrow> arax_run env s0 (set_body d (Data (da\<lparr>remote := p\<rparr>)) s)"
    and "get_task t s = Ok ta \<Longrightarrow> arax_run env s0 (set_body t (Task (ta\<lparr>host_data := bs\<rparr>)) s)"
    and "get_task t s = Ok ta \<Longrightarrow> arax_run env s0 (set_body t (Task (ta\<lparr>ta_state := ts\<rparr>)) s)"
    and "get_vaccel v s = Ok va \<Longrightarrow> utils_queue_pop (queue_capacity env) (va_queue va) = (r, q) \<Longrightarrow>
      arax_run env s0 (set_body v (Vaccel (va\<lparr>va_queue := q\<rparr>)) s)"
  using assms by (auto intro: run_call arax_call.intros)

text \<open>The binds of a run.\<close>

lemmas run_binds [run_intro] =
  sound_bind [where f = True and P = "arax_run env s0" and Q = "arax_run env s0" for env s0]
  sound_bind2 [where f = True and P = "arax_run env s0" and Q = "arax_run env s0" for env s0]

section \<open>The operations of a backend\<close>

type_synonym segment_fn = "addr \<Rightarrow> arax_pipe_s \<Rightarrow> arax_pipe_s res"

text \<open>
  \<open>deviceBaseOps\<close> and the two sizes of \<open>accelThread\<close> that backends override. \<open>reset\<close> and \<open>alloc_no_throttle\<close> have
  no caller in the controller.
\<close>

record deviceBaseOps =
  acceleratorInit :: bool
  getAvailableSize :: "arax_pipe_s \<Rightarrow> u64 res"
  getTotalSize :: "arax_pipe_s \<Rightarrow> u64 res"
  executeOperation :: "addr \<Rightarrow> addr \<Rightarrow> arax_pipe_s \<Rightarrow> arax_pipe_s res"
  alloc_remote :: segment_fn
  sync_to_remote :: segment_fn
  sync_from_remote :: segment_fn
  free_remote :: segment_fn

text \<open>
  \<open>USES_DEFAULT_EXECUTE_HOST_CODE\<close>. An exception of the functor is printed and dropped, so what the functor
  did until then is all it did; a null functor is called like any other.
\<close>

definition default_execute :: "(addr \<Rightarrow> addr \<Rightarrow> arax_pipe_s \<Rightarrow> arax_pipe_s res) \<Rightarrow> addr \<Rightarrow> addr \<Rightarrow> arax_pipe_s \<Rightarrow> arax_pipe_s res" where
  "default_execute code functor task s = (if functor = 0 then Fault (Bad_access ''functor(arax_task)'') else code functor task s)"

section \<open>The CPU backend\<close>

definition CPU_getAvailableSize :: "arax_pipe_s \<Rightarrow> u64 res" where
  "CPU_getAvailableSize s = Ok (arax_throttle_get_available_size (throttle s))"

definition CPU_getTotalSize :: "arax_pipe_s \<Rightarrow> u64 res" where
  "CPU_getTotalSize s = Ok (arax_throttle_get_total_size (throttle s))"

definition CPU_alloc_remote :: segment_fn where
  "CPU_alloc_remote vdata s =
     rbind (get_data vdata s) (\<lambda>d.
     rbind (get_vaccel (da_accel d) s) (\<lambda>v.
     rbind (arax_assert (va_phys v \<noteq> 0) ''(arax_accel_s *) ((arax_vaccel_s *) (vdata->accel))->phys'') (\<lambda>_.
     rbind (Ok (set_body vdata (Data (d\<lparr>da_phys := va_phys v\<rparr>)) s)) (\<lambda>s.
     arax_accel_size_dec (va_phys v) (da_size d) s))))"

definition CPU_free_remote :: segment_fn where
  "CPU_free_remote vdata s =
     rbind (get_data vdata s) (\<lambda>d.
     rbind (get_vaccel (da_accel d) s) (\<lambda>v.
     rbind (arax_assert (va_phys v \<noteq> 0) ''(arax_accel_s *) ((arax_vaccel_s *) (vdata->accel))->phys'') (\<lambda>_.
     rbind (arax_accel_size_inc (va_phys v) (da_size d) s) (\<lambda>s.
     rbind (get_data vdata s) (\<lambda>d.
     Ok (set_body vdata (Data (d\<lparr>da_phys := 0\<rparr>)) s))))))"

definition CPU_sync_to_remote :: segment_fn where
  "CPU_sync_to_remote vdata s = Ok s"

definition CPU_sync_from_remote :: segment_fn where
  "CPU_sync_from_remote vdata s = Ok s"

definition CPUaccelThread :: "(addr \<Rightarrow> addr \<Rightarrow> arax_pipe_s \<Rightarrow> arax_pipe_s res) \<Rightarrow> deviceBaseOps" where
  "CPUaccelThread code =
     \<lparr>acceleratorInit = True, getAvailableSize = CPU_getAvailableSize, getTotalSize = CPU_getTotalSize,
      executeOperation = default_execute code, alloc_remote = CPU_alloc_remote, sync_to_remote = CPU_sync_to_remote,
      sync_from_remote = CPU_sync_from_remote, free_remote = CPU_free_remote\<rparr>"

text \<open>\<open>Host2CPU\<close> and \<open>CPU2Host\<close>, for the procedures of other libraries: the buffers of a task, and its end.\<close>

fun deref_all :: "addr list \<Rightarrow> arax_pipe_s \<Rightarrow> addr list res" where
  "deref_all [] s = Ok []"
| "deref_all (d # ds) s = rbind (arax_data_deref d s) (\<lambda>b. rbind (deref_all ds s) (\<lambda>bs. Ok (b # bs)))"

definition task_args :: "arax_task_msg_s \<Rightarrow> addr list" where
  "task_args t = take (unat (in_count t + out_count t)) (task_io t)"

definition Host2CPU :: "addr \<Rightarrow> addr list \<Rightarrow> arax_pipe_s \<Rightarrow> addr list res" where
  "Host2CPU arax_task ioHD s =
     rbind (get_task arax_task s) (\<lambda>t.
     rbind (deref_all (task_args t) s) (\<lambda>bs. Ok (ioHD @ bs)))"

definition CPU2Host :: "addr \<Rightarrow> arax_pipe_s \<Rightarrow> arax_pipe_s res" where
  "CPU2Host arax_task s = arax_task_mark_done arax_task task_completed s"

section \<open>The builtin procedures of the CPU\<close>

text \<open>A little-endian word of the host data, and the arguments of \<open>memset\<close> and \<open>memcpy\<close>.\<close>

definition u64_at :: "8 word list \<Rightarrow> nat \<Rightarrow> u64" where
  "u64_at bs off = word_rcat (rev (take 8 (drop off bs)))"

definition task_arg :: "arax_task_msg_s \<Rightarrow> nat \<Rightarrow> addr res" where
  "task_arg t i = (if i < length (task_io t) then Ok (task_io t ! i) else Fault (Bad_access ''arax_task->io''))"

record memsetArgs =
  ms_data_offset :: u64
  ms_value :: "8 word"
  ms_size :: u64

definition sizeof_memsetArgs :: u64 where "sizeof_memsetArgs = 32"

definition memsetArgs_of :: "8 word list \<Rightarrow> memsetArgs" where
  "memsetArgs_of bs = \<lparr>ms_data_offset = u64_at bs 8, ms_value = bs ! 16, ms_size = u64_at bs 24\<rparr>"

record memcpyArgs =
  mc_src_offset :: u64
  mc_dst_offset :: u64
  mc_sync :: bool
  mc_size :: u64

definition sizeof_memcpyArgs :: u64 where "sizeof_memcpyArgs = 48"

definition memcpyArgs_of :: "8 word list \<Rightarrow> memcpyArgs" where
  "memcpyArgs_of bs = \<lparr>mc_src_offset = u64_at bs 8, mc_dst_offset = u64_at bs 24, mc_sync = (bs ! 32 \<noteq> 0), mc_size = u64_at bs 40\<rparr>"

text \<open>\<open>memcpy\<close> and \<open>memset\<close> into the buffer of a data object; what does not lie in the buffer is a bad access.\<close>

definition in_buffer :: "arax_data_s \<Rightarrow> u64 \<Rightarrow> u64 \<Rightarrow> bool" where
  "in_buffer d off sz \<longleftrightarrow> unat off + unat sz \<le> unat (da_size d)"

definition buffer_write :: "addr \<Rightarrow> u64 \<Rightarrow> 8 word list \<Rightarrow> arax_pipe_s \<Rightarrow> arax_pipe_s res" where
  "buffer_write data off bs s =
     rbind (get_data data s) (\<lambda>d.
     if in_buffer d off (of_nat (length bs)) then Ok (write_bytes (buffer d + off) bs s)
     else Fault (Bad_access ''arax_data_deref(data)''))"

definition buffer_read :: "addr \<Rightarrow> u64 \<Rightarrow> u64 \<Rightarrow> arax_pipe_s \<Rightarrow> 8 word list res" where
  "buffer_read data off sz s =
     rbind (get_data data s) (\<lambda>d.
     if in_buffer d off sz then Ok (read_bytes (buffer d + off) (unat sz) s)
     else Fault (Bad_access ''arax_data_deref(data)''))"

definition nop :: "addr \<Rightarrow> arax_pipe_s \<Rightarrow> arax_pipe_s res" where
  "nop arax_task s = arax_task_mark_done arax_task task_completed s"

definition init_phys :: "addr \<Rightarrow> arax_pipe_s \<Rightarrow> arax_pipe_s res" where
  "init_phys arax_task s = arax_task_mark_done arax_task task_completed s"

definition alloc_cpu_data :: "addr \<Rightarrow> arax_pipe_s \<Rightarrow> arax_pipe_s res" where
  "alloc_cpu_data arax_task s =
     rbind (get_task arax_task s) (\<lambda>t.
     rbind (task_arg t 0) (\<lambda>data.
     rbind (get_data data s) (\<lambda>d.
     rbind (get_vaccel (da_accel d) s) (\<lambda>v.
     rbind (arax_assert (va_phys v \<noteq> 0) ''(arax_accel_s *) ((arax_vaccel_s *) (data->accel))->phys'') (\<lambda>_.
     rbind (Ok (set_body data (Data (d\<lparr>da_phys := va_phys v\<rparr>)) s)) (\<lambda>s.
     arax_task_mark_done arax_task task_completed s))))))"

definition cpu_memset :: "arax_env \<Rightarrow> addr \<Rightarrow> arax_pipe_s \<Rightarrow> arax_pipe_s res" where
  "cpu_memset env arax_task s =
     rbind (arax_task_host_data env arax_task sizeof_memsetArgs s) (\<lambda>_.
     rbind (get_task arax_task s) (\<lambda>t.
     rbind (task_arg t 0) (\<lambda>data.
     let args = memsetArgs_of (host_data t) in
     rbind (buffer_write data (ms_data_offset args) (replicate (unat (ms_size args)) (ms_value args)) s) (\<lambda>s.
     arax_task_mark_done arax_task task_completed s))))"

text \<open>The ranges of a \<open>memcpy\<close> must not overlap, or its result is undefined.\<close>

definition overlap :: "addr \<Rightarrow> addr \<Rightarrow> u64 \<Rightarrow> bool" where
  "overlap a b sz \<longleftrightarrow> unat (b - a) < unat sz \<or> unat (a - b) < unat sz"

definition cpu_memcpy :: "nat \<Rightarrow> arax_env \<Rightarrow> addr \<Rightarrow> arax_pipe_s \<Rightarrow> arax_pipe_s res" where
  "cpu_memcpy fuel env arax_task s =
     rbind (arax_task_host_data env arax_task sizeof_memcpyArgs s) (\<lambda>_.
     rbind (get_task arax_task s) (\<lambda>t.
     rbind (task_arg t 0) (\<lambda>src.
     rbind (task_arg t 1) (\<lambda>dst.
     let args = memcpyArgs_of (host_data t); sz = mc_size args in
     if sz = 0 then Fault (Assert_failed ''args->size is Zero. Please specify size! Abort.'')
     else
       rbind (arax_data_deref src s) (\<lambda>sb.
       rbind (arax_data_deref dst s) (\<lambda>db.
       if overlap (sb + mc_src_offset args) (db + mc_dst_offset args) sz then Fault (Bad_access ''memcpy'')
       else
         rbind (buffer_read src (mc_src_offset args) sz s) (\<lambda>bs.
         rbind (buffer_write dst (mc_dst_offset args) bs s) (\<lambda>s.
         rbind (arax_task_mark_done arax_task task_completed s) (\<lambda>s.
         if mc_sync args then Ok s else arax_task_free fuel env arax_task s))))))))) "

text \<open>The address of the data comes out of the host data; the data object itself may be gone by then.\<close>

definition cpu_memfree :: "nat \<Rightarrow> arax_env \<Rightarrow> addr \<Rightarrow> arax_pipe_s \<Rightarrow> arax_pipe_s res" where
  "cpu_memfree fuel env arax_task s =
     rbind (arax_task_host_data env arax_task (8 * 4) s) (\<lambda>_.
     rbind (get_task arax_task s) (\<lambda>t.
     rbind (get_data (u64_at (host_data t) 0) s) (\<lambda>d.
     rbind (arax_accel_size_inc (da_phys d) (da_size d) s) (\<lambda>s.
     rbind (arax_task_mark_done arax_task task_completed s) (\<lambda>s.
     arax_task_free fuel env arax_task s)))))"

definition arax_data_get_cpu :: "arax_env \<Rightarrow> addr \<Rightarrow> arax_pipe_s \<Rightarrow> arax_pipe_s res" where
  "arax_data_get_cpu env arax_task s =
     rbind (get_task arax_task s) (\<lambda>t.
     rbind (arax_assert (in_count t = 0) ''arax_task->in_count == 0'') (\<lambda>_.
     rbind (arax_assert (out_count t = 1) ''arax_task->out_count == 1'') (\<lambda>_.
     rbind (task_arg t 0) (\<lambda>data.
     rbind (arax_data_size data s) (\<lambda>sz.
     rbind (arax_task_host_data env arax_task sz s) (\<lambda>_.
     rbind (buffer_read data 0 sz s) (\<lambda>bs.
     rbind (Ok (set_body arax_task (Task (t\<lparr>host_data := bs\<rparr>)) s)) (\<lambda>s.
     arax_task_mark_done arax_task task_completed s))))))))"

text \<open>The task is freed and never marked done: nobody may wait for it.\<close>

definition arax_data_set_cpu :: "nat \<Rightarrow> arax_env \<Rightarrow> addr \<Rightarrow> arax_pipe_s \<Rightarrow> arax_pipe_s res" where
  "arax_data_set_cpu fuel env arax_task s =
     rbind (get_task arax_task s) (\<lambda>t.
     rbind (arax_assert (in_count t = 0) ''arax_task->in_count == 0'') (\<lambda>_.
     rbind (arax_assert (out_count t = 1) ''arax_task->out_count == 1'') (\<lambda>_.
     rbind (task_arg t 0) (\<lambda>data.
     rbind (arax_data_size data s) (\<lambda>sz.
     rbind (arax_task_host_data env arax_task sz s) (\<lambda>_.
     rbind (buffer_write data 0 (take (unat sz) (host_data t)) s) (\<lambda>s.
     arax_task_free fuel env arax_task s)))))))"

text \<open>The table \<open>arax_proc_defs\<close> of the builtins, with the functions they stand for.\<close>

datatype cpu_functor = F_alloc_cpu_data | F_cpu_memfree | F_cpu_memset | F_cpu_memcpy | F_arax_data_set_cpu |
  F_arax_data_get_cpu | F_init_phys

definition cpu_proc_defs :: "(string \<times> cpu_functor) list" where
  "cpu_proc_defs = [(''alloc_data'', F_alloc_cpu_data), (''free'', F_cpu_memfree), (''memset'', F_cpu_memset),
     (''memcpy'', F_cpu_memcpy), (''arax_data_set'', F_arax_data_set_cpu), (''arax_data_get'', F_arax_data_get_cpu),
     (''init_phys'', F_init_phys)]"

fun cpu_functor_code :: "nat \<Rightarrow> arax_env \<Rightarrow> cpu_functor \<Rightarrow> addr \<Rightarrow> arax_pipe_s \<Rightarrow> arax_pipe_s res" where
  "cpu_functor_code fuel env F_alloc_cpu_data = alloc_cpu_data"
| "cpu_functor_code fuel env F_cpu_memfree = cpu_memfree fuel env"
| "cpu_functor_code fuel env F_cpu_memset = cpu_memset env"
| "cpu_functor_code fuel env F_cpu_memcpy = cpu_memcpy fuel env"
| "cpu_functor_code fuel env F_arax_data_set_cpu = arax_data_set_cpu fuel env"
| "cpu_functor_code fuel env F_arax_data_get_cpu = arax_data_get_cpu env"
| "cpu_functor_code fuel env F_init_phys = init_phys"

text \<open>The code at the addresses the builtins were loaded to; any other address has no code here.\<close>

definition cpu_code :: "(addr \<rightharpoonup> cpu_functor) \<Rightarrow> nat \<Rightarrow> arax_env \<Rightarrow> addr \<Rightarrow> addr \<Rightarrow> arax_pipe_s \<Rightarrow> arax_pipe_s res" where
  "cpu_code loaded fuel env functor task s =
     (case loaded functor of None \<Rightarrow> Fault (Bad_access ''functor(arax_task)'') | Some f \<Rightarrow> cpu_functor_code fuel env f task s)"

section \<open>Backends only use the library\<close>

locale device =
  fixes env :: arax_env and ops :: deviceBaseOps
  assumes execute_runs: "arax_run env s0 s \<Longrightarrow> sound True (arax_run env s0) (executeOperation ops f t s)"
    and alloc_runs: "arax_run env s0 s \<Longrightarrow> sound True (arax_run env s0) (alloc_remote ops d s)"
    and sync_to_runs: "arax_run env s0 s \<Longrightarrow> sound True (arax_run env s0) (sync_to_remote ops d s)"
    and sync_from_runs: "arax_run env s0 s \<Longrightarrow> sound True (arax_run env s0) (sync_from_remote ops d s)"
    and free_runs: "arax_run env s0 s \<Longrightarrow> sound True (arax_run env s0) (free_remote ops d s)"
begin

lemmas device_runs = execute_runs alloc_runs sync_to_runs sync_from_runs free_runs

end

lemma fine_device [sound_intro]:
  "fine f (task_arg tm i)" "fine f (buffer_read d off sz s)" "fine f (arax_data_size d s)" "fine f (arax_data_deref d s)"
  "fine f (arax_task_host_data env t sz s)"
  unfolding task_arg_def buffer_read_def arax_data_size_def arax_data_deref_def arax_task_host_data_def
  by (intro sound_intro; simp)+

lemma run_buffer_write [run_intro]: "arax_run env s0 s \<Longrightarrow> sound True (arax_run env s0) (buffer_write d off bs s)"
  unfolding buffer_write_def by (intro sound_intro run_intro; simp)

lemma cpu_ops_run [run_intro]:
  assumes "arax_run env s0 s"
  shows "sound True (arax_run env s0) (CPU_alloc_remote d s)" "sound True (arax_run env s0) (CPU_free_remote d s)"
    "sound True (arax_run env s0) (CPU_sync_to_remote d s)" "sound True (arax_run env s0) (CPU_sync_from_remote d s)"
  using assms unfolding CPU_alloc_remote_def CPU_free_remote_def CPU_sync_to_remote_def CPU_sync_from_remote_def
  by (intro sound_intro run_intro; simp)+

lemma cpu_builtins_run:
  assumes "arax_run env s0 s"
  shows "sound True (arax_run env s0) (cpu_functor_code fuel env f t s)"
proof (cases f)
  case F_cpu_memcpy
  show ?thesis unfolding F_cpu_memcpy cpu_functor_code.simps cpu_memcpy_def Let_def
    using assms by (intro sound_intro run_intro; simp)
qed (use assms in \<open>simp_all add: alloc_cpu_data_def cpu_memfree_def cpu_memset_def arax_data_set_cpu_def arax_data_get_cpu_def
    init_phys_def Let_def del: rbind.simps\<close>; intro sound_intro run_intro; simp)+

lemma cpu_device:
  assumes "\<And>s0 s f t. arax_run env s0 s \<Longrightarrow> sound True (arax_run env s0) (code f t s)"
  shows "device env (CPUaccelThread code)"
  by unfold_locales (auto simp: CPUaccelThread_def default_execute_def assms intro!: run_intro sound_intro)

interpretation cpu: device env "CPUaccelThread (cpu_code loaded fuel env)" for env loaded fuel
  by (rule cpu_device) (auto simp: cpu_code_def cpu_builtins_run intro!: sound_intro split: option.split)

end
