(* ===== verification/Controller_Config.thy ===== *)
theory Controller_Config
  imports Accel_Types Config "HOL-Library.List_Lexorder" "HOL-Library.Char_ord"
begin

text \<open>
  The configuration of the controller: \<open>controller/src/Core/Config.cpp\<close>, the helpers of
  \<open>controller/include/Utilities.h\<close> and \<open>controller/src/Core/Utilities.cpp\<close>, and the factories of
  \<open>controller/include/Factory.h\<close>.

  The configuration file is JSON. Its parser (picojson) is a parameter: \<open>json\<close> are its values, and
  \<open>to_str\<close> is the text it has for a value in messages. A \<open>runtime_error\<close> is the left value of a sum, with its
  message. A \<open>std::map\<close> is the list of its entries in the order of the keys. Objects made with \<open>new\<close> are
  elements of the lists of \<open>config_heap\<close> and pointers to them are indices.
\<close>

section \<open>Maps and exceptions\<close>

fun map_put :: "'k :: linorder \<Rightarrow> 'v \<Rightarrow> ('k \<times> 'v) list \<Rightarrow> ('k \<times> 'v) list" where
  "map_put k v [] = [(k, v)]"
| "map_put k v ((k', v') # m) = (if k < k' then (k, v) # (k', v') # m else if k = k' then (k, v) # m else (k', v') # map_put k v m)"

text \<open>\<open>emplace\<close> keeps the value a key already has.\<close>

definition map_emplace :: "'k :: linorder \<Rightarrow> 'v \<Rightarrow> ('k \<times> 'v) list \<Rightarrow> ('k \<times> 'v) list" where
  "map_emplace k v m = (if k \<in> fst ` set m then m else map_put k v m)"

definition map_sorted :: "('k :: linorder \<times> 'v) list \<Rightarrow> bool" where
  "map_sorted m \<longleftrightarrow> sorted_wrt (<) (map fst m)"

lemma map_put_keys: "fst ` set (map_put k v m) = insert k (fst ` set m)"
  by (induction k v m rule: map_put.induct) (simp_all add: insert_commute)

lemma map_sorted_Cons: "map_sorted ((k, v) # m) \<longleftrightarrow> (\<forall>x\<in>fst ` set m. k < x) \<and> map_sorted m"
  by (simp add: map_sorted_def)

lemma map_put_sorted: "map_sorted m \<Longrightarrow> map_sorted (map_put k v m)"
proof (induction k v m rule: map_put.induct)
  case (2 k v k' v' m)
  then have m: "map_sorted m" "\<forall>x\<in>fst ` set m. k' < x" by (simp_all add: map_sorted_Cons)
  consider "k < k'" | "k = k'" | "k' < k" by (rule linorder_cases)
  then show ?case
  proof cases
    case 1
    then have "\<forall>x\<in>fst ` set m. k < x" using m(2) by (blast intro: order_less_trans)
    with 1 m show ?thesis by (simp add: map_sorted_Cons)
  next
    case 3
    then have k: "\<not> k < k'" "k \<noteq> k'" by auto
    moreover have "\<forall>x\<in>fst ` set (map_put k v m). k' < x" using m(2) 3 unfolding map_put_keys by blast
    ultimately show ?thesis using "2.IH" [OF k m(1)] by (simp add: map_sorted_Cons)
  qed (use m in \<open>simp add: map_sorted_Cons\<close>)
qed (simp add: map_sorted_def)

lemma map_put_lookup: "map_sorted m \<Longrightarrow> map_of (map_put k v m) = (map_of m)(k \<mapsto> v)"
proof (induction m)
  case (Cons e m)
  then have "k < fst e \<Longrightarrow> map_of m k = None"
    by (auto simp: map_sorted_def map_of_eq_None_iff dest: order_less_trans)
  with Cons show ?case by (cases e) (auto simp: map_sorted_def fun_eq_iff)
qed simp

lemma map_emplace_sorted: "map_sorted m \<Longrightarrow> map_sorted (map_emplace k v m)"
  by (simp add: map_emplace_def map_put_sorted)

type_synonym 'a cpp = "string + 'a"

fun ebind :: "'a cpp \<Rightarrow> ('a \<Rightarrow> 'b cpp) \<Rightarrow> 'b cpp" where
  "ebind (Inl e) f = Inl e"
| "ebind (Inr x) f = f x"

text \<open>\<open>catch (std::runtime_error &err) { throw std::runtime_error(pre + err.what()); }\<close>\<close>

definition rethrow :: "string \<Rightarrow> 'a cpp \<Rightarrow> 'a cpp" where
  "rethrow pre r = (case r of Inl e \<Rightarrow> Inl (pre @ e) | Inr x \<Rightarrow> Inr x)"

lemma ebind_Inr [res_simps]: "ebind m f = Inr y \<longleftrightarrow> (\<exists>x. m = Inr x \<and> f x = Inr y)"
  by (cases m) auto

lemma rethrow_Inr [res_simps]: "rethrow pre r = Inr x \<longleftrightarrow> r = Inr x"
  by (auto simp: rethrow_def split: sum.splits)

definition quoted :: "string \<Rightarrow> string" where
  "quoted s = CHR 0x27 # s @ [CHR 0x27]"

section \<open>Utilities\<close>

text \<open>\<open>trim\<close> of \<open>Utilities.cpp\<close>; \<open>wsfront\<close> and \<open>wsback\<close> are positions.\<close>

definition trim :: "string \<Rightarrow> string" where
  "trim s =
     (let wsfront = length (takeWhile isspace s); wsback = length s - length (takeWhile isspace (rev s)) in
      if wsback \<le> wsfront then [] else take (wsback - wsfront) (drop wsfront s))"

text \<open>
  \<open>trim\<close> of \<open>Config.cpp\<close>, which looks for blanks and tabs only. \<open>None\<close> is \<open>npos\<close>; the second argument of
  \<open>substr\<close> is a length.
\<close>

definition is_blank :: "char \<Rightarrow> bool" where
  "is_blank c \<longleftrightarrow> c = CHR 0x09 \<or> c = CHR 0x20"

definition find_first_not_blank :: "string \<Rightarrow> nat option" where
  "find_first_not_blank s = (let n = length (takeWhile is_blank s) in if n = length s then None else Some n)"

definition find_last_not_blank :: "string \<Rightarrow> nat option" where
  "find_last_not_blank s = (let n = length (takeWhile is_blank (rev s)) in if n = length s then None else Some (length s - n - 1))"

definition config_trim :: "string \<Rightarrow> string" where
  "config_trim str =
     (let start = (case find_first_not_blank str of None \<Rightarrow> 0 | Some n \<Rightarrow> n) in
      case find_last_not_blank str of
        None \<Rightarrow> drop start str
      | Some end \<Rightarrow> take (end + 1) (drop start str))"

fun join_loop :: "string \<Rightarrow> string \<Rightarrow> string list \<Rightarrow> string" where
  "join_loop sep ret [] = ret"
| "join_loop sep ret (str # strs) = join_loop '', '' (ret @ sep @ str) strs"

definition join :: "string list \<Rightarrow> string" where
  "join strs = join_loop [] [] strs"

text \<open>
  \<open>std::getline(iss, s, delim)\<close>: the text before the delimiter and the rest behind it, \<open>None\<close> for the rest when
  the end of the stream was reached. Reading nothing at the end makes the stream fail.
\<close>

definition getline :: "char \<Rightarrow> string \<Rightarrow> string \<times> string option" where
  "getline delim s = (takeWhile (\<lambda>c. c \<noteq> delim) s, case dropWhile (\<lambda>c. c \<noteq> delim) s of [] \<Rightarrow> None | c # cs \<Rightarrow> Some cs)"

lemma getline_shorter: "getline d s = (x, Some r) \<Longrightarrow> length r < length s"
proof -
  assume "getline d s = (x, Some r)"
  then obtain c where "dropWhile (\<lambda>c. c \<noteq> d) s = c # r" by (auto simp: getline_def split: list.splits)
  then have "length (c # r) \<le> length s" by (metis length_dropWhile_le)
  then show ?thesis by simp
qed

function decode_loop :: "string \<Rightarrow> (string \<times> string) list \<Rightarrow> (string \<times> string) list" where
  "decode_loop s kv =
     (case getline CHR '':'' s of
        (k, None) \<Rightarrow> kv
      | (k, Some r) \<Rightarrow>
          if r = [] then kv
          else
            (case getline CHR '','' r of
               (v, r') \<Rightarrow>
                 let kv = map_put (map to_lower (trim k)) (trim v) kv in
                 (case r' of None \<Rightarrow> kv | Some r' \<Rightarrow> decode_loop r' kv)))"
  by pat_completeness auto
termination
  by (relation "measure (\<lambda>(s, kv). length s)") (auto dest!: getline_shorter [OF sym])

definition decodeArgs :: "string \<Rightarrow> (string \<times> string) list" where
  "decodeArgs args = decode_loop args []"

section \<open>JSON values\<close>

datatype json = JNull | JBool bool | JInt int | JFloat | JString string | JArray "json list" | JObject "(string \<times> json) list"

fun as_bool :: "json \<Rightarrow> bool option" where
  "as_bool (JBool b) = Some b"
| "as_bool _ = None"

fun as_string :: "json \<Rightarrow> string option" where
  "as_string (JString s) = Some s"
| "as_string _ = None"

fun as_array :: "json \<Rightarrow> json list option" where
  "as_array (JArray vs) = Some vs"
| "as_array _ = None"

fun as_object :: "json \<Rightarrow> (string \<times> json) list option" where
  "as_object (JObject kvs) = Some kvs"
| "as_object _ = None"

text \<open>The names of \<open>jsonTypeToString\<close>.\<close>

definition t_string :: string where "t_string = ''string''"
definition t_object :: string where "t_object = ''JSON object ({})''"
definition t_array :: string where "t_array = ''JSON array ([])''"
definition t_bool :: string where "t_bool = ''boolean''"

definition jsonCast :: "(json \<Rightarrow> string) \<Rightarrow> string \<Rightarrow> (json \<Rightarrow> 'a option) \<Rightarrow> json \<Rightarrow> 'a cpp" where
  "jsonCast to_str wanted is v =
     (case is v of None \<Rightarrow> Inl (''Wanted '' @ quoted wanted @ '' instead got '' @ to_str v) | Some x \<Rightarrow> Inr x)"

text \<open>\<open>obj[key]\<close> of a key that is not there is a null value.\<close>

definition json_at :: "(string \<times> json) list \<Rightarrow> string \<Rightarrow> json" where
  "json_at obj key = (case map_of obj key of None \<Rightarrow> JNull | Some v \<Rightarrow> v)"

definition jsonGetSafe :: "(json \<Rightarrow> string) \<Rightarrow> string \<Rightarrow> (json \<Rightarrow> 'a option) \<Rightarrow> (string \<times> json) list \<Rightarrow> string \<Rightarrow> 'a cpp" where
  "jsonGetSafe to_str wanted is obj key =
     rethrow (''While accessing key '' @ quoted key @ '' -> '') (jsonCast to_str wanted is (json_at obj key))"

definition jsonGetSafeOptional ::
  "(json \<Rightarrow> string) \<Rightarrow> string \<Rightarrow> (json \<Rightarrow> 'a option) \<Rightarrow> (string \<times> json) list \<Rightarrow> string \<Rightarrow> 'a \<Rightarrow> 'a cpp" where
  "jsonGetSafeOptional to_str wanted is obj key def =
     (if map_of obj key = None then Inr def else jsonGetSafe to_str wanted is obj key)"

section \<open>Processor sets\<close>

text \<open>\<open>hw\<close> is \<open>std::thread::hardware_concurrency()\<close>; a \<open>cpu_set_t\<close> has room for 1024 processors.\<close>

type_synonym CpuSet = "nat set"

definition CPU_SET :: "nat \<Rightarrow> CpuSet \<Rightarrow> CpuSet" where
  "CPU_SET core cs = (if core < 1024 then insert core cs else cs)"

definition setAll :: "nat \<Rightarrow> CpuSet \<Rightarrow> CpuSet" where
  "setAll hw cs = fold CPU_SET [0..<hw] cs"

definition int_str :: "int \<Rightarrow> string" where
  "int_str i = (if i < 0 then CHR ''-'' # dec_str (nat (- i)) else dec_str (nat i))"

definition cpuset_set :: "nat \<Rightarrow> int \<Rightarrow> CpuSet \<Rightarrow> CpuSet cpp" where
  "cpuset_set hw core cs =
     (if core \<ge> 0 then
        (if core \<ge> int hw then Inl (''Setting non existing core '' @ int_str core) else Inr (CPU_SET (nat core) cs))
      else Inr (setAll hw cs))"

definition cpuset_clear :: "nat \<Rightarrow> int \<Rightarrow> CpuSet \<Rightarrow> CpuSet cpp" where
  "cpuset_clear hw core cs =
     (if core \<ge> 0 then
        (if core \<ge> int hw then Inl (''Clearing non existing core '' @ int_str core) else Inr (cs - {nat core}))
      else Inr {})"

text \<open>\<open>iss >> core\<close>: blanks, a sign, digits; the value and what is left, or a failed stream.\<close>

definition read_int :: "string \<Rightarrow> (int \<times> string) option" where
  "read_int s =
     (let s = dropWhile isspace s;
          neg = (s \<noteq> [] \<and> hd s = CHR ''-'');
          s = (if s \<noteq> [] \<and> (hd s = CHR ''-'' \<or> hd s = CHR ''+'') then tl s else s);
          ds = digits 10 s;
          v = (if neg then - int (digits_val 10 ds) else int (digits_val 10 ds)) in
      if ds = [] \<or> v < - 2147483648 \<or> v > 2147483647 then None else Some (v, drop (length ds) s))"

lemma read_int_shorter: "read_int s = Some (v, r) \<Longrightarrow> length r < length s"
proof -
  assume r: "read_int s = Some (v, r)"
  define s1 where "s1 = dropWhile isspace s"
  define s2 where "s2 = (if s1 \<noteq> [] \<and> (hd s1 = CHR ''-'' \<or> hd s1 = CHR ''+'') then tl s1 else s1)"
  have "length s2 \<le> length s" unfolding s2_def s1_def
    using length_dropWhile_le [of isspace s] by auto
  moreover have "digits 10 s2 \<noteq> []" "r = drop (length (digits 10 s2)) s2"
    using r unfolding read_int_def Let_def s1_def [symmetric] s2_def [symmetric] by (auto split: if_splits)
  moreover from this(1) have "s2 \<noteq> []" by (auto simp: digits_def)
  ultimately show ?thesis by (cases "digits 10 s2"; cases s2) auto
qed

function cpuset_loop :: "nat \<Rightarrow> string \<Rightarrow> CpuSet \<Rightarrow> CpuSet cpp" where
  "cpuset_loop hw s cs =
     (case read_int s of
        None \<Rightarrow> Inr cs
      | Some (core, r) \<Rightarrow> (case cpuset_set hw core cs of Inl e \<Rightarrow> Inl e | Inr cs \<Rightarrow> cpuset_loop hw r cs))"
  by pat_completeness auto
termination
  by (relation "measure (\<lambda>(hw, s, cs). length s)") (auto dest: read_int_shorter)

text \<open>\<open>operator >>\<close> for processor sets: the first word, with its commas as blanks.\<close>

definition cpuset_read :: "nat \<Rightarrow> string \<Rightarrow> CpuSet \<Rightarrow> CpuSet cpp" where
  "cpuset_read hw is cs =
     (let fmt = takeWhile (\<lambda>c. \<not> isspace c) (dropWhile isspace is);
          fmt = map (\<lambda>c. if c = CHR '','' then CHR 0x20 else c) fmt in
      cpuset_loop hw fmt cs)"

section \<open>Job preferences\<close>

datatype JobPreference = NoJob | UserJob | BatchJob | AnyJob

definition pref_map :: "(string \<times> JobPreference) list" where
  "pref_map = [(''anyjob'', AnyJob), (''batchjob'', BatchJob), (''nojob'', NoJob), (''userjob'', UserJob)]"

definition fromString :: "string \<Rightarrow> string \<Rightarrow> JobPreference cpp" where
  "fromString pref loc =
     (case map_of pref_map (map to_lower pref) of
        None \<Rightarrow> Inl (''Parse error at '' @ loc @ '' expected a JobPreference(NoJob,UserJob,BatchJob,AnyJob)'')
      | Some p \<Rightarrow> Inr p)"

section \<open>Accelerators and groups\<close>

record AccelConfig =
  acc_name :: string
  acc_conf :: "(string \<times> json) list"
  type_str :: string
  acc_type :: arax_accel_type_e
  affinity :: CpuSet
  arax_accel :: addr
  accelthread :: "nat option"
  acc_group :: nat
  job_preference :: JobPreference
  initial_preference :: JobPreference

record GroupConfig =
  grp_name :: string
  grp_scheduler :: nat
  grp_accelerators :: "(string \<times> nat) list"
  groupId :: int

text \<open>The classes of schedulers the build compiles, by the names they register under.\<close>

datatype scheduler_class = RoundRobinScheduler | HeterogeneousScheduler | ElasticScheduler

definition schedulerFactory :: "(string \<times> scheduler_class) list" where
  "schedulerFactory = [(''ElasticScheduler'', ElasticScheduler), (''HeterogeneousScheduler'', HeterogeneousScheduler),
     (''RoundRobinScheduler'', RoundRobinScheduler)]"

text \<open>\<open>constructType\<close> of the factory for the base class \<open>base\<close>: the registered type \<open>type @ base\<close>, if there is one.\<close>

definition constructType :: "string \<Rightarrow> (string \<times> 'c) list \<Rightarrow> string \<Rightarrow> 'c option" where
  "constructType base prototypes ty = map_of prototypes (ty @ base)"

definition getTypes :: "(string \<times> 'c) list \<Rightarrow> string list" where
  "getTypes prototypes = map fst prototypes"

record config_heap =
  accel_configs :: "AccelConfig list"
  group_configs :: "GroupConfig list"
  scheduler_objs :: "scheduler_class list"
  groupCount :: int

text \<open>What the build and the machine fix: the registered thread classes, the processors, the text of JSON values.\<close>

record config_env =
  threadFactory :: "(string \<times> nat) list"
  hardware_concurrency :: nat
  json_to_str :: "json \<Rightarrow> string"

definition addAccelerator :: "nat \<Rightarrow> nat \<Rightarrow> config_heap \<Rightarrow> config_heap" where
  "addAccelerator gr accel h =
     (let a = accel_configs h ! accel; g = group_configs h ! gr in
      h\<lparr>group_configs := (group_configs h)[gr := g\<lparr>grp_accelerators := map_put (acc_name a) accel (grp_accelerators g)\<rparr>],
        accel_configs := (accel_configs h)[accel := a\<lparr>acc_group := gr\<rparr>]\<rparr>)"

definition countAccelerators :: "nat \<Rightarrow> config_heap \<Rightarrow> nat" where
  "countAccelerators gr h = length (grp_accelerators (group_configs h ! gr))"

definition countAccelerators_pref :: "JobPreference \<Rightarrow> nat \<Rightarrow> config_heap \<Rightarrow> nat" where
  "countAccelerators_pref pref gr h =
     length (filter (\<lambda>(_, a). job_preference (accel_configs h ! a) = pref) (grp_accelerators (group_configs h ! gr)))"

text \<open>
  The constructor of \<open>AccelConfig\<close>: the pointer to the new object. The object is entered in its group before its
  job preference is read. The names of the types in the message lack the suffix \<open>accelThread\<close>.
\<close>

definition new_AccelConfig :: "config_env \<Rightarrow> (string \<times> json) list \<Rightarrow> nat \<Rightarrow> config_heap \<Rightarrow> config_heap cpp" where
  "new_AccelConfig ce conf gr h =
     (let ts = json_to_str ce in
      ebind (jsonGetSafe ts t_string as_string conf ''arch'') (\<lambda>tstr.
      let type = arax_accel_type_from_str (Some tstr);
          default_name = grp_name (group_configs h ! gr) @ '':'' @ tstr @ '':'' @ dec_str (countAccelerators gr h) in
      ebind (jsonGetSafeOptional ts t_string as_string conf ''name'' default_name) (\<lambda>name.
      let a_types = getTypes (threadFactory ce);
          valid_accel_thread = (tstr @ ''accelThread'' \<in> set a_types) in
      if type = ARAX_ACCEL_TYPES \<or> \<not> valid_accel_thread then
        Inl (''Unknown accelerator type '' @ quoted tstr @ '' at accelerator '' @ quoted name @ '' should be:['' @
          join (map (\<lambda>astr. take (length astr - 11) astr) a_types) @ '']'')
      else
        ebind (jsonGetSafeOptional ts t_string as_string conf ''cpu_core'' ''-1'') (\<lambda>aff.
        ebind (cpuset_read (hardware_concurrency ce) aff {}) (\<lambda>cs.
        ebind (jsonGetSafeOptional ts t_string as_string conf ''job_pref'' ''AnyJob'') (\<lambda>job_pref.
        let a = \<lparr>acc_name = name, acc_conf = conf, type_str = tstr, acc_type = type, affinity = cs, arax_accel = 0, accelthread = None,
                 acc_group = gr, job_preference = NoJob, initial_preference = NoJob\<rparr>;
            p = length (accel_configs h);
            h = addAccelerator gr p (h\<lparr>accel_configs := accel_configs h @ [a]\<rparr>) in
        ebind (fromString job_pref name) (\<lambda>pref.
        Inr (h\<lparr>accel_configs := (accel_configs h)[p := (accel_configs h ! p)\<lparr>job_preference := pref, initial_preference := pref\<rparr>]\<rparr>))))))))"

fun add_accels :: "config_env \<Rightarrow> nat \<Rightarrow> nat \<Rightarrow> json list \<Rightarrow> config_heap \<Rightarrow> config_heap cpp" where
  "add_accels ce gr nr [] h = Inr h"
| "add_accels ce gr nr (v # vs) h =
     ebind (rethrow (''While adding accelerator #'' @ dec_str nr @ '' -> '')
       (ebind (jsonCast (json_to_str ce) t_object as_object v) (\<lambda>obj. new_AccelConfig ce obj gr h))) (\<lambda>h.
     add_accels ce gr (Suc nr) vs h)"

text \<open>The constructor of \<open>GroupConfig\<close>; the pointer to the group is its index.\<close>

definition new_GroupConfig :: "config_env \<Rightarrow> string \<Rightarrow> (string \<times> json) list \<Rightarrow> config_heap \<Rightarrow> (nat \<times> config_heap) cpp" where
  "new_GroupConfig ce name conf h =
     (let ts = json_to_str ce; gr = length (group_configs h) in
      ebind (rethrow (''While parsing group '' @ quoted name @ '' -> '')
        (ebind (jsonGetSafeOptional ts t_object as_object conf ''sched'' []) (\<lambda>sched_obj.
         ebind (jsonGetSafeOptional ts t_string as_string sched_obj ''class'' ''RoundRobin'') (\<lambda>sched_class.
         case constructType ''Scheduler'' schedulerFactory sched_class of
           None \<Rightarrow> Inl (''Could not create scheduler of type '' @ quoted sched_class @ '' can be:['' @ join (getTypes schedulerFactory) @ '']'')
         | Some cls \<Rightarrow>
             let h = h\<lparr>scheduler_objs := scheduler_objs h @ [cls],
                       group_configs := group_configs h @ [\<lparr>grp_name = name, grp_scheduler = length (scheduler_objs h),
                         grp_accelerators = [], groupId = 0\<rparr>]\<rparr> in
             ebind (jsonGetSafe ts t_array as_array conf ''accels'') (\<lambda>accel_array.
             if accel_array = [] then Inl ''Groups accels array should not be empty''
             else add_accels ce gr 0 accel_array h))))) (\<lambda>h.
      Inr (gr, h\<lparr>group_configs := (group_configs h)[gr := (group_configs h ! gr)\<lparr>groupId := groupCount h\<rparr>],
                    groupCount := groupCount h + 1\<rparr>)))"

section \<open>The configuration\<close>

record Config =
  clean_shm :: bool
  paths :: "string list"
  accelerators :: "(string \<times> nat) list"
  schedulers :: "(string \<times> nat) list"
  groups :: "(string \<times> nat) list"

fun read_paths :: "(json \<Rightarrow> string) \<Rightarrow> json list \<Rightarrow> string list cpp" where
  "read_paths ts [] = Inr []"
| "read_paths ts (v # vs) =
     ebind (jsonCast ts t_string as_string v) (\<lambda>spath.
     if spath \<noteq> [] \<and> hd spath = CHR ''/'' then Inl (''Only relative paths (not: '' @ quoted (ts v) @ '')'')
     else ebind (read_paths ts vs) (\<lambda>ps. Inr (spath # ps)))"

text \<open>The loop over the groups, \<open>jgroups\<close> the whole object.\<close>

fun read_groups :: "config_env \<Rightarrow> string \<Rightarrow> (string \<times> json) list \<Rightarrow> (string \<times> json) list \<Rightarrow> Config \<times> config_heap \<Rightarrow> (Config \<times> config_heap) cpp" where
  "read_groups ce file jgroups [] (c, h) = Inr (c, h)"
| "read_groups ce file jgroups ((first, _) # gs) (c, h) =
     (if map_of (groups c) first \<noteq> None then Inl (''File '' @ [CHR 0x22] @ file @ [CHR 0x22] @ '' group '' @ quoted first @ '' redeclared'')
      else
        ebind (jsonGetSafe (json_to_str ce) t_object as_object jgroups first) (\<lambda>grp.
        ebind (new_GroupConfig ce first grp h) (\<lambda>(ngc, h).
        let g = group_configs h ! ngc in
        read_groups ce file jgroups gs
          (c\<lparr>schedulers := map_put (grp_name g) (grp_scheduler g) (schedulers c), groups := map_put first ngc (groups c),
             accelerators := fold (\<lambda>(n, a). map_emplace n a) (grp_accelerators g) (accelerators c)\<rparr>, h))))"

text \<open>
  The constructor of \<open>Config\<close>. \<open>parse\<close> answers for the file: \<open>None\<close> when it cannot be read, a message of the
  parser, or the value.
\<close>

definition new_Config :: "config_env \<Rightarrow> (string \<Rightarrow> (string + json) option) \<Rightarrow> string \<Rightarrow> config_heap \<Rightarrow> (Config \<times> config_heap) cpp" where
  "new_Config ce parse file h =
     (let ts = json_to_str ce; qfile = [CHR 0x22] @ file @ [CHR 0x22] in
      case parse file of
        None \<Rightarrow> Inl (''Config file '' @ qfile @ '' could not be read!'')
      | Some (Inl err) \<Rightarrow> Inl (''File '' @ qfile @ '' parse error: '' @ err)
      | Some (Inr v) \<Rightarrow>
          ebind (jsonCast ts t_object as_object v) (\<lambda>conf.
          ebind (jsonGetSafeOptional ts t_bool as_bool conf ''clean_shm'' True) (\<lambda>clean.
          ebind (jsonGetSafeOptional ts t_array as_array conf ''paths'' []) (\<lambda>jpaths.
          ebind (rethrow (''While parsing paths array->'' @ [CHR 0x0A]) (read_paths ts jpaths)) (\<lambda>ps.
          rethrow ''While parsing groups -> ''
            (ebind (jsonCast ts t_object as_object (json_at conf ''groups'')) (\<lambda>jgroups.
             if jgroups = [] then Inl (''File '' @ qfile @ '' groups object should not be empty'')
             else read_groups ce file jgroups jgroups
               (\<lparr>clean_shm = clean, paths = ps, accelerators = [], schedulers = [], groups = []\<rparr>, h))))))))"

definition getAccelerators :: "Config \<Rightarrow> nat list" where
  "getAccelerators c = map snd (accelerators c)"

text \<open>\<open>Config::getAccelerators(arax_accel_type_e)\<close>, pointers into the list \<open>as\<close> of accelerator configurations.\<close>

definition getAccelerators_type :: "AccelConfig list \<Rightarrow> Config \<Rightarrow> arax_accel_type_e \<Rightarrow> nat list" where
  "getAccelerators_type as c ty =
     (if ty \<noteq> ANY then map snd (filter (\<lambda>(_, a). acc_type (as ! a) = ty) (accelerators c)) else map snd (accelerators c))"

definition getSchedulers :: "Config \<Rightarrow> nat list" where
  "getSchedulers c = map snd (schedulers c)"

definition getGroups :: "Config \<Rightarrow> nat list" where
  "getGroups c = map snd (groups c)"

end
