(* ===== verification/Scheduler.thy ===== *)
theory Scheduler
  imports Device Controller_Config
begin

text \<open>
  The scheduling policies of the controller (\<open>controller/src/Schedulers\<close>; the build compiles the three modelled
  here) and the migration of data between accelerators (\<open>controller/src/Core/accelThread.cpp\<close>).

  A policy has two entry points. \<open>assignVac\<close> gives a virtual accelerator without a physical one to an
  accelerator of its type; \<open>selectTask\<close> takes the next task for an accelerator thread out of the queues of the
  virtual accelerators assigned to it. Threads and accelerator configurations are referred to by their indices.

  \<open>assignVac\<close> walks over the vector \<open>getAccelerators\<close> returns with an iterator that is a \<open>static\<close> variable, while the
  vector is a local one. An iterator is the address of an element, and \<open>vec\<close> is the address of the storage of this
  call's vector: elements of earlier vectors are reached only as far as the memory is the same.
\<close>

section \<open>The state\<close>

record Scheduler =
  sch_class :: scheduler_class
  rr_counter :: "nat \<Rightarrow> u32"
  vaq4migration :: addr

record accelThread =
  accelConf :: nat
  readyToServe :: bool
  served_tasks :: u64
  enable_mtx :: bool
  stopExec :: bool
  migrations :: u32
  assignedVACs :: "addr list"
  runningTask :: addr
  initialAvailableSize :: u64
  accelThreadType :: arax_accel_type_e

record controller_s =
  cn_config :: Config
  cn_accels :: "AccelConfig list"
  cn_groups :: "GroupConfig list"
  cn_threads :: "accelThread list"
  cn_schedulers :: "Scheduler list"
  VAQPhys2accelThread :: "addr \<rightharpoonup> nat"
  paccel_rr :: "scheduler_class \<Rightarrow> addr option"

text \<open>
  What the build and the process fix: the option \<open>MIGRATION\<close>, the segment \<open>vpipe_s\<close>, the backend of each thread, and
  the depth of destructors that is followed.
\<close>

record controller_env =
  arax :: arax_env
  fuel :: nat
  MIGRATION :: bool
  vpipe_s :: addr
  backend :: "nat \<Rightarrow> deviceBaseOps"

section \<open>Migration\<close>

text \<open>\<open>unordered_map::at\<close> throws for an accelerator no thread has registered.\<close>

definition getVAQPhys2accelThread :: "(addr \<rightharpoonup> nat) \<Rightarrow> addr \<Rightarrow> nat option res" where
  "getVAQPhys2accelThread m phys =
     (if phys = 0 then Ok None
      else case m phys of None \<Rightarrow> Fault (Uncaught ''std::out_of_range'') | Some th \<Rightarrow> Ok (Some th))"

text \<open>\<open>insert\<close> keeps the entry an accelerator has.\<close>

definition addVAQPhys2accelThread :: "nat \<Rightarrow> addr \<Rightarrow> (addr \<rightharpoonup> nat) \<Rightarrow> (addr \<rightharpoonup> nat)" where
  "addVAQPhys2accelThread th phys m = (case m phys of None \<Rightarrow> m(phys \<mapsto> th) | Some _ \<Rightarrow> m)"

fun migrate_to_loop :: "(nat \<Rightarrow> deviceBaseOps) \<Rightarrow> (addr \<rightharpoonup> nat) \<Rightarrow> nat \<Rightarrow> addr list \<Rightarrow> arax_pipe_s \<Rightarrow> arax_pipe_s res" where
  "migrate_to_loop be m th [] s = Ok s"
| "migrate_to_loop be m th (data # ds) s =
     rbind (get_data data s) (\<lambda>d.
     rbind (getVAQPhys2accelThread m (da_phys d)) (\<lambda>tmp.
     rbind (if tmp \<noteq> Some th then rbind (alloc_remote (be th) data s) (sync_to_remote (be th) data)
            else if tmp = None then alloc_remote (be th) data s
            else Ok s) (\<lambda>s.
     migrate_to_loop be m th ds s)))"

definition migrateToRemote :: "controller_env \<Rightarrow> (addr \<rightharpoonup> nat) \<Rightarrow> nat \<Rightarrow> addr \<Rightarrow> arax_pipe_s \<Rightarrow> arax_pipe_s res" where
  "migrateToRemote ce m th task s =
     (if MIGRATION ce then rbind (get_task task s) (\<lambda>t. migrate_to_loop (backend ce) m th (task_args t) s) else Ok s)"

fun migrate_from_loop :: "(nat \<Rightarrow> deviceBaseOps) \<Rightarrow> (addr \<rightharpoonup> nat) \<Rightarrow> nat \<Rightarrow> addr list \<Rightarrow> arax_pipe_s \<Rightarrow> arax_pipe_s res" where
  "migrate_from_loop be m th [] s = Ok s"
| "migrate_from_loop be m th (data # ds) s =
     rbind (get_data data s) (\<lambda>d.
     rbind (getVAQPhys2accelThread m (da_phys d)) (\<lambda>oldTh.
     rbind (case oldTh of
              None \<Rightarrow> Ok s
            | Some old \<Rightarrow> if old \<noteq> th then rbind (sync_from_remote (be old) data s) (free_remote (be old) data) else Ok s) (\<lambda>s.
     migrate_from_loop be m th ds s)))"

definition migrateFromRemote :: "controller_env \<Rightarrow> (addr \<rightharpoonup> nat) \<Rightarrow> nat \<Rightarrow> addr \<Rightarrow> arax_pipe_s \<Rightarrow> arax_pipe_s res" where
  "migrateFromRemote ce m th task s =
     (if MIGRATION ce then rbind (get_task task s) (\<lambda>t. migrate_from_loop (backend ce) m th (task_args t) s) else Ok s)"

definition migrate_task :: "controller_env \<Rightarrow> (addr \<rightharpoonup> nat) \<Rightarrow> nat \<Rightarrow> addr \<Rightarrow> arax_pipe_s \<Rightarrow> arax_pipe_s res" where
  "migrate_task ce m th task s = rbind (migrateFromRemote ce m th task s) (migrateToRemote ce m th task)"

section \<open>Selecting a task\<close>

text \<open>
  The two loops every policy has: \<open>scan\<close> walks a part of the vector whose first element has the index it is given,
  and returns the task it found, or null, with the index. \<open>cnt\<close> is \<open>rr_counter[th]\<close>, an \<open>int\<close>.
\<close>

type_synonym scan_fn = "addr list \<Rightarrow> nat \<Rightarrow> arax_pipe_s \<Rightarrow> ((addr \<times> nat) \<times> arax_pipe_s) res"

definition rr_offset :: "addr list \<Rightarrow> u32 \<Rightarrow> nat" where
  "rr_offset VACs cnt = unat (scast (cnt + 1) :: u64) mod length VACs"

definition rr_loops :: "scan_fn \<Rightarrow> addr list \<Rightarrow> u32 \<Rightarrow> arax_pipe_s \<Rightarrow> ((addr \<times> u32) \<times> arax_pipe_s) res" where
  "rr_loops scan VACs cnt s =
     (if length VACs = 0 then Ok ((0, cnt), s)
      else
        let off = rr_offset VACs cnt in
        rbind (scan (drop off VACs) off s) (\<lambda>((task, itr), s).
        if task \<noteq> 0 then Ok ((task, of_nat itr), s)
        else
          rbind (scan (take off VACs) 0 s) (\<lambda>((task, itr), s).
          if task \<noteq> 0 then Ok ((task, of_nat itr), s) else Ok ((0, cnt), s))))"

text \<open>
  The loop of \<open>RoundRobinScheduler\<close> and \<open>ElasticScheduler\<close>: pop until there is a task. \<open>found\<close> is what happens to
  the task before it is returned.
\<close>

fun pop_scan :: "arax_env \<Rightarrow> (addr \<Rightarrow> addr \<Rightarrow> arax_pipe_s \<Rightarrow> arax_pipe_s res) \<Rightarrow> scan_fn" where
  "pop_scan env found [] i s = Ok ((0, i), s)"
| "pop_scan env found (v # vs) i s =
     rbind (get_vaccel v s) (\<lambda>va.
     let (task, q) = utils_queue_pop (queue_capacity env) (va_queue va);
         s = set_body v (Vaccel (va\<lparr>va_queue := q\<rparr>)) s in
     if task \<noteq> 0 then rbind (found v task s) (\<lambda>s. Ok ((task, i), s))
     else pop_scan env found vs (Suc i) s)"

definition RoundRobin_selectTask :: "arax_env \<Rightarrow> addr list \<Rightarrow> u32 \<Rightarrow> arax_pipe_s \<Rightarrow> ((addr \<times> u32) \<times> arax_pipe_s) res" where
  "RoundRobin_selectTask env VACs cnt s = rr_loops (pop_scan env (\<lambda>_ _. Ok)) VACs cnt s"

definition Elastic_selectTask ::
  "controller_env \<Rightarrow> (addr \<rightharpoonup> nat) \<Rightarrow> nat \<Rightarrow> addr \<Rightarrow> addr list \<Rightarrow> u32 \<Rightarrow> arax_pipe_s \<Rightarrow> ((addr \<times> u32) \<times> arax_pipe_s) res" where
  "Elastic_selectTask ce m th vaq4mig VACs cnt s =
     rr_loops (pop_scan (arax ce) (\<lambda>itr task s. if itr = vaq4mig then migrate_task ce m th task s else Ok s)) VACs cnt s"

text \<open>\<open>RT\<close>: the next task can run on the accelerator, \<open>NRT\<close> (\<open>T\<close> in the source): it can not, \<open>NT\<close>: there is none.\<close>

datatype State = RT | NRT | NT

definition checkForRunnableTask :: "arax_env \<Rightarrow> addr \<Rightarrow> addr \<Rightarrow> arax_pipe_s \<Rightarrow> State res" where
  "checkForRunnableTask env accel vaq s =
     rbind (get_accel accel s) (\<lambda>a.
     rbind (arax_vaccel_queue vaq s) (\<lambda>q.
     let task = utils_queue_peek (queue_capacity env) q in
     if task = 0 then Ok NT
     else
       rbind (get_task task s) (\<lambda>t.
       rbind (get_proc (ta_proc t) s) (\<lambda>_.
       rbind (arax_proc_can_run_at (ta_proc t) (ac_type a) s) (\<lambda>runnable.
       if \<not> runnable then Ok NRT else Ok RT)))))"

fun het_scan :: "controller_env \<Rightarrow> (addr \<rightharpoonup> nat) \<Rightarrow> nat \<Rightarrow> addr \<Rightarrow> scan_fn" where
  "het_scan ce m th accel [] i s = Ok ((0, i), s)"
| "het_scan ce m th accel (v # vs) i s =
     rbind (checkForRunnableTask (arax ce) accel v s) (\<lambda>st.
     if st = RT then
       rbind (get_vaccel v s) (\<lambda>va.
       let (task, q) = utils_queue_pop (queue_capacity (arax ce)) (va_queue va);
           s = set_body v (Vaccel (va\<lparr>va_queue := q\<rparr>)) s in
       rbind (arax_assert (task \<noteq> 0) ''task'') (\<lambda>_.
       rbind (migrate_task ce m th task s) (\<lambda>s. Ok ((task, i), s))))
     else if st = NRT then
       rbind (get_vaccel v s) (\<lambda>va.
       rbind (arax_accel_del_vaccel (va_phys va) v s) (\<lambda>s.
       rbind (arax_pipe_add_orphan_vaccel v s) (\<lambda>s.
       het_scan ce m th accel vs (Suc i) s)))
     else het_scan ce m th accel vs (Suc i) s)"

definition Heterogeneous_selectTask ::
  "controller_env \<Rightarrow> (addr \<rightharpoonup> nat) \<Rightarrow> nat \<Rightarrow> addr \<Rightarrow> addr list \<Rightarrow> u32 \<Rightarrow> arax_pipe_s \<Rightarrow> ((addr \<times> u32) \<times> arax_pipe_s) res" where
  "Heterogeneous_selectTask ce m th accel VACs cnt s = rr_loops (het_scan ce m th accel) VACs cnt s"

text \<open>\<open>selectedScheduler->selectTask(th)\<close>: the virtual call for the thread \<open>th\<close> and the scheduler \<open>sc\<close>.\<close>

definition selectTask :: "controller_env \<Rightarrow> nat \<Rightarrow> nat \<Rightarrow> controller_s \<Rightarrow> arax_pipe_s \<Rightarrow> ((addr \<times> controller_s) \<times> arax_pipe_s) res" where
  "selectTask ce sc th c s =
     (let S = cn_schedulers c ! sc; t = cn_threads c ! th; VACs = assignedVACs t; cnt = rr_counter S th;
          m = VAQPhys2accelThread c; accel = arax_accel (cn_accels c ! accelConf t) in
      rbind (case sch_class S of
               RoundRobinScheduler \<Rightarrow> RoundRobin_selectTask (arax ce) VACs cnt s
             | HeterogeneousScheduler \<Rightarrow> Heterogeneous_selectTask ce m th accel VACs cnt s
             | ElasticScheduler \<Rightarrow> Elastic_selectTask ce m th (vaq4migration S) VACs cnt s) (\<lambda>((task, cnt), s).
      let t = (if sch_class S = HeterogeneousScheduler \<and> task \<noteq> 0 then t\<lparr>migrations := migrations t + 1\<rparr> else t) in
      Ok ((task, c\<lparr>cn_schedulers := (cn_schedulers c)[sc := S\<lparr>rr_counter := (rr_counter S)(th := cnt)\<rparr>],
                   cn_threads := (cn_threads c)[th := t]\<rparr>), s)))"

section \<open>Assigning virtual accelerators\<close>

text \<open>Dereferencing an iterator of the vector of \<open>n\<close> pointers stored at \<open>vec\<close>.\<close>

definition iter_end :: "addr \<Rightarrow> nat \<Rightarrow> addr" where
  "iter_end vec n = vec + 8 * of_nat n"

definition iter_deref :: "addr \<Rightarrow> 'a list \<Rightarrow> addr \<Rightarrow> 'a res" where
  "iter_deref vec xs it =
     (case find (\<lambda>i. it = vec + 8 * of_nat i) [0..<length xs] of
        None \<Rightarrow> Fault (Bad_access ''*paccel_rr'') | Some i \<Rightarrow> Ok (xs ! i))"

text \<open>The static variable: its first value is \<open>begin()\<close>; at the end it starts over.\<close>

definition iter_current :: "addr \<Rightarrow> nat \<Rightarrow> addr option \<Rightarrow> addr" where
  "iter_current vec n it = (case it of None \<Rightarrow> vec | Some p \<Rightarrow> if p = iter_end vec n then vec else p)"

definition RoundRobin_assignVac ::
  "addr \<Rightarrow> AccelConfig list \<Rightarrow> addr option \<Rightarrow> addr \<Rightarrow> arax_pipe_s \<Rightarrow> (addr option \<times> arax_pipe_s) res" where
  "RoundRobin_assignVac vec accelsOfAType it vac s =
     (let it = iter_current vec (length accelsOfAType) it in
      rbind (iter_deref vec accelsOfAType it) (\<lambda>a.
      rbind (arax_accel_add_vaccel (arax_accel a) vac s) (\<lambda>s.
      Ok (Some (it + 8), s))))"

text \<open>The loop of \<open>HeterogeneousScheduler::assignVac\<close>, \<open>k\<close> rounds to go.\<close>

fun het_assign_loop ::
  "arax_env \<Rightarrow> nat \<Rightarrow> addr \<Rightarrow> AccelConfig list \<Rightarrow> addr option \<Rightarrow> addr \<Rightarrow> arax_pipe_s \<Rightarrow> (addr option \<times> arax_pipe_s) res" where
  "het_assign_loop env 0 vec as it vac s = Fault (Assert_failed ''NO Assignment!!! '')"
| "het_assign_loop env (Suc k) vec as it vac s =
     (let it = iter_current vec (length as) it in
      rbind (iter_deref vec as it) (\<lambda>a.
      rbind (checkForRunnableTask env (arax_accel a) vac s) (\<lambda>task_state.
      case task_state of
        RT \<Rightarrow> rbind (arax_accel_add_vaccel (arax_accel a) vac s) (\<lambda>s. Ok (Some it, s))
      | NRT \<Rightarrow> het_assign_loop env k vec as (Some (it + 8)) vac s
      | NT \<Rightarrow> rbind (arax_accel_add_vaccel (arax_accel a) vac s) (\<lambda>s. Ok (Some it, s)))))"

definition Heterogeneous_assignVac ::
  "arax_env \<Rightarrow> addr \<Rightarrow> AccelConfig list \<Rightarrow> addr option \<Rightarrow> addr \<Rightarrow> arax_pipe_s \<Rightarrow> (addr option \<times> arax_pipe_s) res" where
  "Heterogeneous_assignVac env vec as it vac s = het_assign_loop env (length as) vec as it vac s"

text \<open>
  The search of \<open>ElasticScheduler::assignVac\<close> for a virtual accelerator to move away: the first that is not the
  accelerators' own queue for frees.
\<close>

fun elastic_move :: "addr \<Rightarrow> addr \<Rightarrow> addr list \<Rightarrow> addr \<Rightarrow> arax_pipe_s \<Rightarrow> (addr \<times> arax_pipe_s) res" where
  "elastic_move from to [] vaq s = Ok (vaq, s)"
| "elastic_move from to (mig # vs) vaq s =
     rbind (get_accel to s) (\<lambda>t.
     rbind (get_accel from s) (\<lambda>f.
     if mig \<noteq> free_vaq t \<and> mig \<noteq> free_vaq f then
       rbind (arax_accel_del_vaccel from mig s) (\<lambda>s.
       rbind (arax_accel_add_vaccel to mig s) (\<lambda>s. Ok (mig, s)))
     else elastic_move from to vs vaq s))"

text \<open>\<open>assigned\<close> are the virtual accelerators of the thread of an accelerator, \<open>None\<close> if it has no thread.\<close>

definition Elastic_assignVac ::
  "(nat \<Rightarrow> addr list) \<Rightarrow> addr \<Rightarrow> AccelConfig list \<Rightarrow> addr option \<times> addr \<Rightarrow> addr \<Rightarrow> arax_pipe_s \<Rightarrow>
     ((addr option \<times> addr) \<times> arax_pipe_s) res" where
  "Elastic_assignVac assigned vec as = (\<lambda>(it, vaq) vac s.
     let it = iter_current vec (length as) it in
     rbind (iter_deref vec as it) (\<lambda>a.
     case accelthread a of
       None \<Rightarrow> Fault (Bad_access ''th->getAssignedVACs()'')
     | Some th \<Rightarrow>
         let VACs = assigned th in
         if length VACs \<noteq> 0 then
           let tmpAccel = (if it + 8 = iter_end vec (length as) then vec else it + 8) in
           rbind (iter_deref vec as tmpAccel) (\<lambda>b.
           rbind (elastic_move (arax_accel a) (arax_accel b) VACs vaq s) (\<lambda>(vaq, s).
           rbind (arax_accel_add_vaccel (arax_accel a) vac s) (\<lambda>s.
           Ok ((Some (it + 8), vaq), s))))
         else
           rbind (arax_accel_add_vaccel (arax_accel a) vac s) (\<lambda>s.
           Ok ((Some (it + 8), vaq), s))))"

text \<open>\<open>assignVac(vac)\<close> of the scheduler \<open>sc\<close>.\<close>

definition assignVac :: "controller_env \<Rightarrow> addr \<Rightarrow> nat \<Rightarrow> addr \<Rightarrow> controller_s \<Rightarrow> arax_pipe_s \<Rightarrow> (controller_s \<times> arax_pipe_s) res" where
  "assignVac ce vec sc vac c s =
     rbind (get_vaccel vac s) (\<lambda>v.
     let S = cn_schedulers c ! sc; cls = sch_class S; it = paccel_rr c cls;
         as = map ((!) (cn_accels c)) (getAccelerators_type (cn_accels c) (cn_config c) (va_type v)) in
     rbind (case cls of
              RoundRobinScheduler \<Rightarrow> rbind (RoundRobin_assignVac vec as it vac s) (\<lambda>(it, s). Ok ((it, vaq4migration S), s))
            | HeterogeneousScheduler \<Rightarrow> rbind (Heterogeneous_assignVac (arax ce) vec as it vac s) (\<lambda>(it, s). Ok ((it, vaq4migration S), s))
            | ElasticScheduler \<Rightarrow> Elastic_assignVac (\<lambda>th. assignedVACs (cn_threads c ! th)) vec as (it, vaq4migration S) vac s) (\<lambda>((it, vaq), s).
     Ok (c\<lparr>paccel_rr := (paccel_rr c)(cls := it), cn_schedulers := (cn_schedulers c)[sc := S\<lparr>vaq4migration := vaq\<rparr>]\<rparr>, s)))"

end
