(* ===== verification/Scheduling.thy ===== *)
theory Scheduling
  imports Scheduler
begin

text \<open>
  What the scheduling policies of theory \<open>Scheduler\<close> achieve: the order in which tasks are taken, that no queue
  waits for ever, on which accelerators virtual accelerators end up, and that they touch the segment through the
  library only.
\<close>

section \<open>Taking the next task\<close>

text \<open>The tasks that wait in a virtual accelerator, oldest first.\<close>

definition vac_tasks :: "arax_env \<Rightarrow> addr \<Rightarrow> arax_pipe_s \<Rightarrow> addr list" where
  "vac_tasks env v s = (case get_vaccel v s of Ok va \<Rightarrow> q_contents (queue_capacity env) (va_queue va) | Fault _ \<Rightarrow> [])"

definition vac_ok :: "arax_env \<Rightarrow> arax_pipe_s \<Rightarrow> addr \<Rightarrow> bool" where
  "vac_ok env s v = (case get_vaccel v s of Ok va \<Rightarrow> q_inv (queue_capacity env) (va_queue va) | Fault _ \<Rightarrow> False)"

text \<open>The segment without the oldest task of a virtual accelerator.\<close>

definition vac_pop :: "arax_env \<Rightarrow> addr \<Rightarrow> arax_pipe_s \<Rightarrow> arax_pipe_s" where
  "vac_pop env v s =
     (case get_vaccel v s of
        Ok va \<Rightarrow> set_body v (Vaccel (va\<lparr>va_queue := snd (utils_queue_pop (queue_capacity env) (va_queue va))\<rparr>)) s
      | Fault _ \<Rightarrow> s)"

lemma set_same_body: "get_vaccel v s = Ok va \<Longrightarrow> set_body v (Vaccel va) s = s"
  by (cases s) (auto simp: set_body_def res_simps fun_upd_idem)

lemma pop_cases:
  assumes c: "good_capacity (queue_capacity env)" and v: "vac_ok env s v"
  obtains va where "get_vaccel v s = Ok va" "vac_tasks env v s = []" "utils_queue_pop (queue_capacity env) (va_queue va) = (0, va_queue va)"
  | va t ts q where "get_vaccel v s = Ok va" "vac_tasks env v s = t # ts" "t \<noteq> 0" "q_inv (queue_capacity env) q"
      "q_contents (queue_capacity env) q = ts" "utils_queue_pop (queue_capacity env) (va_queue va) = (t, q)"
proof -
  from v obtain va where va: "get_vaccel v s = Ok va" "q_inv (queue_capacity env) (va_queue va)"
    by (auto simp: vac_ok_def split: res.splits)
  show ?thesis
  proof (cases "q_contents (queue_capacity env) (va_queue va)")
    case Nil
    then show ?thesis using that(1) [OF va(1)] va utils_queue_reads [OF c va(2)] by (simp add: vac_tasks_def)
  next
    case (Cons t ts)
    from utils_queue_pop_ok [OF c va(2) Cons] obtain q where
      "utils_queue_pop (queue_capacity env) (va_queue va) = (t, q)" "q_inv (queue_capacity env) q" "q_contents (queue_capacity env) q = ts" by blast
    moreover have "t \<noteq> 0" using va(2) Cons by (auto simp: q_inv_def q_rep_def)
    ultimately show ?thesis using that(2) [OF va(1)] va Cons by (simp add: vac_tasks_def)
  qed
qed

lemma vac_pop_tasks:
  assumes c: "good_capacity (queue_capacity env)" and v: "vac_ok env s v" and "vac_ok env s w"
  shows "vac_tasks env w (vac_pop env v s) = (if w = v then tl (vac_tasks env v s) else vac_tasks env w s)"
    and "vac_ok env (vac_pop env v s) w"
proof -
  have other: "get_vaccel w (set_body v b s) = get_vaccel w s" if "w \<noteq> v" for b
    using that by (simp add: get_vaccel_def set_body_def)
  have same: "get_vaccel v (set_body v (Vaccel x) s) = Ok x" for x
    using v by (auto simp: vac_ok_def get_vaccel_def set_body_def split: option.splits arax_body.splits)
  show "vac_tasks env w (vac_pop env v s) = (if w = v then tl (vac_tasks env v s) else vac_tasks env w s)"
    by (rule pop_cases [OF c v]; cases "w = v") (simp_all add: vac_pop_def vac_tasks_def same other)
  show "vac_ok env (vac_pop env v s) w"
    by (rule pop_cases [OF c v]; cases "w = v") (use assms(2,3) in \<open>simp_all add: vac_pop_def vac_ok_def same other\<close>)
qed

text \<open>The position of the first virtual accelerator of a list with a task.\<close>

fun first_busy :: "arax_env \<Rightarrow> arax_pipe_s \<Rightarrow> addr list \<Rightarrow> nat option" where
  "first_busy env s [] = None"
| "first_busy env s (v # vs) = (if vac_tasks env v s \<noteq> [] then Some 0 else map_option Suc (first_busy env s vs))"

lemma first_busy_append:
  "first_busy env s (xs @ ys) =
     (case first_busy env s xs of Some k \<Rightarrow> Some k | None \<Rightarrow> map_option ((+) (length xs)) (first_busy env s ys))"
proof (induction xs)
  case Nil
  have "(+) (0 :: nat) = id" by auto
  then show ?case by (simp add: option.map_id)
next
  case (Cons x xs)
  then show ?case by (auto simp: option.map_comp comp_def fun_eq_iff split: option.splits intro!: option.map_cong)
qed

lemma first_busy_Some:
  "first_busy env s vs = Some k \<Longrightarrow> k < length vs \<and> vac_tasks env (vs ! k) s \<noteq> [] \<and> (\<forall>i<k. vac_tasks env (vs ! i) s = [])"
  by (induction vs arbitrary: k) (auto split: if_splits simp: less_Suc_eq_0_disj)

lemma first_busy_None: "first_busy env s vs = None \<longleftrightarrow> (\<forall>v\<in>set vs. vac_tasks env v s = [])"
  by (induction vs) auto

lemma pop_scan_spec:
  assumes c: "good_capacity (queue_capacity env)" and "\<forall>v\<in>set vs. vac_ok env s v"
  shows "pop_scan env found vs i s =
    (case first_busy env s vs of
       None \<Rightarrow> Ok ((0, i + length vs), s)
     | Some k \<Rightarrow> rbind (found (vs ! k) (hd (vac_tasks env (vs ! k) s)) (vac_pop env (vs ! k) s))
         (\<lambda>s'. Ok ((hd (vac_tasks env (vs ! k) s), i + k), s')))"
  using assms(2)
proof (induction vs arbitrary: i)
  case (Cons v vs)
  then have v: "vac_ok env s v" and IH: "\<And>i. pop_scan env found vs i s =
    (case first_busy env s vs of
       None \<Rightarrow> Ok ((0, i + length vs), s)
     | Some k \<Rightarrow> rbind (found (vs ! k) (hd (vac_tasks env (vs ! k) s)) (vac_pop env (vs ! k) s))
         (\<lambda>s'. Ok ((hd (vac_tasks env (vs ! k) s), i + k), s')))" by auto
  show ?case
  proof (rule pop_cases [OF c v])
    fix va
    assume "get_vaccel v s = Ok va" "vac_tasks env v s = []" "utils_queue_pop (queue_capacity env) (va_queue va) = (0, va_queue va)"
    then show ?thesis by (simp add: set_same_body IH split: option.split)
  next
    fix va t ts q
    assume "get_vaccel v s = Ok va" "vac_tasks env v s = t # ts" "t \<noteq> 0"
      "utils_queue_pop (queue_capacity env) (va_queue va) = (t, q)"
    then show ?thesis by (simp add: vac_pop_def)
  qed
qed simp

section \<open>Round robin\<close>

text \<open>The counter of a thread is the index of the virtual accelerator it served last, far below \<open>2 ^ 31\<close>.\<close>

lemma rr_offset_Suc:
  assumes "unat cnt < 2 ^ 31 - 1"
  shows "rr_offset VACs cnt = Suc (unat cnt) mod length VACs"
proof -
  have "unat (cnt + 1) = Suc (unat cnt)" using assms by (simp add: unat_word_ariths)
  then have "uint (cnt + 1) = int (Suc (unat cnt))" by (simp only: uint_nat)
  moreover have "int (unat cnt) < 2147483647" using assms by (simp only: of_nat_less_numeral_iff) simp
  ultimately have "sint (cnt + 1) = int (Suc (unat cnt))"
    using signed_take_bit_int_eq_self [of 31 "int (Suc (unat cnt))"] by (simp only: sint_uint) simp
  then have "(scast (cnt + 1) :: u64) = of_nat (Suc (unat cnt))" by (simp only: scast_eq) simp
  then have "unat (scast (cnt + 1) :: u64) = Suc (unat cnt)" using assms by (simp only: unat_of_nat) simp
  then show ?thesis by (simp add: rr_offset_def)
qed

lemma rr_loops_pop:
  assumes c: "good_capacity (queue_capacity env)" and ok: "\<forall>v\<in>set VACs. vac_ok env s v" and ne: "VACs \<noteq> []"
  shows "rr_loops (pop_scan env found) VACs cnt s =
    (let off = rr_offset VACs cnt in
     case first_busy env s (rotate off VACs) of
       None \<Rightarrow> Ok ((0, cnt), s)
     | Some k \<Rightarrow> let i = (off + k) mod length VACs; t = hd (vac_tasks env (VACs ! i) s) in
         rbind (found (VACs ! i) t (vac_pop env (VACs ! i) s)) (\<lambda>s'. Ok ((t, of_nat i), s')))"
proof -
  define off n where "off = rr_offset VACs cnt" and "n = length VACs"
  have off: "off < n" using ne by (simp add: off_def n_def rr_offset_def)
  have rot: "rotate off VACs = drop off VACs @ take off VACs" using off by (simp add: rotate_drop_take n_def)
  have task0: "hd (vac_tasks env v s) \<noteq> 0" if "vac_ok env s v" "vac_tasks env v s \<noteq> []" for v
    by (rule pop_cases [OF c that(1)]) (use that(2) in auto)
  have ok1: "\<forall>v\<in>set (drop off VACs). vac_ok env s v" and ok2: "\<forall>v\<in>set (take off VACs). vac_ok env s v"
    using ok by (auto dest: in_set_dropD in_set_takeD)
  show ?thesis
  proof (cases "first_busy env s (drop off VACs)")
    case (Some k)
    then have k: "k < n - off" "vac_tasks env (VACs ! (off + k)) s \<noteq> []" using first_busy_Some [OF Some] by (auto simp: n_def)
    then have "hd (vac_tasks env (VACs ! (off + k)) s) \<noteq> 0" using ok by (intro task0) (auto simp: n_def)
    moreover have "(off + k) mod n = off + k" using k by simp
    ultimately show ?thesis using ne k Some
      unfolding rr_loops_def Let_def off_def [symmetric] rot first_busy_append pop_scan_spec [OF c ok1]
      by (simp add: n_def [symmetric] rbind_assoc)
        (cases "found (VACs ! (off + k)) (hd (vac_tasks env (VACs ! (off + k)) s)) (vac_pop env (VACs ! (off + k)) s)"; simp add: n_def)
  next
    case None
    show ?thesis
    proof (cases "first_busy env s (take off VACs)")
      case (Some k)
      then have k: "k < off" "vac_tasks env (VACs ! k) s \<noteq> []" using first_busy_Some [OF Some] off by (auto simp: n_def)
      then have "hd (vac_tasks env (VACs ! k) s) \<noteq> 0" using ok off by (intro task0) (auto simp: n_def)
      moreover have "(off + (n - off + k)) mod n = k" using k off by simp
      ultimately show ?thesis using ne k off None Some
        unfolding rr_loops_def Let_def off_def [symmetric] rot first_busy_append pop_scan_spec [OF c ok1] pop_scan_spec [OF c ok2]
        by (simp add: n_def [symmetric] pop_scan_spec [OF c ok2])
          (cases "found (VACs ! k) (hd (vac_tasks env (VACs ! k) s)) (vac_pop env (VACs ! k) s)"; simp add: n_def)
    next
      case none: None
      show ?thesis using ne None none
        unfolding rr_loops_def Let_def off_def [symmetric] rot first_busy_append pop_scan_spec [OF c ok1] pop_scan_spec [OF c ok2]
        by (simp add: pop_scan_spec [OF c ok2])
    qed
  qed
qed

text \<open>The policy as a whole: the oldest task of the first busy queue behind the one served last.\<close>

lemma RoundRobin_selectTask_spec:
  assumes "good_capacity (queue_capacity env)" and "\<forall>v\<in>set VACs. vac_ok env s v" and "VACs \<noteq> []"
  shows "RoundRobin_selectTask env VACs cnt s =
    (let off = rr_offset VACs cnt in
     case first_busy env s (rotate off VACs) of
       None \<Rightarrow> Ok ((0, cnt), s)
     | Some k \<Rightarrow> let i = (off + k) mod length VACs in
         Ok ((hd (vac_tasks env (VACs ! i) s), of_nat i), vac_pop env (VACs ! i) s))"
  unfolding RoundRobin_selectTask_def rr_loops_pop [OF assms] by (simp add: Let_def split: option.split)

text \<open>The selections of a thread one after the other, each on the segment as it is by then.\<close>

fun select_rounds :: "arax_env \<Rightarrow> addr list \<Rightarrow> u32 \<Rightarrow> arax_pipe_s list \<Rightarrow> (addr \<times> u32) list" where
  "select_rounds env VACs cnt [] = []"
| "select_rounds env VACs cnt (s # ss) =
     (case RoundRobin_selectTask env VACs cnt s of
        Ok ((task, cnt), _) \<Rightarrow> (task, cnt) # select_rounds env VACs cnt ss
      | Fault _ \<Rightarrow> [])"

text \<open>How many virtual accelerators come before the index \<open>j\<close> in the next selection.\<close>

definition rr_distance :: "nat \<Rightarrow> nat \<Rightarrow> nat \<Rightarrow> nat" where
  "rr_distance n off j = (j + n - off) mod n"

lemma rr_distance_nth: "off < n \<Longrightarrow> j < n \<Longrightarrow> (off + rr_distance n off j) mod n = j"
  by (simp add: rr_distance_def mod_add_right_eq)

lemma rr_distance_less: "0 < n \<Longrightarrow> rr_distance n off j < n"
  by (simp add: rr_distance_def)

lemma rr_distance_step:
  assumes "off < n" "j < n" "k < rr_distance n off j"
  shows "rr_distance n (Suc ((off + k) mod n) mod n) j < rr_distance n off j"
proof -
  have eq: "rr_distance n x j = (if x \<le> j then j - x else j + n - x)" if "x < n" for x
    using that assms(2) by (auto simp: rr_distance_def mod_if)
  define i where "i = (off + k) mod n"
  have i: "i = (if off + k < n then off + k else off + k - n)" "i < n"
    using assms rr_distance_less [of n off j] by (auto simp: i_def mod_if)
  have "Suc i mod n = (if Suc i = n then 0 else Suc i)" using i(2) by auto
  moreover have "Suc i mod n < n" using assms(1) by simp
  ultimately show ?thesis unfolding i_def [symmetric] using eq [of "Suc i mod n"] eq [OF assms(1)] i assms
    by (simp split: if_splits)
qed

lemma rr_round:
  assumes c: "good_capacity (queue_capacity env)" and ok: "\<forall>v\<in>set VACs. vac_ok env s v" and n: "length VACs < 2 ^ 31 - 1"
    and cnt: "unat cnt < length VACs" and j: "j < length VACs" "vac_tasks env (VACs ! j) s \<noteq> []"
  obtains i where "i < length VACs"
    "RoundRobin_selectTask env VACs cnt s = Ok ((hd (vac_tasks env (VACs ! i) s), of_nat i), vac_pop env (VACs ! i) s)"
    "i = j \<or> rr_distance (length VACs) (Suc i mod length VACs) j < rr_distance (length VACs) (Suc (unat cnt) mod length VACs) j"
proof -
  define m where "m = length VACs"
  define off where "off = Suc (unat cnt) mod m"
  have ne: "VACs \<noteq> []" and m: "0 < m" using j by (auto simp: m_def)
  then have off: "off < m" by (simp add: off_def m_def)
  have rro: "rr_offset VACs cnt = off" using n cnt rr_offset_Suc [of cnt VACs] by (simp add: off_def m_def)
  let ?d = "rr_distance m off j"
  have d: "?d < m" "rotate off VACs ! ?d = VACs ! j"
    using rr_distance_less [OF m, of off j] rr_distance_nth [OF off, of j] m j by (simp_all add: m_def nth_rotate)
  have "first_busy env s (rotate off VACs) \<noteq> None" using j unfolding first_busy_None by auto
  then obtain k where k: "first_busy env s (rotate off VACs) = Some k" by blast
  note kb = first_busy_Some [OF k]
  have "k \<le> ?d" using kb j(2) d by (metis not_less)
  let ?i = "(off + k) mod m"
  have i: "?i < m" using off by simp
  have "?i = j \<or> rr_distance m (Suc ?i mod m) j < ?d"
  proof (cases "k = ?d")
    case True
    then show ?thesis using rr_distance_nth [OF off] j by (simp add: m_def)
  next
    case False
    then show ?thesis using rr_distance_step [OF off, of j k] \<open>k \<le> ?d\<close> j by (simp add: m_def)
  qed
  then show ?thesis using that [of ?i] i k RoundRobin_selectTask_spec [OF c ok ne, of cnt]
    by (simp add: rro m_def [symmetric] off_def [symmetric] Let_def)
qed

lemma rr_fair_rounds:
  assumes "good_capacity (queue_capacity env)" and "length VACs < 2 ^ 31 - 1" and "j < length VACs"
    and "\<forall>s\<in>set ss. (\<forall>v\<in>set VACs. vac_ok env s v) \<and> vac_tasks env (VACs ! j) s \<noteq> []"
    and "unat cnt < length VACs" and "rr_distance (length VACs) (Suc (unat cnt) mod length VACs) j < length ss"
  shows "\<exists>k\<le>rr_distance (length VACs) (Suc (unat cnt) mod length VACs) j.
    k < length (select_rounds env VACs cnt ss) \<and>
    select_rounds env VACs cnt ss ! k = (hd (vac_tasks env (VACs ! j) (ss ! k)), of_nat j)"
  using assms(4-6)
proof (induction ss arbitrary: cnt)
  case (Cons s ss)
  from Cons.prems obtain i where i: "i < length VACs"
    "RoundRobin_selectTask env VACs cnt s = Ok ((hd (vac_tasks env (VACs ! i) s), of_nat i), vac_pop env (VACs ! i) s)"
    "i = j \<or> rr_distance (length VACs) (Suc i mod length VACs) j < rr_distance (length VACs) (Suc (unat cnt) mod length VACs) j"
    using rr_round [OF assms(1) _ assms(2) _ assms(3), of s cnt] by auto
  have u: "unat (of_nat i :: u32) = i" using i(1) assms(2) by (simp add: unat_of_nat)
  show ?case
  proof (cases "i = j")
    case True
    then show ?thesis using i(2) by (intro exI [of _ 0]) simp
  next
    case False
    with i(3) Cons.prems have less: "rr_distance (length VACs) (Suc i mod length VACs) j < length ss"
      "rr_distance (length VACs) (Suc i mod length VACs) j < rr_distance (length VACs) (Suc (unat cnt) mod length VACs) j" by auto
    from Cons.IH [of "of_nat i"] Cons.prems(1) i(1) less(1) obtain k where
      "k \<le> rr_distance (length VACs) (Suc i mod length VACs) j" "k < length (select_rounds env VACs (of_nat i) ss)"
      "select_rounds env VACs (of_nat i) ss ! k = (hd (vac_tasks env (VACs ! j) (ss ! k)), of_nat j)"
      by (auto simp: u)
    then show ?thesis using i(2) less(2) by (intro exI [of _ "Suc k"]) simp
  qed
qed simp

section \<open>Iterators\<close>

lemma iter_inj:
  assumes "i < 2 ^ 60" "k < 2 ^ 60"
  shows "8 * of_nat i = (8 * of_nat k :: addr) \<longleftrightarrow> i = k"
proof
  assume "8 * of_nat i = (8 * of_nat k :: addr)"
  then have "(of_nat (8 * i) :: addr) = of_nat (8 * k)" by simp
  then have "8 * i = 8 * k" using assms by (simp only: word_of_nat_eq_iff take_bit_nat_eq_self_iff) (simp add: take_bit_nat_eq_self)
  then show "i = k" by simp
qed simp

lemma find_index: "find (\<lambda>i. i = k) [0..<n] = (if k < n then Some k else None)"
proof (cases "k < n")
  case True
  then have "find (\<lambda>i. i = k) [0..<n] = Some k" unfolding find_Some_iff by (intro exI [of _ k]) simp
  with True show ?thesis by simp
qed (auto simp: find_None_iff)

lemma iter_deref_nth:
  assumes "length xs < 2 ^ 60" "k < 2 ^ 60"
  shows "iter_deref vec xs (vec + 8 * of_nat k) = (if k < length xs then Ok (xs ! k) else Fault (Bad_access ''*paccel_rr''))"
proof -
  have "find (\<lambda>i. vec + 8 * of_nat k = vec + 8 * of_nat i) [0..<length xs] = find (\<lambda>i. i = k) [0..<length xs]"
    using assms by (intro find_cong refl) (auto simp: iter_inj)
  then show ?thesis unfolding iter_deref_def find_index by simp
qed

lemma iter_current_nth:
  assumes "n < 2 ^ 60" "k < 2 ^ 60"
  shows "iter_current vec n (Some (vec + 8 * of_nat k)) = vec + 8 * of_nat (if k = n then 0 else k)"
  using assms by (simp add: iter_current_def iter_end_def iter_inj)

section \<open>The policies only use the library\<close>

lemma sound_bind3:
  "sound2 f P m \<Longrightarrow> (\<And>x y s. m = Ok ((x, y), s) \<Longrightarrow> P s \<Longrightarrow> sound f Q (k x y s)) \<Longrightarrow> sound f Q (rbind m (\<lambda>((x, y), s). k x y s))"
  "sound2 f P m \<Longrightarrow> (\<And>x y s. m = Ok ((x, y), s) \<Longrightarrow> P s \<Longrightarrow> sound2 f Q (k2 x y s)) \<Longrightarrow> sound2 f Q (rbind m (\<lambda>((x, y), s). k2 x y s))"
  by (cases m; auto simp: sound_def sound2_def split: res.splits prod.splits)+

lemmas run_binds3 [run_intro] =
  sound_bind3 [where f = True and P = "arax_run env s0" and Q = "arax_run env s0" for env s0]

lemma fine_scheduler [sound_intro]:
  "fine f (getVAQPhys2accelThread m p)" "fine f (checkForRunnableTask env a v s)" "fine f (iter_deref vec as it)"
  "fine f (arax_vaccel_queue v s)"
  unfolding getVAQPhys2accelThread_def checkForRunnableTask_def iter_deref_def arax_proc_can_run_at_def arax_vaccel_queue_def Let_def
  by (auto intro!: sound_intro split: option.split)

text \<open>A controller whose threads have backends that keep to the contract \<open>device\<close>.\<close>

locale controller_backends =
  fixes ce :: controller_env
  assumes dev: "device (arax ce) (backend ce th)"
begin

lemmas backend_runs [run_intro] =
  device.execute_runs [OF dev] device.alloc_runs [OF dev] device.sync_to_runs [OF dev] device.sync_from_runs [OF dev] device.free_runs [OF dev]

abbreviation runs where "runs s0 r \<equiv> sound True (arax_run (arax ce) s0) r"

lemma migrate_loops:
  assumes "arax_run (arax ce) s0 s"
  shows "runs s0 (migrate_to_loop (backend ce) m th ds s)" and "runs s0 (migrate_from_loop (backend ce) m th ds s)"
  using assms
  by (induction ds arbitrary: s) (auto intro!: sound_intro sound_bind_value [where 'a = "nat option"] run_intro split: option.split)

lemma migrate_runs [run_intro]: "arax_run (arax ce) s0 s \<Longrightarrow> runs s0 (migrate_task ce m th t s)"
  unfolding migrate_task_def migrateFromRemote_def migrateToRemote_def by (intro sound_intro run_intro migrate_loops; assumption)

lemma pop_scan_runs:
  assumes "\<And>v t s. arax_run (arax ce) s0 s \<Longrightarrow> runs s0 (found v t s)" and "arax_run (arax ce) s0 s"
  shows "sound2 True (arax_run (arax ce) s0) (pop_scan (arax ce) found vs i s)"
  using assms(2) by (induction vs arbitrary: i s) (auto simp: Let_def intro!: sound_intro run_intro assms(1))

lemma het_scan_runs:
  assumes "arax_run (arax ce) s0 s"
  shows "sound2 True (arax_run (arax ce) s0) (het_scan ce m th accel vs i s)"
  using assms by (induction vs arbitrary: i s) (auto simp: Let_def intro!: sound_intro sound_bind_value [where 'a = State] run_intro)

lemma rr_loops_runs:
  assumes "\<And>vs i s. arax_run (arax ce) s0 s \<Longrightarrow> sound2 True (arax_run (arax ce) s0) (scan vs i s)" and "arax_run (arax ce) s0 s"
  shows "sound2 True (arax_run (arax ce) s0) (rr_loops scan VACs cnt s)"
  unfolding rr_loops_def Let_def by (intro sound_intro run_intro assms; assumption)

lemma select_runs:
  assumes "arax_run (arax ce) s0 s"
  shows "sound2 True (arax_run (arax ce) s0) (RoundRobin_selectTask (arax ce) VACs cnt s)"
    and "sound2 True (arax_run (arax ce) s0) (Heterogeneous_selectTask ce m th accel VACs cnt s)"
    and "sound2 True (arax_run (arax ce) s0) (Elastic_selectTask ce m th vaq VACs cnt s)"
  unfolding RoundRobin_selectTask_def Elastic_selectTask_def Heterogeneous_selectTask_def
  by (intro rr_loops_runs pop_scan_runs het_scan_runs sound_intro run_intro assms; assumption)+

lemma selectTask_runs [run_intro]:
  assumes "arax_run (arax ce) s0 s"
  shows "sound2 True (arax_run (arax ce) s0) (selectTask ce sc th c s)"
  unfolding selectTask_def Let_def
  by (rule run_binds3(2), cases "sch_class (cn_schedulers c ! sc)") (simp_all add: select_runs [OF assms] sound_intro)

lemma assign_loops:
  assumes "arax_run (arax ce) s0 s"
  shows "sound2 True (arax_run (arax ce) s0) (het_assign_loop (arax ce) k vec as it vac s)"
    and "sound2 True (arax_run (arax ce) s0) (elastic_move from to vs vaq s)"
proof -
  show "sound2 True (arax_run (arax ce) s0) (het_assign_loop (arax ce) k vec as it vac s)"
    using assms by (induction k arbitrary: it)
      (auto simp: Let_def intro!: sound_intro sound_bind_value [where 'a = State] sound_bind_value [where 'a = AccelConfig] run_intro split: State.split)
  show "sound2 True (arax_run (arax ce) s0) (elastic_move from to vs vaq s)"
    using assms by (induction vs) (auto intro!: sound_intro run_intro)
qed

lemma assign_runs:
  assumes "arax_run (arax ce) s0 s"
  shows "sound2 True (arax_run (arax ce) s0) (RoundRobin_assignVac vec as it vac s)"
    and "sound2 True (arax_run (arax ce) s0) (Heterogeneous_assignVac (arax ce) vec as it vac s)"
    and "sound2 True (arax_run (arax ce) s0) (Elastic_assignVac assigned vec as (it, vaq) vac s)"
  using assms unfolding RoundRobin_assignVac_def Heterogeneous_assignVac_def Elastic_assignVac_def Let_def prod.case
  by (auto intro!: sound_intro sound_bind_value [where 'a = AccelConfig] run_intro assign_loops split: option.split)

lemma assignVac_runs [run_intro]:
  assumes "arax_run (arax ce) s0 s"
  shows "sound2 True (arax_run (arax ce) s0) (assignVac ce vec sc vac c s)"
  unfolding assignVac_def Let_def
  by (rule sound_bind_value, intro sound_intro, rule run_binds3(2), cases "sch_class (cn_schedulers c ! sc)")
    (auto simp: assign_runs [OF assms] intro!: sound_intro run_intro)

end

text \<open>The controller of the build with the CPU backend alone.\<close>

definition cpu_controller :: "arax_env \<Rightarrow> nat \<Rightarrow> bool \<Rightarrow> addr \<Rightarrow> (addr \<rightharpoonup> cpu_functor) \<Rightarrow> controller_env" where
  "cpu_controller env n mig pipe loaded =
     \<lparr>arax = env, fuel = n, MIGRATION = mig, vpipe_s = pipe, backend = (\<lambda>_. CPUaccelThread (cpu_code loaded n env))\<rparr>"

interpretation cpu_ctl: controller_backends "cpu_controller env n mig pipe loaded" for env n mig pipe loaded
  by unfold_locales (simp_all add: cpu_controller_def cpu.device_axioms cpu.device_runs)

section \<open>An example\<close>

text \<open>Two virtual accelerators on a thread: the queue of the first is empty, the second holds two tasks.\<close>

definition demo_vac :: "addr list \<Rightarrow> u16 \<Rightarrow> addr \<Rightarrow> arax_object_s \<times> arax_body" where
  "demo_vac es n phys = (\<lparr>alloc_size = 512, ob_type = ARAX_TYPE_VIRT_ACCEL, ref_count = 1, ob_name = ''vac''\<rparr>,
     Vaccel \<lparr>va_type = CPU, ordering = SEQUENTIAL, va_lock = 0, cid = 0, priority = 0, va_phys = phys, meta = 0,
       va_queue = \<lparr>q_entries = es @ replicate (8 - length es) 0, q_lock = 0, q_bottom = n, q_top = 0\<rparr>\<rparr>)"

definition demo_queues :: arax_pipe_s where
  "demo_queues = (zero_pipe demo_env)\<lparr>objects := [4096 \<mapsto> demo_vac [] 0 0, 8192 \<mapsto> demo_vac [12288, 16384] 2 0]\<rparr>"

lemma demo_queues_ok:
  "good_capacity (queue_capacity demo_env)" "\<forall>v\<in>set [4096, 8192]. vac_ok demo_env demo_queues v"
  "vac_tasks demo_env 4096 demo_queues = []" "vac_tasks demo_env 8192 demo_queues = [12288, 16384]"
proof -
  have env: "queue_capacity demo_env = 8" by (simp add: demo_env_def)
  show "good_capacity (queue_capacity demo_env)" by (simp add: env good_capacity_def)
  have q: "q_inv 8 \<lparr>q_entries = replicate 8 0, q_lock = 0, q_bottom = 0, q_top = 0\<rparr>"
    "q_inv 8 \<lparr>q_entries = [12288, 16384] @ replicate 6 0, q_lock = 0, q_bottom = 2, q_top = 0\<rparr>"
    by (simp_all add: q_inv_def q_rep_def q_contents_def q_distance_def upt_conv_Cons All_less_Suc)
  show "\<forall>v\<in>set [4096, 8192]. vac_ok demo_env demo_queues v"
    using q by (simp add: vac_ok_def get_vaccel_def demo_queues_def demo_vac_def env)
  show "vac_tasks demo_env 4096 demo_queues = []" "vac_tasks demo_env 8192 demo_queues = [12288, 16384]"
    by (simp_all add: vac_tasks_def get_vaccel_def demo_queues_def demo_vac_def env q_contents_def q_distance_def upt_conv_Cons)
qed

section \<open>The properties\<close>

text \<open>C13. Round robin takes the oldest task of the first virtual accelerator that has one, in the cyclic order that
  starts behind the one served last; it remembers that one, leaves every other queue and object as it was, and
  returns no task only when all the queues are empty, without changing anything.\<close>

theorem round_robin_select:
  assumes "good_capacity (queue_capacity env)" and "\<forall>v\<in>set VACs. vac_ok env s v" and "VACs \<noteq> []"
  shows "(RoundRobin_selectTask env VACs cnt s = Ok ((0, cnt), s) \<and> (\<forall>v\<in>set VACs. vac_tasks env v s = [])) \<or>
    (\<exists>k<length VACs. \<exists>i v s'. i = (rr_offset VACs cnt + k) mod length VACs \<and> v = VACs ! i \<and> vac_tasks env v s \<noteq> [] \<and>
       (\<forall>j<k. vac_tasks env (VACs ! ((rr_offset VACs cnt + j) mod length VACs)) s = []) \<and>
       RoundRobin_selectTask env VACs cnt s = Ok ((hd (vac_tasks env v s), of_nat i), s') \<and>
       (\<forall>w\<in>set VACs. vac_tasks env w s' = (if w = v then tl (vac_tasks env v s) else vac_tasks env w s)) \<and>
       (\<forall>a. a \<noteq> v \<longrightarrow> objects s' a = objects s a))"
proof (cases "first_busy env s (rotate (rr_offset VACs cnt) VACs)")
  case None
  then have "RoundRobin_selectTask env VACs cnt s = Ok ((0, cnt), s)" unfolding RoundRobin_selectTask_spec [OF assms] by (simp add: Let_def)
  moreover have "\<forall>v\<in>set VACs. vac_tasks env v s = []" using None by (simp add: first_busy_None)
  ultimately show ?thesis by blast
next
  case (Some k)
  define i where "i = (rr_offset VACs cnt + k) mod length VACs"
  note k = first_busy_Some [OF Some]
  have nth: "rotate (rr_offset VACs cnt) VACs ! j = VACs ! ((rr_offset VACs cnt + j) mod length VACs)" if "j \<le> k" for j
    using that k by (simp add: nth_rotate)
  then have k': "k < length VACs" "vac_tasks env (VACs ! i) s \<noteq> []"
    "\<forall>j<k. vac_tasks env (VACs ! ((rr_offset VACs cnt + j) mod length VACs)) s = []"
    using k nth by (auto simp: i_def less_imp_le)
  have v: "vac_ok env s (VACs ! i)" using assms(2,3) by (simp add: i_def)
  have "objects (vac_pop env (VACs ! i) s) a = objects s a" if "a \<noteq> VACs ! i" for a
    using that by (simp add: vac_pop_def set_body_def split: res.split)
  moreover have "RoundRobin_selectTask env VACs cnt s = Ok ((hd (vac_tasks env (VACs ! i) s), of_nat i), vac_pop env (VACs ! i) s)"
    unfolding RoundRobin_selectTask_spec [OF assms] using Some by (simp add: Let_def i_def)
  moreover have "\<forall>w\<in>set VACs. vac_tasks env w (vac_pop env (VACs ! i) s) =
      (if w = VACs ! i then tl (vac_tasks env (VACs ! i) s) else vac_tasks env w s)"
    using vac_pop_tasks(1) [OF assms(1) v] assms(2) by blast
  ultimately show ?thesis using k' i_def by blast
qed

theorem round_robin_select_witness:
  "\<exists>s'. RoundRobin_selectTask demo_env [4096, 8192] 0 demo_queues = Ok ((12288, 1), s') \<and>
    vac_tasks demo_env 8192 s' = [16384] \<and> objects s' 4096 = objects demo_queues 4096"
proof -
  have "rr_offset [4096, 8192] 0 = 1" by (simp add: rr_offset_Suc)
  with round_robin_select [OF demo_queues_ok(1,2), of 0] show ?thesis
    by (auto simp: demo_queues_ok(3,4) less_Suc_eq)
qed

text \<open>C14. Round robin is fair: a virtual accelerator whose queue does not run empty is served within as many
  selections as there are virtual accelerators on the thread, whatever happens to the queues between them, and
  what it gets is the oldest of its tasks.\<close>

theorem round_robin_fair:
  assumes "good_capacity (queue_capacity env)" and "length VACs < 2 ^ 31 - 1" and "j < length VACs" and "unat cnt < length VACs"
    and "\<forall>s\<in>set ss. (\<forall>v\<in>set VACs. vac_ok env s v) \<and> vac_tasks env (VACs ! j) s \<noteq> []" and "length ss = length VACs"
  shows "\<exists>k<length VACs. k < length (select_rounds env VACs cnt ss) \<and>
    select_rounds env VACs cnt ss ! k = (hd (vac_tasks env (VACs ! j) (ss ! k)), of_nat j)"
proof -
  have "0 < length VACs" using assms(3) by linarith
  note d = rr_distance_less [OF this, of "Suc (unat cnt) mod length VACs" j]
  moreover from this rr_fair_rounds [OF assms(1,2,3,5,4)] assms(6) obtain k where
    "k \<le> rr_distance (length VACs) (Suc (unat cnt) mod length VACs) j" "k < length (select_rounds env VACs cnt ss)"
    "select_rounds env VACs cnt ss ! k = (hd (vac_tasks env (VACs ! j) (ss ! k)), of_nat j)" by auto
  ultimately show ?thesis by (intro exI [of _ k]) simp
qed

theorem round_robin_fair_witness:
  "\<exists>k<Suc (Suc 0). select_rounds demo_env [4096, 8192] 1 [demo_queues, demo_queues] ! k = (12288, 1)"
  using round_robin_fair [of demo_env "[4096, 8192]" 1 1 "[demo_queues, demo_queues]"] demo_queues_ok
  by (auto simp: less_Suc_eq simp del: select_rounds.simps)

text \<open>C22. Round robin over the accelerators: as long as the storage of the vector of accelerators is at the same
  address in every call, the accelerator that is next in the vector is given the virtual accelerator, and after the
  last the first again. But the iterator outlives the vector it points into: when the accelerators of this type are
  fewer than its position, or there are none, it is dereferenced behind the end.\<close>

theorem assign_vac_round_robin:
  assumes "length as < 2 ^ 60" and "k < 2 ^ 60"
  shows "RoundRobin_assignVac vec as (Some (vec + 8 * of_nat k)) vac s =
    (if 0 < length as \<and> k \<le> length as then
       rbind (arax_accel_add_vaccel (arax_accel (as ! (k mod length as))) vac s)
         (\<lambda>s. Ok (Some (vec + 8 * of_nat (Suc (k mod length as))), s))
     else Fault (Bad_access ''*paccel_rr''))"
proof -
  have d: "iter_deref vec as vec = (if 0 < length as then Ok (as ! 0) else Fault (Bad_access ''*paccel_rr''))"
    using iter_deref_nth [OF assms(1), of 0 vec] by simp
  show ?thesis using assms by (auto simp: RoundRobin_assignVac_def iter_current_nth iter_deref_nth Let_def d) (simp_all add: algebra_simps)
qed

theorem assign_vac_round_robin_witness:
  "RoundRobin_assignVac 65536 [] (Some (65536 + 8 * of_nat 2)) 4096 demo_queues = Fault (Bad_access ''*paccel_rr'')"
  using assign_vac_round_robin [of "[]" 2 65536 4096 demo_queues] by simp

end
