(* ===== verification/Heterogeneous.thy ===== *)
theory Heterogeneous
  imports Scheduling
begin

text \<open>
  The heterogeneous policy: whether a task can run on an accelerator does not depend on where virtual
  accelerators are assigned, so what the policy does to those it passes over does not change its choice.
\<close>

section \<open>Tasks an accelerator can run\<close>

text \<open>
  Segments that differ in the assignment of virtual accelerators only: the queues, the types of accelerators,
  procedures, data and tasks are the same.
\<close>

fun work :: "arax_body \<Rightarrow> (arax_accel_type_e + utils_queue_s) + arax_body" where
  "work (Accel a) = Inl (Inl (ac_type a))"
| "work (Vaccel v) = Inl (Inr (va_queue v))"
| "work b = Inr b"

definition same_work :: "arax_pipe_s \<Rightarrow> arax_pipe_s \<Rightarrow> bool" where
  "same_work s s' \<longleftrightarrow> (\<forall>x. map_option (map_prod id work) (objects s' x) = map_option (map_prod id work) (objects s x))"

named_theorems work_intro \<open>calls that keep the work\<close>

lemma same_work_refl: "same_work s s"
  by (simp add: same_work_def)

lemma same_work_sets:
  assumes "same_work s0 s"
  shows "get_accel a s = Ok x \<Longrightarrow> ac_type y = ac_type x \<Longrightarrow> same_work s0 (set_body a (Accel y) s)"
    and "get_vaccel a s = Ok v \<Longrightarrow> va_queue w = va_queue v \<Longrightarrow> same_work s0 (set_body a (Vaccel w) s)"
    and "objects s' = objects s \<Longrightarrow> same_work s0 s'"
  using assms by (auto simp: same_work_def set_body_def res_simps simp flip: assms [unfolded same_work_def])

lemma same_work_other [simp]:
  "same_work s0 (s\<lparr>lists := l\<rparr>) \<longleftrightarrow> same_work s0 s" "same_work s0 (s\<lparr>orphan_cond := c\<rparr>) \<longleftrightarrow> same_work s0 s"
  by (simp_all add: same_work_def)

lemma same_work_view:
  assumes "same_work s s'"
  shows "get_task t s' = get_task t s" and "get_proc p s' = get_proc p s"
    and "arax_vaccel_queue v s' = arax_vaccel_queue v s"
    and "rbind (get_accel a s') (\<lambda>x. Ok (ac_type x)) = rbind (get_accel a s) (\<lambda>x. Ok (ac_type x))"
proof -
  have w: "map_option (map_prod id work) (objects s' x) = map_option (map_prod id work) (objects s x)" for x
    using assms by (simp add: same_work_def)
  show "get_task t s' = get_task t s" using w [of t]
    by (cases "objects s t"; cases "objects s' t") (auto simp: get_task_def split: arax_body.split)
  show "get_proc p s' = get_proc p s" using w [of p]
    by (cases "objects s p"; cases "objects s' p") (auto simp: get_proc_def split: arax_body.split)
  show "arax_vaccel_queue v s' = arax_vaccel_queue v s" using w [of v]
    by (cases "objects s v"; cases "objects s' v") (auto simp: arax_vaccel_queue_def get_vaccel_def split: arax_body.split)
  show "rbind (get_accel a s') (\<lambda>x. Ok (ac_type x)) = rbind (get_accel a s) (\<lambda>x. Ok (ac_type x))" using w [of a]
    by (cases "objects s a"; cases "objects s' a") (auto simp: get_accel_def split: arax_body.split)
qed

lemma work_mods [work_intro]:
  "same_work s0 s \<Longrightarrow> (\<And>x. ac_type (g x) = ac_type x) \<Longrightarrow> sound True (same_work s0) (mod_accel a g s)"
  "same_work s0 s \<Longrightarrow> (\<And>x. va_queue (g2 x) = va_queue x) \<Longrightarrow> sound True (same_work s0) (mod_vaccel a g2 s)"
  unfolding mod_accel_def mod_vaccel_def by (auto intro!: sound_intro intro: same_work_sets)

lemma work_locks [work_intro]:
  assumes "same_work s0 s"
  shows "sound True (same_work s0) (accel_lock a s)" "sound True (same_work s0) (accel_unlock a s)"
    "sound True (same_work s0) (accel_notify a s)" "sound True (same_work s0) (vaccel_lock a s)" "sound True (same_work s0) (vaccel_unlock a s)"
  using assms unfolding accel_lock_def accel_unlock_def accel_notify_def vaccel_lock_def vaccel_unlock_def
  by (auto intro!: sound_intro work_mods intro: same_work_sets)

lemmas work_binds [work_intro] = sound_bind [where f = True and P = "same_work s0" and Q = "same_work s0" for s0]

lemma work_del:
  assumes "same_work s0 s"
  shows "sound True (same_work s0) (arax_accel_del_vaccel a v s)"
  using assms unfolding arax_accel_del_vaccel_def arax_accel_inc_revision_def arax_vaccel_queue_size_def arax_vaccel_queue_def Let_def
  by (intro sound_intro work_intro; (assumption | simp)?)

lemma work_orphan:
  assumes "same_work s0 s"
  shows "sound True (same_work s0) (arax_pipe_add_orphan_vaccel v s)"
  using assms unfolding arax_pipe_add_orphan_vaccel_def Let_def
  by (intro sound_intro work_intro; (assumption | simp)?)

text \<open>So whether the next task of a virtual accelerator can run does not depend on the assignments.\<close>

lemma same_work_check:
  assumes "same_work s s'"
  shows "checkForRunnableTask env accel v s' = checkForRunnableTask env accel v s"
proof -
  have c: "checkForRunnableTask env accel v x =
     rbind (rbind (get_accel accel x) (\<lambda>a. Ok (ac_type a))) (\<lambda>ty. rbind (arax_vaccel_queue v x) (\<lambda>q.
     let task = utils_queue_peek (queue_capacity env) q in
     if task = 0 then Ok NT
     else rbind (get_task task x) (\<lambda>t. rbind (get_proc (ta_proc t) x) (\<lambda>_. rbind (arax_proc_can_run_at (ta_proc t) ty x) (\<lambda>runnable.
       if \<not> runnable then Ok NRT else Ok RT)))))" for x
    by (simp add: checkForRunnableTask_def rbind_assoc)
  have "arax_proc_can_run_at p ty s' = arax_proc_can_run_at p ty s" for p ty
    by (simp add: arax_proc_can_run_at_def same_work_view [OF assms])
  then show ?thesis unfolding c Let_def by (simp add: same_work_view [OF assms] cong: if_cong)
qed

text \<open>One loop of the heterogeneous policy, without migration of data: what it found and what it passed over.\<close>

lemma het_scan_result:
  assumes "het_scan ce m th accel vs i s = Ok ((t, j), s')" and "\<not> MIGRATION ce" and "same_work s0 s"
  shows "if t = 0 then same_work s0 s' \<and> (\<forall>v\<in>set vs. checkForRunnableTask (arax ce) accel v s0 \<noteq> Ok RT)
    else i \<le> j \<and> j < i + length vs \<and> checkForRunnableTask (arax ce) accel (vs ! (j - i)) s0 = Ok RT \<and>
      (\<forall>k<j - i. checkForRunnableTask (arax ce) accel (vs ! k) s0 \<noteq> Ok RT) \<and>
      (\<exists>q. arax_vaccel_queue (vs ! (j - i)) s0 = Ok q \<and> t = fst (utils_queue_pop (queue_capacity (arax ce)) q))"
  using assms(1,3)
proof (induction vs arbitrary: i s)
  case (Cons v vs)
  from Cons.prems(1) obtain st where st: "checkForRunnableTask (arax ce) accel v s = Ok st" by (auto simp: res_simps)
  then have st0: "checkForRunnableTask (arax ce) accel v s0 = Ok st" using same_work_check [OF Cons.prems(2)] by simp
  show ?case
  proof (cases "st = RT")
    case True
    with Cons.prems(1) st obtain va where va: "get_vaccel v s = Ok va" by (auto simp: rbind_Ok_iff)
    obtain x q where q: "utils_queue_pop (queue_capacity (arax ce)) (va_queue va) = (x, q)" by fastforce
    then have "utils_queue_pop (queue_capacity (arax ce)) (va_queue va) = (t, q)" "t \<noteq> 0" "j = i"
      using Cons.prems(1) st True assms(2) va
      by (auto simp: rbind_Ok_iff Let_def migrate_task_def migrateFromRemote_def migrateToRemote_def)
    moreover from va have "arax_vaccel_queue v s0 = Ok (va_queue va)"
      using same_work_view(3) [OF Cons.prems(2), of v] by (simp add: arax_vaccel_queue_def)
    ultimately show ?thesis using st0 True by simp
  next
    case False
    obtain s1 where s1: "same_work s0 s1" "het_scan ce m th accel vs (Suc i) s1 = Ok ((t, j), s')"
    proof (cases st)
      case NRT
      then obtain va :: arax_vaccel_s and s2 s1 where "arax_accel_del_vaccel (va_phys va) v s = Ok s2" "arax_pipe_add_orphan_vaccel v s2 = Ok s1"
        "het_scan ce m th accel vs (Suc i) s1 = Ok ((t, j), s')" using Cons.prems(1) st by (simp add: rbind_Ok_iff) blast
      then show ?thesis using that soundD(1) [OF work_orphan] soundD(1) [OF work_del [OF Cons.prems(2)]] by blast
    next
      case NT
      then show ?thesis using that Cons.prems st by auto
    qed (use False in simp)
    from Cons.IH [OF s1(2,1)] st0 False show ?thesis
      by (auto simp: nth_Cons' split: if_splits)
  qed
qed simp

text \<open>C16. The heterogeneous policy (without migration of data) gives a thread only tasks its accelerator can run: the
  task is the oldest of the first virtual accelerator, in the cyclic order behind the one served last, whose next
  task can run there; and it returns no task only if there is none that can.\<close>

theorem heterogeneous_select:
  assumes "Heterogeneous_selectTask ce m th accel VACs cnt s = Ok ((t, cnt'), s')" and "\<not> MIGRATION ce"
  shows "if t = 0 then cnt' = cnt \<and> (\<forall>v\<in>set VACs. checkForRunnableTask (arax ce) accel v s \<noteq> Ok RT)
    else \<exists>k<length VACs. \<exists>i. i = (rr_offset VACs cnt + k) mod length VACs \<and> cnt' = of_nat i \<and>
      checkForRunnableTask (arax ce) accel (VACs ! i) s = Ok RT \<and>
      (\<forall>j<k. checkForRunnableTask (arax ce) accel (VACs ! ((rr_offset VACs cnt + j) mod length VACs)) s \<noteq> Ok RT) \<and>
      (\<exists>q. arax_vaccel_queue (VACs ! i) s = Ok q \<and> t = fst (utils_queue_pop (queue_capacity (arax ce)) q))"
proof (cases "VACs = []")
  case True
  then show ?thesis using assms(1) by (simp add: Heterogeneous_selectTask_def rr_loops_def)
next
  case False
  define off n where "off = rr_offset VACs cnt" and "n = length VACs"
  have off: "off < n" using False by (simp add: off_def n_def rr_offset_def)
  let ?run = "\<lambda>v. checkForRunnableTask (arax ce) accel v s = Ok RT"
  have found: ?thesis if "t \<noteq> 0" "k < n" "(off + k) mod n = i" "cnt' = of_nat i" "?run (VACs ! i)" "\<forall>j<k. \<not> ?run (VACs ! ((off + j) mod n))"
    "\<exists>q. arax_vaccel_queue (VACs ! i) s = Ok q \<and> t = fst (utils_queue_pop (queue_capacity (arax ce)) q)" for k i
    unfolding if_not_P [OF that(1)] by (rule exI [of _ k], intro conjI exI [of _ i]) (use that in \<open>simp_all add: off_def n_def\<close>)
  from assms(1) False obtain t1 j1 s1 where 1: "het_scan ce m th accel (drop off VACs) off s = Ok ((t1, j1), s1)"
    and rest: "if t1 \<noteq> 0 then t = t1 \<and> cnt' = of_nat j1
      else \<exists>t2 j2. het_scan ce m th accel (take off VACs) 0 s1 = Ok ((t2, j2), s') \<and> (if t2 \<noteq> 0 then t = t2 \<and> cnt' = of_nat j2 else t = 0 \<and> cnt' = cnt)"
    by (auto simp: Heterogeneous_selectTask_def rr_loops_def Let_def off_def rbind_Ok_iff split: if_splits)
  note r1 = het_scan_result [OF 1 assms(2) same_work_refl]
  show ?thesis
  proof (cases "t1 = 0")
    case False
    define k where "k = j1 - off"
    have k: "k < n" "(off + k) mod n = j1" "VACs ! j1 = drop off VACs ! k" "\<And>j. j < k \<Longrightarrow> VACs ! ((off + j) mod n) = drop off VACs ! j"
      using r1 False off by (auto simp: k_def n_def)
    have t: "t = t1" "cnt' = of_nat j1" using rest False by simp_all
    show ?thesis by (rule found [of k j1]) (use r1 t False k in \<open>simp_all flip: k_def\<close>)
  next
    case True
    then obtain t2 j2 where 2: "het_scan ce m th accel (take off VACs) 0 s1 = Ok ((t2, j2), s')"
      and t2: "if t2 \<noteq> 0 then t = t2 \<and> cnt' = of_nat j2 else t = 0 \<and> cnt' = cnt" using rest by auto
    have w: "same_work s s1" and none: "\<forall>v\<in>set (drop off VACs). checkForRunnableTask (arax ce) accel v s \<noteq> Ok RT" using r1 True by simp_all
    note r2 = het_scan_result [OF 2 assms(2) w]
    show ?thesis
    proof (cases "t2 = 0")
      case True
      moreover have "set VACs = set (take off VACs) \<union> set (drop off VACs)" by (metis append_take_drop_id set_append)
      ultimately show ?thesis using t2 r2 none by auto
    next
      case False
      define k where "k = n - off + j2"
      have j2: "j2 < off" using r2 False off by (auto simp: n_def)
      have k: "k < n" "(off + k) mod n = j2" using j2 off by (auto simp: k_def)
      have before: "checkForRunnableTask (arax ce) accel (VACs ! ((off + j) mod n)) s \<noteq> Ok RT" if "j < k" for j
      proof (cases "off + j < n")
        case True
        then have "VACs ! ((off + j) mod n) \<in> set (drop off VACs)" by (auto simp: in_set_conv_nth n_def intro!: exI [of _ j])
        then show ?thesis using none by blast
      next
        case False
        then have "(off + j) mod n = off + j - n" "off + j - n < j2" using that j2 off by (auto simp: k_def mod_if)
        then show ?thesis using r2 \<open>t2 \<noteq> 0\<close> j2 by auto
      qed
      show ?thesis by (rule found [of k j2]) (use r2 t2 False before k j2 in simp_all)
    qed
  qed
qed

text \<open>A CPU with one virtual accelerator, whose only task is a procedure for CPUs.\<close>

definition demo_work :: arax_pipe_s where
  "demo_work = (zero_pipe demo_env)\<lparr>orphan_cond := cond_free, objects := [
     4096 \<mapsto> demo_vac [16384] 1 12288,
     12288 \<mapsto> (\<lparr>alloc_size = 512, ob_type = ARAX_TYPE_PHYS_ACCEL, ref_count = 1, ob_name = ''cpu''\<rparr>,
       Accel \<lparr>ac_type = CPU, ac_state = accel_idle, ac_lock = cond_free, ac_tasks = 1, revision = 0,
         ac_throttle = \<lparr>available = 4096, capacity = 4096, ready = cond_free\<rparr>, free_vaq = 0\<rparr>),
     16384 \<mapsto> (\<lparr>alloc_size = 256, ob_type = ARAX_TYPE_TASK, ref_count = 1, ob_name = ''Task''\<rparr>,
       Task (demo_task\<lparr>ta_proc := 20480, ta_state := task_issued\<rparr>)),
     20480 \<mapsto> (\<lparr>alloc_size = 256, ob_type = ARAX_TYPE_PROC, ref_count = 1, ob_name = ''init_phys''\<rparr>,
       Proc \<lparr>canrun = 8, functors = replicate 3 0 @ [24576] @ replicate 5 0\<rparr>)]\<rparr>"

theorem heterogeneous_select_witness:
  "\<exists>s'. Heterogeneous_selectTask (cpu_controller demo_env 1 False 65536 Map.empty) Map.empty 0 12288 [4096] 0 demo_work = Ok ((16384, 0), s') \<and>
    checkForRunnableTask demo_env 12288 4096 demo_work = Ok RT"
proof -
  let ?ce = "cpu_controller demo_env 1 False 65536 Map.empty"
  have check: "checkForRunnableTask demo_env 12288 4096 demo_work = Ok RT"
    by (simp add: checkForRunnableTask_def demo_work_def demo_vac_def get_accel_def arax_vaccel_queue_def get_vaccel_def get_task_def get_proc_def
        utils_queue_peek_def q_slot_def arax_proc_can_run_at_def arax_accel_valid_type_def accel_type_defs Let_def)
  have "\<exists>s'. Heterogeneous_selectTask ?ce Map.empty 0 12288 [4096] 0 demo_work = Ok ((16384, 0), s')"
    by (simp add: Heterogeneous_selectTask_def rr_loops_def rr_offset_def cpu_controller_def check)
      (simp add: demo_work_def demo_vac_def get_vaccel_def utils_queue_pop_def q_slot_def migrate_task_def migrateFromRemote_def migrateToRemote_def)
  then obtain s' where s': "Heterogeneous_selectTask ?ce Map.empty 0 12288 [4096] 0 demo_work = Ok ((16384, 0), s')" by blast
  from heterogeneous_select [OF s'] show ?thesis using s' by (simp add: cpu_controller_def)
qed

end
