(* ===== verification/Controller.thy ===== *)
theory Controller
  imports Heterogeneous
begin

text \<open>
  The controller process (\<open>controller/src/Core\<close>): a thread per accelerator that serves the tasks of the virtual
  accelerators assigned to it (\<open>accelThread.cpp\<close>), a thread that assigns virtual accelerators nobody serves
  (\<open>VacBalancerThread.cpp\<close>), and the start and the end of both (\<open>arax_controller.cpp\<close>).

  The state of the process is \<open>controller_s\<close>, beside the segment. One rule of \<open>controller_step\<close> is one iteration of
  a thread, one action of the main thread, or calls of other processes on the segment. Output on the console,
  affinities and thread names are left out; so is the build option \<open>FREE_THREAD\<close>, with which the sources do not
  compile, since the member \<open>freeTaskQueue\<close> it needs is commented out in \<open>accelThread.h\<close>.
\<close>

section \<open>Accelerator threads\<close>

definition mod_thread :: "nat \<Rightarrow> (accelThread \<Rightarrow> accelThread) \<Rightarrow> controller_s \<Rightarrow> controller_s" where
  "mod_thread th f c = c\<lparr>cn_threads := (cn_threads c)[th := f (cn_threads c ! th)]\<rparr>"

definition thread_conf :: "nat \<Rightarrow> controller_s \<Rightarrow> AccelConfig" where
  "thread_conf th c = cn_accels c ! accelConf (cn_threads c ! th)"

definition mod_conf :: "nat \<Rightarrow> (AccelConfig \<Rightarrow> AccelConfig) \<Rightarrow> controller_s \<Rightarrow> controller_s" where
  "mod_conf th f c = (let a = accelConf (cn_threads c ! th) in c\<lparr>cn_accels := (cn_accels c)[a := f (cn_accels c ! a)]\<rparr>)"

definition isUserfacingTask :: "addr \<Rightarrow> arax_pipe_s \<Rightarrow> bool res" where
  "isUserfacingTask accel s = rbind (arax_vaccel_get_job_priority accel s) (\<lambda>p. Ok (p = 1))"

text \<open>The constructor; the local variables of \<open>workFunc\<close> that live on are zero until it sets them.\<close>

definition new_accelThread :: "nat \<Rightarrow> accelThread" where
  "new_accelThread conf =
     \<lparr>accelConf = conf, readyToServe = False, served_tasks = 0, enable_mtx = False, stopExec = False, migrations = 0,
      assignedVACs = [], runningTask = 0, initialAvailableSize = 0, accelThreadType = 0\<rparr>"

definition enable :: "nat \<Rightarrow> controller_s \<Rightarrow> controller_s" where
  "enable th c = mod_thread th (\<lambda>t. t\<lparr>enable_mtx := False\<rparr>) c"

definition disable :: "nat \<Rightarrow> controller_s \<Rightarrow> controller_s" where
  "disable th c = mod_thread th (\<lambda>t. t\<lparr>enable_mtx := True\<rparr>) c"

definition getJobPreference :: "nat \<Rightarrow> controller_s \<Rightarrow> JobPreference" where
  "getJobPreference th c = job_preference (thread_conf th c)"

definition getInitialJobPreference :: "nat \<Rightarrow> controller_s \<Rightarrow> JobPreference" where
  "getInitialJobPreference th c = initial_preference (thread_conf th c)"

definition setJobPreference :: "nat \<Rightarrow> JobPreference \<Rightarrow> controller_s \<Rightarrow> controller_s" where
  "setJobPreference th jpref c =
     (let c = mod_conf th (\<lambda>a. a\<lparr>job_preference := jpref\<rparr>) c in if jpref = NoJob then disable th c else enable th c)"

definition terminate :: "nat \<Rightarrow> controller_s \<Rightarrow> arax_pipe_s \<Rightarrow> (controller_s \<times> arax_pipe_s) res" where
  "terminate th c s =
     (let c = mod_thread th (\<lambda>t. t\<lparr>stopExec := True\<rparr>) c in
      rbind (arax_accel_add_task (arax_accel (thread_conf th c)) s) (\<lambda>s.
      Ok (setJobPreference th AnyJob c, s)))"

text \<open>The array of virtual accelerators is copied; as many entries as the count says are read.\<close>

definition updateVirtAccels :: "nat \<Rightarrow> controller_s \<Rightarrow> arax_pipe_s \<Rightarrow> (controller_s \<times> arax_pipe_s) res" where
  "updateVirtAccels th c s =
     rbind (arax_accel_wait_for_task (arax_accel (thread_conf th c)) s) (\<lambda>s.
     rbind (arax_accel_get_assigned_vaccels (arax_accel (thread_conf th c)) s) (\<lambda>((n, allVirtualAccels), s).
     if length allVirtualAccels < unat n then Fault (Bad_access ''allVirtualAccels'')
     else Ok (mod_thread th (\<lambda>t. t\<lparr>assignedVACs := take (unat n) allVirtualAccels\<rparr>) c, s)))"

section \<open>\<open>workFunc\<close>\<close>

text \<open>
  What comes before the loop. \<open>False\<close> when the accelerator could not be initialised: the thread is over. A failed
  \<open>arax_accel_init\<close> is reported, and its null pointer dereferenced.
\<close>

definition work_setup :: "controller_env \<Rightarrow> nat \<Rightarrow> controller_s \<Rightarrow> arax_pipe_s \<Rightarrow> ((bool \<times> controller_s) \<times> arax_pipe_s) res" where
  "work_setup ce th c s =
     (let ops = backend ce th; cf = thread_conf th c in
      if \<not> acceleratorInit ops then Ok ((False, c), s)
      else
        rbind (getAvailableSize ops s) (\<lambda>avail.
        rbind (getTotalSize ops s) (\<lambda>total.
        rbind (arax_accel_init (arax ce) (acc_name cf) (acc_type cf) avail total s) (\<lambda>(accel, s).
        rbind (get_accel accel s) (\<lambda>a.
        let c = mod_conf th (\<lambda>a. a\<lparr>arax_accel := accel\<rparr>) c;
            c = mod_thread th (\<lambda>t. t\<lparr>initialAvailableSize := avail, accelThreadType := ac_type a, readyToServe := True\<rparr>) c in
        Ok ((True, c\<lparr>VAQPhys2accelThread := addVAQPhys2accelThread th accel (VAQPhys2accelThread c)\<rparr>), s))))))"

fun alloc_outputs :: "segment_fn \<Rightarrow> addr list \<Rightarrow> arax_pipe_s \<Rightarrow> arax_pipe_s res" where
  "alloc_outputs alloc [] s = Ok s"
| "alloc_outputs alloc (d # ds) s = rbind (alloc d s) (alloc_outputs alloc ds)"

text \<open>The part of the loop for the task that was selected.\<close>

definition serve_task :: "controller_env \<Rightarrow> nat \<Rightarrow> addr \<Rightarrow> controller_s \<Rightarrow> arax_pipe_s \<Rightarrow> (controller_s \<times> arax_pipe_s) res" where
  "serve_task ce th task c s =
     (let c = mod_thread th (\<lambda>t. t\<lparr>served_tasks := served_tasks t + 1\<rparr>) c; ops = backend ce th in
      rbind (get_task task s) (\<lambda>t.
      if ta_proc t = 0 then Ok (c, s)
      else
        rbind (get_proc (ta_proc t) s) (\<lambda>_.
        let c = mod_thread th (\<lambda>t. t\<lparr>runningTask := task\<rparr>) c in
        rbind (arax_assert (ta_accel t \<noteq> 0) ''arax_task->accel'') (\<lambda>_.
        rbind (arax_object_ref_inc task s) (\<lambda>s.
        rbind (alloc_outputs (alloc_remote ops) (drop (unat (in_count t)) (task_args t)) s) (\<lambda>s.
        rbind (arax_proc_get_functor (ta_proc t) (accelThreadType (cn_threads c ! th)) s) (\<lambda>functor.
        rbind (executeOperation ops functor task s) (\<lambda>s.
        let c = mod_thread th (\<lambda>t. t\<lparr>runningTask := 0\<rparr>) c in
        rbind (arax_object_ref_dec (fuel ce) (arax ce) task s) (\<lambda>(_, s). Ok (c, s)))))))))) "

text \<open>One iteration of the loop; \<open>postTaskExecution\<close> does nothing in the policies of the build.\<close>

definition work_iteration :: "controller_env \<Rightarrow> nat \<Rightarrow> controller_s \<Rightarrow> arax_pipe_s \<Rightarrow> (controller_s \<times> arax_pipe_s) res" where
  "work_iteration ce th c s =
     (let sc = grp_scheduler (cn_groups c ! acc_group (thread_conf th c)) in
      rbind (if job_preference (thread_conf th c) = NoJob then
               (if enable_mtx (cn_threads c ! th) then Fault (Blocked ''pthread_mutex_lock'')
                else Ok (mod_thread th (\<lambda>t. t\<lparr>enable_mtx := True\<rparr>) c))
             else Ok c) (\<lambda>c.
      rbind (updateVirtAccels th c s) (\<lambda>(c, s).
      rbind (selectTask ce sc th c s) (\<lambda>((task, c), s).
      if ptr_in_segment (vpipe_s ce) task s then serve_task ce th task c s else Ok (c, s)))))"

text \<open>What comes behind the loop, when \<open>stopExec\<close> is set.\<close>

definition work_teardown :: "controller_env \<Rightarrow> nat \<Rightarrow> controller_s \<Rightarrow> arax_pipe_s \<Rightarrow> arax_pipe_s res" where
  "work_teardown ce th c s =
     rbind (getTotalSize (backend ce th) s) (\<lambda>total.
     arax_accel_size_inc (arax_accel (thread_conf th c)) (total - initialAvailableSize (cn_threads c ! th)) s)"

section \<open>The balancer\<close>

text \<open>One iteration of \<open>VacBalancerThread::thread\<close>; all virtual accelerators go through the first scheduler.\<close>

definition balancer_iteration :: "controller_env \<Rightarrow> addr \<Rightarrow> controller_s \<Rightarrow> arax_pipe_s \<Rightarrow> (controller_s \<times> arax_pipe_s) res" where
  "balancer_iteration ce vec c s =
     rbind (arax_pipe_get_orphan_vaccel s) (\<lambda>(vac, s).
     rbind (if vac = 0 then arax_pipe_get_orphan_vaccel s else Ok (vac, s)) (\<lambda>(vac, s).
     case getSchedulers (cn_config c) of
       [] \<Rightarrow> Fault (Bad_access ''vbt->conf.getSchedulers()[0]'')
     | sc # _ \<Rightarrow> assignVac ce vec sc vac c s))"

section \<open>Start and end\<close>

text \<open>The first loop of \<open>spawnThreads\<close>; \<open>False\<close> when there is no class for the type of an accelerator.\<close>

fun spawn_loop :: "(string \<times> nat) list \<Rightarrow> nat list \<Rightarrow> controller_s \<Rightarrow> bool \<times> controller_s" where
  "spawn_loop factory [] c = (True, c)"
| "spawn_loop factory (a # as) c =
     (case constructType ''accelThread'' factory (type_str (cn_accels c ! a)) of
        None \<Rightarrow> (False, c)
      | Some _ \<Rightarrow>
          spawn_loop factory as
            (c\<lparr>cn_threads := cn_threads c @ [new_accelThread a],
               cn_accels := (cn_accels c)[a := (cn_accels c ! a)\<lparr>accelthread := Some (length (cn_threads c))\<rparr>]\<rparr>))"

text \<open>The second loop spins until every thread has set \<open>readyToServe\<close>.\<close>

definition all_ready :: "nat list \<Rightarrow> controller_s \<Rightarrow> bool" where
  "all_ready as c \<longleftrightarrow> (\<forall>a\<in>set as. case accelthread (cn_accels c ! a) of None \<Rightarrow> False | Some th \<Rightarrow> readyToServe (cn_threads c ! th))"

definition spawnThreads :: "(string \<times> nat) list \<Rightarrow> nat list \<Rightarrow> controller_s \<Rightarrow> bool \<times> controller_s" where
  "spawnThreads factory accelSystemList c = spawn_loop factory accelSystemList c"

text \<open>The first loop of \<open>deleteThreads\<close>; the second waits for the threads.\<close>

fun deleteThreads :: "nat list \<Rightarrow> controller_s \<Rightarrow> arax_pipe_s \<Rightarrow> (controller_s \<times> arax_pipe_s) res" where
  "deleteThreads [] c s = Ok (c, s)"
| "deleteThreads (a # as) c s =
     (case accelthread (cn_accels c ! a) of
        None \<Rightarrow> Fault (Bad_access ''(*itr)->accelthread->terminate()'')
      | Some th \<Rightarrow> rbind (terminate th c s) (\<lambda>(c, s). deleteThreads as c s))"

text \<open>\<open>deRegisterAccel\<close>: the bytes it reports missing, for each accelerator.\<close>

fun deRegisterAccel :: "controller_env \<Rightarrow> nat list \<Rightarrow> controller_s \<Rightarrow> arax_pipe_s \<Rightarrow> ((u64 list \<times> controller_s) \<times> arax_pipe_s) res" where
  "deRegisterAccel ce [] c s = Ok (([], c), s)"
| "deRegisterAccel ce (a # as) c s =
     (let accel = arax_accel (cn_accels c ! a) in
      rbind (arax_accel_get_total_size accel s) (\<lambda>total_size.
      rbind (arax_accel_get_available_size accel s) (\<lambda>available_size.
      rbind (arax_accel_release (fuel ce) (arax ce) accel s) (\<lambda>s.
      let c = c\<lparr>cn_accels := (cn_accels c)[a := (cn_accels c ! a)\<lparr>arax_accel := 0\<rparr>]\<rparr> in
      rbind (deRegisterAccel ce as c s) (\<lambda>((leaks, c), s).
      Ok (((total_size - available_size) # leaks, c), s))))))"

section \<open>The process\<close>

inductive controller_step :: "controller_env \<Rightarrow> controller_s \<times> arax_pipe_s \<Rightarrow> controller_s \<times> arax_pipe_s \<Rightarrow> bool" for ce :: controller_env where
  step_setup: "work_setup ce th c s = Ok ((b, c'), s') \<Longrightarrow> controller_step ce (c, s) (c', s')"
| step_work: "\<not> stopExec (cn_threads c ! th) \<Longrightarrow> work_iteration ce th c s = Ok (c', s') \<Longrightarrow> controller_step ce (c, s) (c', s')"
| step_teardown: "stopExec (cn_threads c ! th) \<Longrightarrow> work_teardown ce th c s = Ok s' \<Longrightarrow> controller_step ce (c, s) (c, s')"
| step_balance: "balancer_iteration ce vec c s = Ok (c', s') \<Longrightarrow> controller_step ce (c, s) (c', s')"
| step_preference: "controller_step ce (c, s) (setJobPreference th p c, s)"
| step_spawn: "spawnThreads factory as c = (b, c') \<Longrightarrow> controller_step ce (c, s) (c', s)"
| step_delete: "deleteThreads as c s = Ok (c', s') \<Longrightarrow> controller_step ce (c, s) (c', s')"
| step_deregister: "deRegisterAccel ce as c s = Ok ((leaks, c'), s') \<Longrightarrow> controller_step ce (c, s) (c', s')"
| step_client: "arax_run (arax ce) s s' \<Longrightarrow> controller_step ce (c, s) (c, s')"

inductive controller_run :: "controller_env \<Rightarrow> controller_s \<times> arax_pipe_s \<Rightarrow> controller_s \<times> arax_pipe_s \<Rightarrow> bool" for ce :: controller_env where
  ctl_start: "controller_run ce x x"
| ctl_step: "controller_run ce x y \<Longrightarrow> controller_step ce y z \<Longrightarrow> controller_run ce x z"

inductive_cases controller_stepE: "controller_step ce (c, s) y"

context controller_backends
begin

lemma terminate_runs [run_intro]: "arax_run (arax ce) s0 s \<Longrightarrow> sound2 True (arax_run (arax ce) s0) (terminate th c s)"
  unfolding terminate_def Let_def by (intro sound_intro run_intro; assumption)

lemma update_runs [run_intro]: "arax_run (arax ce) s0 s \<Longrightarrow> sound2 True (arax_run (arax ce) s0) (updateVirtAccels th c s)"
  unfolding updateVirtAccels_def by (rule run_binds(2), rule run_intro, assumption, rule run_binds3(2), rule run_intro, assumption)
    (intro sound_intro; simp)

lemma alloc_outputs_runs [run_intro]:
  assumes "arax_run (arax ce) s0 s"
  shows "runs s0 (alloc_outputs (alloc_remote (backend ce th)) ds s)"
  using assms by (induction ds arbitrary: s) (auto intro!: sound_intro run_intro)

lemma serve_runs [run_intro]: "arax_run (arax ce) s0 s \<Longrightarrow> sound2 True (arax_run (arax ce) s0) (serve_task ce th task c s)"
  unfolding serve_task_def arax_proc_get_functor_def Let_def by (intro sound_intro run_intro; assumption)

lemma iteration_runs [run_intro]: "arax_run (arax ce) s0 s \<Longrightarrow> sound2 True (arax_run (arax ce) s0) (work_iteration ce th c s)"
  unfolding work_iteration_def Let_def
  by (rule sound_bind_value, (intro sound_intro; simp), rule run_binds(4), rule run_intro, assumption, rule run_binds3(2), rule run_intro, assumption)
    (intro sound_intro run_intro; assumption)

lemma fine_True: "fine True r"
  by (simp add: fine_def sound_def split: res.split)

lemma setup_runs: "arax_run (arax ce) s0 s \<Longrightarrow> sound2 True (arax_run (arax ce) s0) (work_setup ce th c s)"
  unfolding work_setup_def Let_def by (intro sound_intro run_intro fine_True; assumption)

lemma teardown_runs: "arax_run (arax ce) s0 s \<Longrightarrow> runs s0 (work_teardown ce th c s)"
  unfolding work_teardown_def by (rule sound_bind_value, rule fine_True, rule run_intro)

lemma balancer_runs [run_intro]: "arax_run (arax ce) s0 s \<Longrightarrow> sound2 True (arax_run (arax ce) s0) (balancer_iteration ce vec c s)"
  unfolding balancer_iteration_def
  by (intro run_intro sound_intro; (assumption | simp)?) (auto intro!: sound_intro run_intro split: list.split)

lemma delete_runs:
  assumes "arax_run (arax ce) s0 s"
  shows "sound2 True (arax_run (arax ce) s0) (deleteThreads as c s)"
  using assms by (induction as arbitrary: c s) (auto intro!: sound_intro run_intro split: option.split)

lemma deregister_runs:
  assumes "arax_run (arax ce) s0 s"
  shows "sound2 True (arax_run (arax ce) s0) (deRegisterAccel ce as c s)"
  using assms
proof (induction as arbitrary: c s)
  case (Cons a as)
  then show ?case unfolding deRegisterAccel.simps Let_def arax_accel_get_total_size_def arax_accel_get_available_size_def
    by (intro sound_intro run_intro; (assumption | blast)?)
qed (auto intro!: sound_intro)

text \<open>Everything the controller does to the segment is a run of the library.\<close>

lemma step_runs:
  assumes "controller_step ce (c, s) (c', s')"
  shows "arax_run (arax ce) s s'"
  using assms
proof cases
  case step_setup
  then show ?thesis using soundD(2) [OF setup_runs [OF run_start]] by blast
next
  case step_work
  then show ?thesis using soundD(2) [OF iteration_runs [OF run_start]] by blast
next
  case step_teardown
  then show ?thesis using soundD(1) [OF teardown_runs [OF run_start]] by blast
next
  case step_balance
  then show ?thesis using soundD(2) [OF balancer_runs [OF run_start]] by blast
next
  case step_delete
  then show ?thesis using soundD(2) [OF delete_runs [OF run_start]] by blast
next
  case step_deregister
  then show ?thesis using soundD(2) [OF deregister_runs [OF run_start]] by blast
qed (auto intro: run_start run_one)

lemma controller_run_runs:
  assumes "controller_run ce (c, s) (c', s')"
  shows "arax_run (arax ce) s s'"
proof -
  have "arax_run (arax ce) (snd x) (snd y)" if "controller_run ce x y" for x y
    using that by (induction rule: controller_run.induct) (auto intro: run_start run_trans [OF step_runs])
  from this [OF assms] show ?thesis by simp
qed

end

end
