(* ===== verification/Service.thy ===== *)
theory Service
  imports Controller
begin

text \<open>
  A task from the queue of a virtual accelerator to its end on a CPU: what an iteration of the thread of the
  accelerator does to it, step by step, for the transfers of data every application uses.
\<close>

section \<open>The steps\<close>

lemma set_body_upd: "objects s a = Some (h, b) \<Longrightarrow> set_body a b' s = s\<lparr>objects := (objects s)(a \<mapsto> (h, b'))\<rparr>"
  by (simp add: set_body_def)

lemma set_obj_upd: "objects s a = Some (h, b) \<Longrightarrow> set_obj a h' s = s\<lparr>objects := (objects s)(a \<mapsto> (h', b))\<rparr>"
  by (simp add: set_obj_def)

lemma ref_inc_upd:
  assumes "objects s a = Some (h, b)" "a \<noteq> 0" "ob_type h \<noteq> ARAX_TYPE_COUNT" "0 \<le> sint (ref_count h)"
  shows "arax_object_ref_inc a s = Ok (s\<lparr>objects := (objects s)(a \<mapsto> (h\<lparr>ref_count := ref_count h + 1\<rparr>, b))\<rparr>)"
  using assms by (simp add: arax_object_ref_inc_def get_obj_def set_obj_def)

text \<open>A reference that is not the last.\<close>

lemma ref_dec_upd:
  assumes "objects s a = Some (h, b)" "a \<noteq> 0" "ob_type h \<noteq> ARAX_TYPE_COUNT" "1 < sint (ref_count h)" "repo_lock s (ob_type h) = 0"
  shows "arax_object_ref_dec (Suc n) env a s = Ok (ref_count h - 1, s\<lparr>objects := (objects s)(a \<mapsto> (h\<lparr>ref_count := ref_count h - 1\<rparr>, b))\<rparr>)"
proof -
  have "(repo_lock s)(ob_type h := 0) = repo_lock s" using assms(5) by auto
  moreover have "ref_count h - 1 \<noteq> 0" using assms(4) by auto
  ultimately show ?thesis using assms
    by (cases s) (simp add: arax_object_ref_dec_with_def get_obj_def arax_object_list_lock_def arax_object_list_unlock_def set_obj_def Let_def)
qed

text \<open>The last reference to a task, with references left to its data and its virtual accelerator.\<close>

lemma task_last_ref:
  assumes t: "objects s t = Some (h, Task tk)" "t \<noteq> 0" "ob_type h = ARAX_TYPE_TASK" "ref_count h = 1"
    and io: "task_args tk = [d]" "ta_accel tk = v" "v \<noteq> 0" "d \<noteq> 0"
    and d: "objects s d = Some (hD, Data da)" "ob_type hD = ARAX_TYPE_DATA" "1 < sint (ref_count hD)"
    and v: "objects s v = Some (hv, Vaccel va)" "ob_type hv = ARAX_TYPE_VIRT_ACCEL" "1 < sint (ref_count hv)"
    and locks: "repo_lock s = (\<lambda>_. 0)" and free: "mspace_free (mspace env) (allocator s) t = Ok al"
    and thr: "throttle_inv (throttle s)" "unat (available (throttle s)) + unat (alloc_size h) \<le> unat (capacity (throttle s))"
  shows "arax_object_ref_dec (Suc (Suc n)) env t s = Ok (0, s\<lparr>
    lists := utils_list_del (lists s) (Repo_head ARAX_TYPE_TASK) (Obj_node t), allocator := al,
    throttle := (throttle s)\<lparr>available := available (throttle s) + alloc_size h\<rparr>,
    objects := (objects s)(d \<mapsto> (hD\<lparr>ref_count := ref_count hD - 1\<rparr>, Data da), v \<mapsto> (hv\<lparr>ref_count := ref_count hv - 1\<rparr>, Vaccel va), t := None)\<rparr>)"
proof -
  have ne: "d \<noteq> v" "d \<noteq> t" "v \<noteq> t" using t d v by auto
  let ?s = "s\<lparr>lists := utils_list_del (lists s) (Repo_head ARAX_TYPE_TASK) (Obj_node t), objects := (objects s)(t \<mapsto> (h\<lparr>ref_count := 0\<rparr>, Task tk))\<rparr>"
  let ?s1 = "?s\<lparr>objects := (objects ?s)(d \<mapsto> (hD\<lparr>ref_count := ref_count hD - 1\<rparr>, Data da))\<rparr>"
  let ?s2 = "?s1\<lparr>objects := (objects ?s1)(v \<mapsto> (hv\<lparr>ref_count := ref_count hv - 1\<rparr>, Vaccel va))\<rparr>"
  have 1: "arax_object_ref_dec (Suc n) env d ?s = Ok (ref_count hD - 1, ?s1)"
    using ref_dec_upd [of ?s d hD "Data da" n env] d io(4) locks ne by simp
  have 2: "arax_object_ref_dec (Suc n) env v ?s1 = Ok (ref_count hv - 1, ?s2)"
    using ref_dec_upd [of ?s1 v hv "Vaccel va" n env] v io(3) locks ne by simp
  have dtor: "dtor_arax_task_msg_s (arax_object_ref_dec (Suc n) env) t ?s = Ok ?s2"
    using io 1 2 by (simp add: dtor_arax_task_msg_s_def get_task_def task_args_def [symmetric] del: arax_object_ref_dec.simps)
  have inc: "arax_throttle_size_inc (throttle s) (alloc_size h) = Ok ((throttle s)\<lparr>available := available (throttle s) + alloc_size h\<rparr>)"
    by (rule throttle_inc_ok(1) [OF thr])
  have lock: "(repo_lock s)(ARAX_TYPE_TASK := 0) = repo_lock s" using locks by auto
  have reclaim: "object_reclaim env (dtor_table env (arax_object_ref_dec (Suc n) env)) ARAX_TYPE_TASK t ?s = Ok (s\<lparr>
    lists := utils_list_del (lists s) (Repo_head ARAX_TYPE_TASK) (Obj_node t), allocator := al,
    throttle := (throttle s)\<lparr>available := available (throttle s) + alloc_size h\<rparr>,
    objects := (objects s)(d \<mapsto> (hD\<lparr>ref_count := ref_count hD - 1\<rparr>, Data da), v \<mapsto> (hv\<lparr>ref_count := ref_count hv - 1\<rparr>, Vaccel va), t := None)\<rparr>)"
    using dtor free inc ne by (simp add: object_reclaim_def get_obj_def arch_alloc_free_def arch_alloc_free_fn_def arax_pipe_size_inc_def
        fun_upd_twist del: arax_object_ref_dec.simps)
  have eq: "s\<lparr>objects := (objects s)(t \<mapsto> (h\<lparr>ref_count := 0\<rparr>, Task tk)),
      lists := utils_list_del (lists s) (Repo_head ARAX_TYPE_TASK) (Obj_node t), repo_lock := \<lambda>_. 0\<rparr> = ?s"
    using locks by (cases s) simp
  show ?thesis unfolding arax_object_ref_dec.simps(2) [of "Suc n"] arax_object_ref_dec_with_def
    using t lock reclaim locks
    by (simp add: eq get_obj_def arax_object_list_lock_def arax_object_list_unlock_def set_obj_def Let_def del: arax_object_ref_dec.simps)
qed

text \<open>Placing an output on the accelerator takes its size from the accelerator, or waits until there is enough.\<close>

lemma cpu_alloc_upd:
  assumes d: "objects s d = Some (hD, Data da)" "da_accel da = v" and v: "objects s v = Some (hv, Vaccel va)" "va_phys va = a" "a \<noteq> 0"
    and a: "objects s a = Some (ha, Accel x)" "throttle_inv (ac_throttle x)"
  shows "CPU_alloc_remote d s = (if da_size da \<le> available (ac_throttle x)
    then Ok (s\<lparr>objects := (objects s)(d \<mapsto> (hD, Data (da\<lparr>da_phys := a\<rparr>)),
      a \<mapsto> (ha, Accel (x\<lparr>ac_throttle := (ac_throttle x)\<lparr>available := available (ac_throttle x) - da_size da\<rparr>\<rparr>)))\<rparr>)
    else Fault (Blocked ''pthread_cond_wait''))"
proof -
  have "d \<noteq> a" using d a by auto
  then show ?thesis using assms throttle_dec_ok(1) [OF a(2), of "da_size da"] throttle_dec_blocks [OF a(2), of "da_size da"]
    by (auto simp: CPU_alloc_remote_def get_data_def get_vaccel_def arax_accel_size_dec_def get_accel_def set_body_def)
qed

text \<open>What \<open>arax_task_mark_done\<close> leaves of a task.\<close>

definition done_task :: "arax_task_msg_s \<Rightarrow> arax_task_msg_s" where
  "done_task t = t\<lparr>ta_state := task_completed, ta_done := async_completion_complete (ta_done t)\<rparr>"

lemma mark_done_upd:
  assumes "objects s t = Some (h, Task tk)"
  shows "arax_task_mark_done t task_completed s = Ok (s\<lparr>objects := (objects s)(t \<mapsto> (h, Task (done_task tk)))\<rparr>)"
  using assms by (simp add: arax_task_mark_done_def mod_task_def get_task_def set_body_def done_task_def)

lemma get_cpu_upd:
  assumes t: "objects s t = Some (h, Task tk)" "in_count tk = 0" "out_count tk = 1" "task_io tk = [d]"
    and d: "objects s d = Some (hD, Data da)" "host_size tk = da_size da"
  shows "arax_data_get_cpu env t s = Ok (s\<lparr>objects := (objects s)(t \<mapsto>
    (h, Task (done_task (tk\<lparr>host_data := read_bytes (buffer da) (unat (da_size da)) s\<rparr>))))\<rparr>)"
  using assms
  by (simp add: arax_data_get_cpu_def get_task_def task_arg_def arax_data_size_def get_data_def arax_task_host_data_def buffer_read_def
      in_buffer_def set_body_def arax_task_mark_done_def mod_task_def done_task_def)

lemma set_cpu_upd:
  assumes t: "objects s t = Some (h, Task tk)" "t \<noteq> 0" "in_count tk = 0" "out_count tk = 1" "task_io tk = [d]" "length (host_data tk) = unat (da_size da)"
    and h: "ob_type h = ARAX_TYPE_TASK" "1 < sint (ref_count h)" "repo_lock s ARAX_TYPE_TASK = 0"
    and d: "objects s d = Some (hD, Data da)" "host_size tk = da_size da"
  shows "arax_data_set_cpu (Suc n) env t s =
    Ok ((write_bytes (buffer da) (host_data tk) s)\<lparr>objects := (objects s)(t \<mapsto> (h\<lparr>ref_count := ref_count h - 1\<rparr>, Task tk))\<rparr>)"
proof -
  let ?s = "write_bytes (buffer da) (host_data tk) s"
  have o: "objects ?s = objects s" "repo_lock ?s = repo_lock s" by (simp_all add: write_bytes_def)
  have "arax_object_ref_dec (Suc n) env t ?s = Ok (ref_count h - 1, ?s\<lparr>objects := (objects s)(t \<mapsto> (h\<lparr>ref_count := ref_count h - 1\<rparr>, Task tk))\<rparr>)"
    using ref_dec_upd [of ?s t h "Task tk" n env] t h o by simp
  then show ?thesis using assms
    by (simp add: arax_data_set_cpu_def get_task_def task_arg_def arax_data_size_def get_data_def arax_task_host_data_def buffer_write_def
        in_buffer_def arax_task_free_def arax_task_free_with_def del: arax_object_ref_dec.simps)
qed

section \<open>The service of a transfer\<close>

lemma mod_thread_twice: "mod_thread th f (mod_thread th g c) = mod_thread th (\<lambda>t. f (g t)) c"
  by (cases "th < length (cn_threads c)") (simp_all add: mod_thread_def list_update_beyond)

lemma mod_thread_type: "accelThreadType (cn_threads (mod_thread th f c) ! th) = accelThreadType (cn_threads c ! th)"
  if "\<And>t. accelThreadType (f t) = accelThreadType t"
  using that by (cases "th < length (cn_threads c)") (simp_all add: mod_thread_def list_update_beyond)

text \<open>The thread behind a task it served.\<close>

definition served_one :: "nat \<Rightarrow> controller_s \<Rightarrow> controller_s" where
  "served_one th c = mod_thread th (\<lambda>t. t\<lparr>served_tasks := served_tasks t + 1, runningTask := 0\<rparr>) c"

text \<open>The thread runs the CPU backend, and the procedure of the task is the builtin \<open>f\<close> there.\<close>

definition cpu_builtin :: "cpu_functor \<Rightarrow> controller_env \<Rightarrow> nat \<Rightarrow> controller_s \<Rightarrow> arax_task_msg_s \<Rightarrow> arax_pipe_s \<Rightarrow> bool" where
  "cpu_builtin f ce th c tk s \<longleftrightarrow>
     (\<exists>loaded pr. let ty = accelThreadType (cn_threads c ! th) in
       backend ce th = CPUaccelThread (cpu_code loaded (fuel ce) (arax ce)) \<and> arax_accel_valid_type ty \<and>
       ta_proc tk \<noteq> 0 \<and> get_proc (ta_proc tk) s = Ok pr \<and> functors pr ! unat ty \<noteq> 0 \<and> loaded (functors pr ! unat ty) = Some f)"

text \<open>What the thread has done to the segment when the code of a task with the output \<open>d\<close> starts.\<close>

definition placed :: "addr \<Rightarrow> addr \<Rightarrow> addr \<Rightarrow> arax_object_s \<times> arax_task_msg_s \<Rightarrow> arax_object_s \<times> arax_data_s \<Rightarrow>
    arax_object_s \<times> arax_accel_s \<Rightarrow> arax_pipe_s \<Rightarrow> arax_pipe_s" where
  "placed t d a tk da x s = s\<lparr>objects := (objects s)(
     t \<mapsto> ((fst tk)\<lparr>ref_count := ref_count (fst tk) + 1\<rparr>, Task (snd tk)),
     d \<mapsto> (fst da, Data ((snd da)\<lparr>da_phys := a\<rparr>)),
     a \<mapsto> (fst x, Accel ((snd x)\<lparr>ac_throttle := (ac_throttle (snd x))\<lparr>available := available (ac_throttle (snd x)) - da_size (snd da)\<rparr>\<rparr>)))\<rparr>"

lemma serve_output:
  assumes f: "cpu_builtin f ce th c tk s"
    and t: "objects s t = Some (h, Task tk)" "t \<noteq> 0" "ob_type h = ARAX_TYPE_TASK" "0 \<le> sint (ref_count h)" "ta_accel tk \<noteq> 0"
    and io: "in_count tk = 0" "out_count tk = 1" "task_io tk = [d]"
    and d: "objects s d = Some (hD, Data da)" and v: "objects s (da_accel da) = Some (hv, Vaccel va)" "va_phys va \<noteq> 0"
    and a: "objects s (va_phys va) = Some (ha, Accel x)" "throttle_inv (ac_throttle x)"
  shows "serve_task ce th t c s = (if da_size da \<le> available (ac_throttle x)
    then rbind (cpu_functor_code (fuel ce) (arax ce) f t (placed t d (va_phys va) (h, tk) (hD, da) (ha, x) s)) (\<lambda>s.
      rbind (arax_object_ref_dec (fuel ce) (arax ce) t s) (\<lambda>(_, s). Ok (served_one th c, s)))
    else Fault (Blocked ''pthread_cond_wait''))"
proof -
  let ?ty = "accelThreadType (cn_threads c ! th)"
  obtain loaded pr hp where f': "backend ce th = CPUaccelThread (cpu_code loaded (fuel ce) (arax ce))" "arax_accel_valid_type ?ty" "ta_proc tk \<noteq> 0"
    "objects s (ta_proc tk) = Some (hp, Proc pr)" "functors pr ! unat ?ty \<noteq> 0" "loaded (functors pr ! unat ?ty) = Some f"
    using f by (auto simp: cpu_builtin_def Let_def get_proc_def split: option.splits arax_body.splits)
  have ne: "t \<noteq> d" "t \<noteq> va_phys va" "t \<noteq> ta_proc tk" "d \<noteq> ta_proc tk" "va_phys va \<noteq> ta_proc tk" "d \<noteq> va_phys va" "t \<noteq> da_accel da"
    using t d a v f'(4) by auto
  let ?s = "s\<lparr>objects := (objects s)(t \<mapsto> (h\<lparr>ref_count := ref_count h + 1\<rparr>, Task tk))\<rparr>"
  have inc: "arax_object_ref_inc t s = Ok ?s" using ref_inc_upd [OF t(1,2)] t(3,4) by simp
  have alloc: "CPU_alloc_remote d ?s = (if da_size da \<le> available (ac_throttle x)
      then Ok (placed t d (va_phys va) (h, tk) (hD, da) (ha, x) s) else Fault (Blocked ''pthread_cond_wait''))"
    using cpu_alloc_upd [of ?s d hD da "da_accel da" hv va "va_phys va" ha x] d v a ne by (simp add: placed_def cong: if_cong)
  have fn: "arax_proc_get_functor (ta_proc tk) ?ty (placed t d (va_phys va) (h, tk) (hD, da) (ha, x) s) = Ok (functors pr ! unat ?ty)"
    using f' ne by (simp add: arax_proc_get_functor_def get_proc_def placed_def)
  show ?thesis using t io inc alloc fn f'
    by (auto simp: serve_task_def get_task_def get_proc_def task_args_def CPUaccelThread_def default_execute_def cpu_code_def mod_thread_type mod_thread_twice
      served_one_def)
qed

lemma sint_Suc:
  assumes "0 \<le> sint (x :: u32)" "sint x < 2 ^ 31 - 1"
  shows "sint (x + 1) = sint x + 1"
  using assms by (simp add: sint_word_ariths(1) signed_take_bit_int_eq_self)

lemma serve_get:
  assumes f: "cpu_builtin F_arax_data_get_cpu ce th c tk s" and n: "fuel ce = Suc n"
    and t: "objects s t = Some (h, Task tk)" "t \<noteq> 0" "ob_type h = ARAX_TYPE_TASK" "0 < sint (ref_count h)" "sint (ref_count h) < 2 ^ 31 - 1" "ta_accel tk \<noteq> 0"
    and io: "in_count tk = 0" "out_count tk = 1" "task_io tk = [d]" "host_size tk = da_size da"
    and d: "objects s d = Some (hD, Data da)" and v: "objects s (da_accel da) = Some (hv, Vaccel va)" "va_phys va \<noteq> 0"
    and a: "objects s (va_phys va) = Some (ha, Accel x)" "throttle_inv (ac_throttle x)"
    and lock: "repo_lock s ARAX_TYPE_TASK = 0" and avail: "da_size da \<le> available (ac_throttle x)"
  shows "serve_task ce th t c s = Ok (served_one th c, (placed t d (va_phys va) (h, tk) (hD, da) (ha, x) s)\<lparr>objects :=
    (objects (placed t d (va_phys va) (h, tk) (hD, da) (ha, x) s))(t \<mapsto>
      (h, Task (done_task (tk\<lparr>host_data := read_bytes (buffer da) (unat (da_size da)) s\<rparr>))))\<rparr>)"
proof -
  let ?s = "placed t d (va_phys va) (h, tk) (hD, da) (ha, x) s" and ?h = "h\<lparr>ref_count := ref_count h + 1\<rparr>"
  let ?tk = "done_task (tk\<lparr>host_data := read_bytes (buffer da) (unat (da_size da)) s\<rparr>)"
  let ?s1 = "?s\<lparr>objects := (objects ?s)(t \<mapsto> (?h, Task ?tk))\<rparr>"
  have ne: "t \<noteq> d" "t \<noteq> va_phys va" "d \<noteq> va_phys va" using t d a by auto
  have o: "objects ?s t = Some (?h, Task tk)" "objects ?s d = Some (hD, Data (da\<lparr>da_phys := va_phys va\<rparr>))" "repo_lock ?s = repo_lock s"
    and b: "read_bytes y k ?s = read_bytes y k s" for y k
    using ne by (simp_all add: placed_def read_bytes_def)
  have get: "arax_data_get_cpu (arax ce) t ?s = Ok ?s1"
    using get_cpu_upd [OF o(1) io(1-3) o(2), of "arax ce"] io(4) by (simp add: b)
  have rc: "ob_type ?h \<noteq> ARAX_TYPE_COUNT" "1 < sint (ref_count ?h)" "?h\<lparr>ref_count := ref_count ?h - 1\<rparr> = h"
    using t sint_Suc [of "ref_count h"] by simp_all
  have "arax_object_ref_dec (Suc n) (arax ce) t ?s1 = Ok (ref_count h, ?s1\<lparr>objects := (objects ?s1)(t \<mapsto> (h, Task ?tk))\<rparr>)"
    using ref_dec_upd [of ?s1 t ?h "Task ?tk" n "arax ce"] rc t lock o(3) by simp
  then show ?thesis using get avail t
    by (subst serve_output [OF f t(1-3) _ t(6) io(1-3) d v a]) (simp_all add: n del: arax_object_ref_dec.simps)
qed

lemma serve_set:
  assumes f: "cpu_builtin F_arax_data_set_cpu ce th c tk s" and n: "fuel ce = Suc (Suc n)"
    and t: "objects s t = Some (h, Task tk)" "t \<noteq> 0" "ob_type h = ARAX_TYPE_TASK" "ref_count h = 1" "ta_accel tk = da_accel da" "da_accel da \<noteq> 0"
    and io: "in_count tk = 0" "out_count tk = 1" "task_io tk = [d]" "host_size tk = da_size da" "length (host_data tk) = unat (da_size da)"
    and d: "objects s d = Some (hD, Data da)" "d \<noteq> 0" "ob_type hD = ARAX_TYPE_DATA" "1 < sint (ref_count hD)"
    and v: "objects s (da_accel da) = Some (hv, Vaccel va)" "ob_type hv = ARAX_TYPE_VIRT_ACCEL" "1 < sint (ref_count hv)" "va_phys va \<noteq> 0"
    and a: "objects s (va_phys va) = Some (ha, Accel x)" "throttle_inv (ac_throttle x)"
    and locks: "repo_lock s = (\<lambda>_. 0)" and free: "mspace_free (mspace (arax ce)) (allocator s) t = Ok al"
    and thr: "throttle_inv (throttle s)" "unat (available (throttle s)) + unat (alloc_size h) \<le> unat (capacity (throttle s))"
    and avail: "da_size da \<le> available (ac_throttle x)"
  shows "serve_task ce th t c s = Ok (served_one th c, (write_bytes (buffer da) (host_data tk) s)\<lparr>
    lists := utils_list_del (lists s) (Repo_head ARAX_TYPE_TASK) (Obj_node t), allocator := al,
    throttle := (throttle s)\<lparr>available := available (throttle s) + alloc_size h\<rparr>,
    objects := (objects s)(
      va_phys va \<mapsto> (ha, Accel (x\<lparr>ac_throttle := (ac_throttle x)\<lparr>available := available (ac_throttle x) - da_size da\<rparr>\<rparr>)),
      d \<mapsto> (hD\<lparr>ref_count := ref_count hD - 1\<rparr>, Data (da\<lparr>da_phys := va_phys va\<rparr>)),
      da_accel da \<mapsto> (hv\<lparr>ref_count := ref_count hv - 1\<rparr>, Vaccel va), t := None)\<rparr>)"
proof -
  let ?s = "placed t d (va_phys va) (h, tk) (hD, da) (ha, x) s" and ?h = "h\<lparr>ref_count := ref_count h + 1\<rparr>"
  let ?s1 = "(write_bytes (buffer da) (host_data tk) ?s)\<lparr>objects := (objects ?s)(t \<mapsto> (h, Task tk))\<rparr>"
  have ne: "t \<noteq> d" "t \<noteq> va_phys va" "d \<noteq> va_phys va" "da_accel da \<noteq> t" "da_accel da \<noteq> d" "da_accel da \<noteq> va_phys va" using t d a v by auto
  have o: "objects ?s t = Some (?h, Task tk)" "objects ?s d = Some (hD, Data (da\<lparr>da_phys := va_phys va\<rparr>))"
    "objects ?s (da_accel da) = Some (hv, Vaccel va)" "repo_lock ?s = repo_lock s"
    using ne v(1) by (simp_all add: placed_def)
  have rc: "1 < sint (ref_count ?h)" "?h\<lparr>ref_count := ref_count ?h - 1\<rparr> = h" using t(4) sint_Suc [of 1] by simp_all
  have set: "arax_data_set_cpu (Suc (Suc n)) (arax ce) t ?s = Ok ?s1"
    using set_cpu_upd [OF o(1) t(2) io(1-3) _ _ rc(1) _ o(2), of "Suc n" "arax ce"] io(4,5) t(3) locks rc(2) o(4) by simp
  have s1: "objects ?s1 t = Some (h, Task tk)" "objects ?s1 d = Some (hD, Data (da\<lparr>da_phys := va_phys va\<rparr>))"
    "objects ?s1 (da_accel da) = Some (hv, Vaccel va)" "repo_lock ?s1 = (\<lambda>_. 0)" "allocator ?s1 = allocator s" "throttle ?s1 = throttle s"
    "lists ?s1 = lists s"
    using o ne locks by (simp_all add: write_bytes_def placed_def)
  have last: "arax_object_ref_dec (Suc (Suc n)) (arax ce) t ?s1 = Ok (0, ?s1\<lparr>
    lists := utils_list_del (lists ?s1) (Repo_head ARAX_TYPE_TASK) (Obj_node t), allocator := al,
    throttle := (throttle ?s1)\<lparr>available := available (throttle ?s1) + alloc_size h\<rparr>,
    objects := (objects ?s1)(d \<mapsto> (hD\<lparr>ref_count := ref_count hD - 1\<rparr>, Data (da\<lparr>da_phys := va_phys va\<rparr>)),
      da_accel da \<mapsto> (hv\<lparr>ref_count := ref_count hv - 1\<rparr>, Vaccel va), t := None)\<rparr>)"
    by (rule task_last_ref [OF s1(1) t(2-4) _ t(5,6) d(2) s1(2) d(3,4) s1(3) v(2,3) s1(4)])
      (use io free thr in \<open>simp_all add: task_args_def s1\<close>)
  have "serve_task ce th t c s = rbind (arax_object_ref_dec (Suc (Suc n)) (arax ce) t ?s1) (\<lambda>(_, s). Ok (served_one th c, s))"
    using set avail t by (subst serve_output [OF f t(1-3) _ _ io(1-3) d(1) v(1,4) a]) (simp_all add: n del: arax_object_ref_dec.simps)
  moreover have "?s1\<lparr>
    lists := utils_list_del (lists ?s1) (Repo_head ARAX_TYPE_TASK) (Obj_node t), allocator := al,
    throttle := (throttle ?s1)\<lparr>available := available (throttle ?s1) + alloc_size h\<rparr>,
    objects := (objects ?s1)(d \<mapsto> (hD\<lparr>ref_count := ref_count hD - 1\<rparr>, Data (da\<lparr>da_phys := va_phys va\<rparr>)),
      da_accel da \<mapsto> (hv\<lparr>ref_count := ref_count hv - 1\<rparr>, Vaccel va), t := None)\<rparr> =
    (write_bytes (buffer da) (host_data tk) s)\<lparr>
    lists := utils_list_del (lists s) (Repo_head ARAX_TYPE_TASK) (Obj_node t), allocator := al,
    throttle := (throttle s)\<lparr>available := available (throttle s) + alloc_size h\<rparr>,
    objects := (objects s)(
      va_phys va \<mapsto> (ha, Accel (x\<lparr>ac_throttle := (ac_throttle x)\<lparr>available := available (ac_throttle x) - da_size da\<rparr>\<rparr>)),
      d \<mapsto> (hD\<lparr>ref_count := ref_count hD - 1\<rparr>, Data (da\<lparr>da_phys := va_phys va\<rparr>)),
      da_accel da \<mapsto> (hv\<lparr>ref_count := ref_count hv - 1\<rparr>, Vaccel va), t := None)\<rparr>"
    using ne by (simp add: write_bytes_def placed_def fun_eq_iff)
  ultimately show ?thesis unfolding last by simp
qed

section \<open>An iteration\<close>

text \<open>The segment when a thread has taken one task off the count of its accelerator.\<close>

definition one_less :: "addr \<Rightarrow> arax_object_s \<Rightarrow> arax_accel_s \<Rightarrow> arax_pipe_s \<Rightarrow> arax_pipe_s" where
  "one_less a ha x s = s\<lparr>objects := (objects s)(a \<mapsto> (ha, Accel (x\<lparr>ac_tasks := ac_tasks x - 1\<rparr>)))\<rparr>"

lemma update_upd:
  assumes a: "arax_accel (thread_conf th c) = a" "objects s a = Some (ha, Accel x)" "ac_lock x = cond_free"
    and l: "utils_list_to_array (lists s) (Vaccels_head a) True = Ok (of_nat (length VACs), VACs)" "ls_length (lists s) (Vaccels_head a) = of_nat (length VACs)"
      "length VACs < 2 ^ 64"
  shows "updateVirtAccels th c s = (if ac_tasks x = 0 then Fault (Blocked ''pthread_cond_wait'')
    else Ok (mod_thread th (\<lambda>t. t\<lparr>assignedVACs := VACs\<rparr>) c, one_less a ha x s))"
proof -
  have x: "x\<lparr>ac_tasks := k, ac_lock := cond_free\<rparr> = x\<lparr>ac_tasks := k\<rparr>" for k using a(3) by (cases x) simp
  have wait: "arax_accel_wait_for_task a s = (if ac_tasks x = 0 then Fault (Blocked ''pthread_cond_wait'') else Ok (one_less a ha x s))"
    using a by (simp add: x arax_accel_wait_for_task_def accel_lock_def accel_unlock_def mod_accel_def get_accel_def set_body_def one_less_def
        async_condition_wait_def)
  have len: "unat (of_nat (length VACs) :: u64) = length VACs" using l(3) by (simp add: unat_of_nat take_bit_nat_eq_self)
  have "arax_accel_get_assigned_vaccels a (one_less a ha x s) = Ok ((of_nat (length VACs), VACs), one_less a ha x s)"
    using a l by (simp add: x arax_accel_get_assigned_vaccels_def accel_lock_def accel_unlock_def mod_accel_def get_accel_def set_body_def one_less_def)
  with wait len a(1) show ?thesis by (simp add: updateVirtAccels_def)
qed

lemma one_less_vacs:
  assumes "objects s a = Some (ha, Accel x)"
  shows "vac_ok env (one_less a ha x s) v = vac_ok env s v" "vac_tasks env v (one_less a ha x s) = vac_tasks env v s"
    "first_busy env (one_less a ha x s) vs = first_busy env s vs"
proof -
  have v: "get_vaccel v (one_less a ha x s) = get_vaccel v s" for v using assms by (simp add: get_vaccel_def one_less_def)
  then have t: "vac_tasks env v (one_less a ha x s) = vac_tasks env v s" for v by (simp add: vac_tasks_def)
  show "vac_ok env (one_less a ha x s) v = vac_ok env s v" "vac_tasks env v (one_less a ha x s) = vac_tasks env v s" by (simp_all add: vac_ok_def v t)
  show "first_busy env (one_less a ha x s) vs = first_busy env s vs" by (induction vs) (simp_all add: t)
qed

text \<open>The controller when the thread \<open>th\<close> has looked at its virtual accelerators \<open>VACs\<close> and moved its counter.\<close>

definition selected :: "nat \<Rightarrow> nat \<Rightarrow> addr list \<Rightarrow> u32 \<Rightarrow> controller_s \<Rightarrow> controller_s" where
  "selected sc th VACs cnt c = (mod_thread th (\<lambda>t. t\<lparr>assignedVACs := VACs\<rparr>) c)\<lparr>cn_schedulers := (cn_schedulers c)[sc :=
     (cn_schedulers c ! sc)\<lparr>rr_counter := (rr_counter (cn_schedulers c ! sc))(th := cnt)\<rparr>]\<rparr>"

lemma iteration_round_robin:
  assumes c: "th < length (cn_threads c)" "job_preference (thread_conf th c) \<noteq> NoJob" "grp_scheduler (cn_groups c ! acc_group (thread_conf th c)) = sc"
      "sch_class (cn_schedulers c ! sc) = RoundRobinScheduler" "vpipe_s ce \<noteq> 0" "good_capacity (queue_capacity (arax ce))"
    and a: "arax_accel (thread_conf th c) = a" "objects s a = Some (ha, Accel x)" "ac_lock x = cond_free"
    and l: "utils_list_to_array (lists s) (Vaccels_head a) True = Ok (of_nat (length VACs), VACs)" "ls_length (lists s) (Vaccels_head a) = of_nat (length VACs)"
      "length VACs < 2 ^ 64" "VACs \<noteq> []"
    and q: "\<forall>v\<in>set VACs. vac_ok (arax ce) s v" "\<forall>v\<in>set VACs. \<forall>t\<in>set (vac_tasks (arax ce) v s). ptr_in_segment (vpipe_s ce) t s"
  shows "work_iteration ce th c s =
    (if ac_tasks x = 0 then Fault (Blocked ''pthread_cond_wait'')
     else let cnt = rr_counter (cn_schedulers c ! sc) th; off = rr_offset VACs cnt in
       case first_busy (arax ce) s (rotate off VACs) of
         None \<Rightarrow> Ok (selected sc th VACs cnt c, one_less a ha x s)
       | Some k \<Rightarrow> let i = (off + k) mod length VACs in
           serve_task ce th (hd (vac_tasks (arax ce) (VACs ! i) s)) (selected sc th VACs (of_nat i) c) (vac_pop (arax ce) (VACs ! i) (one_less a ha x s)))"
proof (cases "ac_tasks x = 0")
  case True
  with update_upd [OF a l(1-3)] c(2) show ?thesis by (simp add: work_iteration_def)
next
  case False
  let ?cnt = "rr_counter (cn_schedulers c ! sc) th" and ?s = "one_less a ha x s" and ?e = "arax ce"
  let ?c = "mod_thread th (\<lambda>t. t\<lparr>assignedVACs := VACs\<rparr>) c"
  let ?off = "rr_offset VACs ?cnt"
  have ok: "\<forall>v\<in>set VACs. vac_ok ?e ?s v" using q(1) one_less_vacs(1) [OF a(2)] by simp
  have t: "vac_tasks ?e v ?s = vac_tasks ?e v s" "first_busy ?e ?s vs = first_busy ?e s vs" for v vs by (simp_all add: one_less_vacs [OF a(2)])
  have sel: "selectTask ce sc th ?c ?s = (case first_busy ?e s (rotate ?off VACs) of
      None \<Rightarrow> Ok ((0, selected sc th VACs ?cnt c), ?s)
    | Some k \<Rightarrow> let i = (?off + k) mod length VACs in
        Ok ((hd (vac_tasks ?e (VACs ! i) s), selected sc th VACs (of_nat i) c), vac_pop ?e (VACs ! i) ?s))"
    using c by (simp add: selectTask_def Let_def mod_thread_def RoundRobin_selectTask_spec [OF c(6) ok l(4)] selected_def t split: option.split)
  have seg: "ptr_in_segment (vpipe_s ce) y (vac_pop ?e v ?s) = ptr_in_segment (vpipe_s ce) y s" "ptr_in_segment (vpipe_s ce) y ?s = ptr_in_segment (vpipe_s ce) y s" for y v
    by (simp_all add: ptr_in_segment_def vac_pop_def one_less_def set_body_def split: res.split option.split prod.split)
  have null: "\<not> ptr_in_segment (vpipe_s ce) 0 s" using c(5) by (simp add: ptr_in_segment_def word_neq_0_conv)
  have in_seg: "ptr_in_segment (vpipe_s ce) (hd (vac_tasks ?e (VACs ! ((?off + k) mod length VACs)) s)) s"
    if "first_busy ?e s (rotate ?off VACs) = Some k" for k
  proof -
    have "vac_tasks ?e (rotate ?off VACs ! k) s \<noteq> []" "k < length VACs" using first_busy_Some [OF that] by simp_all
    then have "vac_tasks ?e (VACs ! ((?off + k) mod length VACs)) s \<noteq> []" by (simp add: nth_rotate)
    moreover have "VACs ! ((?off + k) mod length VACs) \<in> set VACs" using l(4) by simp
    ultimately show ?thesis using q(2) hd_in_set by blast
  qed
  have up: "updateVirtAccels th c s = Ok (?c, ?s)" using update_upd [OF a l(1-3)] False by simp
  have "work_iteration ce th c s = rbind (selectTask ce sc th ?c ?s) (\<lambda>((task, c), s).
      if ptr_in_segment (vpipe_s ce) task s then serve_task ce th task c s else Ok (c, s))"
    using c(2,3) by (simp add: work_iteration_def up)
  with False in_seg show ?thesis unfolding sel by (simp add: Let_def seg null split: option.split)
qed

section \<open>An example\<close>

text \<open>
  A CPU accelerator at 4096 with 64 bytes available, a virtual accelerator at 8192 on it, a buffer of two bytes at
  32768 behind the data object at 12288, and two tasks for it: 16384 sets the buffer to 7, 9 and 20480 gets it.
\<close>

definition demo_obj :: "arax_object_type_e \<Rightarrow> u32 \<Rightarrow> arax_object_s" where
  "demo_obj ty refs = \<lparr>alloc_size = 16, ob_type = ty, ref_count = refs, ob_name = ''demo''\<rparr>"

definition demo_accel :: arax_accel_s where
  "demo_accel = \<lparr>ac_type = CPU, ac_state = accel_idle, ac_lock = cond_free, ac_tasks = 2, revision = 0,
     ac_throttle = \<lparr>available = 64, capacity = 64, ready = cond_free\<rparr>, free_vaq = 0\<rparr>"

definition demo_va :: arax_vaccel_s where
  "demo_va = \<lparr>va_type = CPU, ordering = SEQUENTIAL, va_lock = 0, cid = 0, priority = 0, va_phys = 4096, meta = 0,
     va_queue = \<lparr>q_entries = [16384, 20480, 0, 0, 0, 0, 0, 0], q_lock = 0, q_bottom = 2, q_top = 0\<rparr>\<rparr>"

definition demo_buffer :: arax_data_s where
  "demo_buffer = \<lparr>remote = 0, accel_meta = 0, da_accel = 8192, da_size = 2, da_align = 1, flags = 0, buffer = 32768, da_phys = 0\<rparr>"

definition demo_builtin_proc :: "addr \<Rightarrow> arax_proc_s" where
  "demo_builtin_proc f = \<lparr>canrun = 8, functors = [0, 0, 0, f, 0, 0, 0, 0, 0]\<rparr>"

definition demo_transfer :: "addr \<Rightarrow> 8 word list \<Rightarrow> arax_task_msg_s" where
  "demo_transfer p bs = \<lparr>ta_accel = 8192, ta_proc = p, host_size = 2, in_count = 0, out_count = 1, ta_type = CPU, ta_state = task_issued,
     ta_started = 0, ta_done = \<lparr>compl_mutex = True\<rparr>, task_io = [12288], host_data = bs\<rparr>"

definition demo_vaccels :: "node list_heap" where
  "demo_vaccels = utils_list_add (utils_list_node_init (utils_list_init (lists (zero_pipe demo_env)) (Vaccels_head 4096) 0) (Vac_node 8192) 8192)
     (Vaccels_head 4096) (Vac_node 8192)"

definition demo_service :: arax_pipe_s where
  "demo_service = (zero_pipe demo_env)\<lparr>lists := demo_vaccels, shm_size := 65536, throttle := \<lparr>available = 0, capacity = 1024, ready = cond_free\<rparr>, objects := [
     4096 \<mapsto> (demo_obj ARAX_TYPE_PHYS_ACCEL 1, Accel demo_accel), 8192 \<mapsto> (demo_obj ARAX_TYPE_VIRT_ACCEL 3, Vaccel demo_va),
     12288 \<mapsto> (demo_obj ARAX_TYPE_DATA 3, Data demo_buffer), 24576 \<mapsto> (demo_obj ARAX_TYPE_PROC 1, Proc (demo_builtin_proc 1)),
     28672 \<mapsto> (demo_obj ARAX_TYPE_PROC 1, Proc (demo_builtin_proc 2)), 16384 \<mapsto> (demo_obj ARAX_TYPE_TASK 1, Task (demo_transfer 24576 [7, 9])),
     20480 \<mapsto> (demo_obj ARAX_TYPE_TASK 1, Task (demo_transfer 28672 [0, 0]))]\<rparr>"

definition demo_ce :: controller_env where
  "demo_ce = cpu_controller demo_env 5 False 1024 [1 \<mapsto> F_arax_data_set_cpu, 2 \<mapsto> F_arax_data_get_cpu]"

text \<open>One thread, with the type of its accelerator.\<close>

definition demo_controller :: controller_s where
  "demo_controller = \<lparr>cn_config = \<lparr>clean_shm = False, paths = [], accelerators = [], schedulers = [], groups = []\<rparr>, 
     cn_accels = [\<lparr>acc_name = ''cpu'', acc_conf = [], type_str = ''CPUaccelThread'', acc_type = CPU, affinity = {}, arax_accel = 4096, accelthread = Some 0,
       acc_group = 0, job_preference = AnyJob, initial_preference = AnyJob\<rparr>],
     cn_groups = [\<lparr>grp_name = ''all'', grp_scheduler = 0, grp_accelerators = [(''cpu'', 0)], groupId = 0\<rparr>],
     cn_threads = [(new_accelThread 0)\<lparr>accelThreadType := CPU\<rparr>],
     cn_schedulers = [\<lparr>sch_class = RoundRobinScheduler, rr_counter = (\<lambda>_. 0), vaq4migration = 0\<rparr>],
     VAQPhys2accelThread = Map.empty, paccel_rr = (\<lambda>_. None)\<rparr>"

lemma demo_builtins:
  "cpu_builtin F_arax_data_set_cpu demo_ce 0 demo_controller (demo_transfer 24576 [7, 9]) demo_service"
  "cpu_builtin F_arax_data_get_cpu demo_ce 0 demo_controller (demo_transfer 28672 [0, 0]) demo_service"
  by (simp_all add: cpu_builtin_def Let_def demo_ce_def cpu_controller_def demo_controller_def demo_transfer_def demo_service_def get_proc_def
      demo_builtin_proc_def CPU_def arax_accel_valid_type_def ARAX_ACCEL_TYPES_def) (rule exI, rule conjI, rule refl, simp)+

lemma demo_service_objects:
  "objects demo_service 16384 = Some (demo_obj ARAX_TYPE_TASK 1, Task (demo_transfer 24576 [7, 9]))"
  "objects demo_service 20480 = Some (demo_obj ARAX_TYPE_TASK 1, Task (demo_transfer 28672 [0, 0]))"
  "objects demo_service 12288 = Some (demo_obj ARAX_TYPE_DATA 3, Data demo_buffer)"
  "objects demo_service (da_accel demo_buffer) = Some (demo_obj ARAX_TYPE_VIRT_ACCEL 3, Vaccel demo_va)"
  "objects demo_service (va_phys demo_va) = Some (demo_obj ARAX_TYPE_PHYS_ACCEL 1, Accel demo_accel)"
  by (simp_all add: demo_service_def demo_buffer_def demo_va_def)

lemma demo_service_state:
  "repo_lock demo_service = (\<lambda>_. 0)" "fuel demo_ce = 5" "throttle_inv (ac_throttle demo_accel)" "throttle_inv (throttle demo_service)"
  "throttle_inv \<lparr>available = 64, capacity = 64, ready = cond_free\<rparr>" "available (throttle demo_service) = 0" "capacity (throttle demo_service) = 1024"
  "mspace_free (mspace (arax demo_ce)) (allocator demo_service) 16384 =
     Ok ((allocator demo_service)\<lparr>al_root := M_free 16384 # al_root (allocator demo_service)\<rparr>)"
  by (simp_all add: demo_service_def demo_ce_def cpu_controller_def demo_env_def demo_mspace_def demo_accel_def throttle_inv_def zero_pipe_def)

lemmas demo_service_simps = demo_service_objects demo_service_state demo_obj_def demo_transfer_def demo_buffer_def demo_va_def demo_accel_def

section \<open>The properties\<close>

text \<open>A task that gets a buffer, taken by a thread of the CPU: when the accelerator has as much memory available as the
  buffer is long, the task ends with the bytes of the buffer in its host data, marked as completed, and with the
  references it had; nobody else sees a change but that the data is on the accelerator, which has that much less available, and
  nothing gives it back. When the accelerator has less, the thread sleeps with the task in its hands.\<close>

theorem cpu_get_served:
  assumes "cpu_builtin F_arax_data_get_cpu ce th c tk s" and "fuel ce \<noteq> 0"
    and "objects s t = Some (h, Task tk)" "t \<noteq> 0" "ob_type h = ARAX_TYPE_TASK" "0 < sint (ref_count h)" "sint (ref_count h) < 2 ^ 31 - 1" "ta_accel tk \<noteq> 0"
    and "in_count tk = 0" "out_count tk = 1" "task_io tk = [d]" "host_size tk = da_size da"
    and "objects s d = Some (hD, Data da)" and "objects s (da_accel da) = Some (hv, Vaccel va)" "va_phys va \<noteq> 0"
    and "objects s (va_phys va) = Some (ha, Accel x)" "throttle_inv (ac_throttle x)" and "repo_lock s ARAX_TYPE_TASK = 0"
  shows "if da_size da \<le> available (ac_throttle x)
    then \<exists>s'. serve_task ce th t c s = Ok (served_one th c, s') \<and>
      objects s' t = Some (h, Task (tk\<lparr>host_data := read_bytes (buffer da) (unat (da_size da)) s, ta_state := task_completed,
        ta_done := async_completion_complete (ta_done tk)\<rparr>)) \<and>
      objects s' d = Some (hD, Data (da\<lparr>da_phys := va_phys va\<rparr>)) \<and>
      arax_accel_get_available_size (va_phys va) s' = Ok (available (ac_throttle x) - da_size da) \<and>
      (\<forall>y. y \<noteq> t \<and> y \<noteq> d \<and> y \<noteq> va_phys va \<longrightarrow> objects s' y = objects s y) \<and> contents s' = contents s
    else serve_task ce th t c s = Fault (Blocked ''pthread_cond_wait'')"
proof (cases "da_size da \<le> available (ac_throttle x)")
  case True
  obtain n where n: "fuel ce = Suc n" using assms(2) by (cases "fuel ce") auto
  have ne: "t \<noteq> d" "t \<noteq> va_phys va" "d \<noteq> va_phys va" using assms by auto
  show ?thesis using True ne
    by (simp add: serve_get [OF assms(1) n assms(3-18) True] placed_def done_task_def arax_accel_get_available_size_def arax_throttle_get_available_size_def get_accel_def)
next
  case False
  then show ?thesis using assms by (simp add: serve_output [OF assms(1,3-5) _ assms(8-11,13-17)])
qed

theorem cpu_get_served_witness:
  "\<exists>s'. serve_task demo_ce 0 20480 demo_controller demo_service = Ok (served_one 0 demo_controller, s') \<and>
     arax_accel_get_available_size 4096 s' = Ok 62"
  using cpu_get_served [OF demo_builtins(2) _ demo_service_objects(2) _ _ _ _ _ _ _ _ _ demo_service_objects(3,4) _ demo_service_objects(5)]
  by (auto simp: demo_service_simps)

text \<open>C11. What an application puts into a buffer with a transfer is what it gets out of it with the next one: the thread of the CPU
  that serves both leaves the bytes of the first in the host data of the second, on which a wait then returns at once; the
  first task is destroyed, although nobody marked it as done, and its references to the buffer and to the virtual accelerator
  are given back.\<close>

theorem cpu_set_get:
  assumes set: "cpu_builtin F_arax_data_set_cpu ce th c tk1 s" and get: "cpu_builtin F_arax_data_get_cpu ce th c tk2 s" and n: "2 \<le> fuel ce"
    and t1: "objects s t1 = Some (h1, Task tk1)" "t1 \<noteq> 0" "ob_type h1 = ARAX_TYPE_TASK" "ref_count h1 = 1" "ta_accel tk1 = da_accel da" "da_accel da \<noteq> 0"
      "in_count tk1 = 0" "out_count tk1 = 1" "task_io tk1 = [d]" "host_size tk1 = da_size da" "length (host_data tk1) = unat (da_size da)"
    and t2: "objects s t2 = Some (h2, Task tk2)" "t2 \<noteq> 0" "t2 \<noteq> t1" "ob_type h2 = ARAX_TYPE_TASK" "0 < sint (ref_count h2)" "sint (ref_count h2) < 2 ^ 31 - 1"
      "ta_accel tk2 = da_accel da" "in_count tk2 = 0" "out_count tk2 = 1" "task_io tk2 = [d]" "host_size tk2 = da_size da"
      "compl_mutex (ta_done tk2)"
    and d: "objects s d = Some (hD, Data da)" "d \<noteq> 0" "ob_type hD = ARAX_TYPE_DATA" "1 < sint (ref_count hD)"
    and v: "objects s (da_accel da) = Some (hv, Vaccel va)" "ob_type hv = ARAX_TYPE_VIRT_ACCEL" "1 < sint (ref_count hv)" "va_phys va \<noteq> 0"
    and a: "objects s (va_phys va) = Some (ha, Accel x)" "throttle_inv (ac_throttle x)" "2 * unat (da_size da) \<le> unat (available (ac_throttle x))"
    and locks: "repo_lock s = (\<lambda>_. 0)" and free: "mspace_free (mspace (arax ce)) (allocator s) t1 = Ok al"
    and thr: "throttle_inv (throttle s)" "unat (available (throttle s)) + unat (alloc_size h1) \<le> unat (capacity (throttle s))"
  shows "\<exists>s1 s2 s3. serve_task ce th t1 c s = Ok (served_one th c, s1) \<and>
    serve_task ce th t2 (served_one th c) s1 = Ok (served_one th (served_one th c), s2) \<and>
    arax_task_wait controller t2 s2 = Ok (task_completed, s3) \<and>
    get_task t2 s3 = Ok (tk2\<lparr>host_data := host_data tk1, ta_state := task_completed\<rparr>) \<and> objects s3 t1 = None \<and>
    get_obj d s3 = Ok (hD\<lparr>ref_count := ref_count hD - 1\<rparr>) \<and> get_obj (da_accel da) s3 = Ok (hv\<lparr>ref_count := ref_count hv - 1\<rparr>)"
proof -
  let ?a = "va_phys va" and ?v = "da_accel da" and ?av = "available (ac_throttle x)"
  obtain n where n: "fuel ce = Suc (Suc n)" using n by (metis add_2_eq_Suc le_Suc_ex)
  have ne: "t1 \<noteq> d" "t1 \<noteq> ?a" "t1 \<noteq> ?v" "t2 \<noteq> d" "t2 \<noteq> ?a" "t2 \<noteq> ?v" "d \<noteq> ?a" "d \<noteq> ?v" "?v \<noteq> ?a" using t1 t2 d v a by auto
  have avail: "da_size da \<le> ?av" "da_size da \<le> ?av - da_size da" using a(3) by (simp_all add: word_le_nat_alt unat_sub)
  let ?x = "x\<lparr>ac_throttle := (ac_throttle x)\<lparr>available := ?av - da_size da\<rparr>\<rparr>" and ?da = "da\<lparr>da_phys := ?a\<rparr>"
  have x: "throttle_inv (ac_throttle ?x)" using throttle_dec_ok(2) [OF a(2) avail(1)] by simp
  obtain s1 where s1: "serve_task ce th t1 c s = Ok (served_one th c, s1)" "repo_lock s1 = repo_lock s"
    "contents s1 = contents (write_bytes (buffer da) (host_data tk1) s)"
    "objects s1 = (objects s)(?a \<mapsto> (ha, Accel ?x), d \<mapsto> (hD\<lparr>ref_count := ref_count hD - 1\<rparr>, Data ?da),
      ?v \<mapsto> (hv\<lparr>ref_count := ref_count hv - 1\<rparr>, Vaccel va), t1 := None)"
    using serve_set [OF set n t1 d v a(1,2) locks free thr avail(1)] by (simp add: write_bytes_def)
  have "unat (da_size da) < 2 ^ 64" using unsigned_less [of "da_size da"] by simp
  then have bytes: "read_bytes (buffer da) (unat (da_size da)) s1 = host_data tk1"
    using read_write_bytes [of "host_data tk1" "buffer da" s] t1(11)
    by (simp add: read_bytes_def s1(3) order_less_imp_le)
  have get': "cpu_builtin F_arax_data_get_cpu ce th (served_one th c) tk2 s1"
    using get ne t1(1) d(1) v(1) a(1) by (auto simp: cpu_builtin_def Let_def served_one_def mod_thread_type get_proc_def s1(4) split: option.splits arax_body.splits)
  have o: "objects s1 t2 = Some (h2, Task tk2)" "objects s1 d = Some (hD\<lparr>ref_count := ref_count hD - 1\<rparr>, Data ?da)"
    "objects s1 (da_accel ?da) = Some (hv\<lparr>ref_count := ref_count hv - 1\<rparr>, Vaccel va)" "objects s1 ?a = Some (ha, Accel ?x)"
    using ne t2(1,3) by (simp_all add: s1(4))
  have "fuel ce \<noteq> 0" "repo_lock s1 ARAX_TYPE_TASK = 0" "ta_accel tk2 \<noteq> 0" "host_size tk2 = da_size ?da" "da_size ?da \<le> available (ac_throttle ?x)"
    using n s1(2) locks t2 t1(6) avail by simp_all
  note serve_get [OF get' n o(1) t2(2,4-6) this(3) t2(8-10) this(4) o(2,3) v(4) o(4) x this(2,5)]
  then obtain s2 where s2: "serve_task ce th t2 (served_one th c) s1 = Ok (served_one th (served_one th c), s2)"
    "objects s2 = (objects s1)(d \<mapsto> (hD\<lparr>ref_count := ref_count hD - 1\<rparr>, Data ?da),
       ?a \<mapsto> (ha, Accel (?x\<lparr>ac_throttle := (ac_throttle ?x)\<lparr>available := available (ac_throttle ?x) - da_size da\<rparr>\<rparr>)),
       t2 \<mapsto> (h2, Task (done_task (tk2\<lparr>host_data := host_data tk1\<rparr>))))"
    using ne by (auto simp: placed_def bytes fun_upd_twist)
  have cm: "tk2\<lparr>host_data := bs, ta_state := st, ta_done := (ta_done tk2)\<lparr>compl_mutex := True\<rparr>\<rparr> = tk2\<lparr>host_data := bs, ta_state := st\<rparr>" for bs st
    using t2(12) by (cases tk2; cases "ta_done tk2") simp
  show ?thesis unfolding s1(1) using s2(1) ne t2(3)
    by (simp add: cm arax_task_wait_def arax_task_wait_done_def get_task_def get_obj_def s2(2) s1(4) done_task_def mod_task_def set_body_def
      async_completion_check_def async_completion_wait_def async_completion_complete_def pthread_mutex_lock_def
      pthread_mutex_trylock_def pthread_mutex_unlock_def)
qed


theorem cpu_set_get_witness:
  "\<exists>s1 s2 s3. serve_task demo_ce 0 16384 demo_controller demo_service = Ok (served_one 0 demo_controller, s1) \<and>
     serve_task demo_ce 0 20480 (served_one 0 demo_controller) s1 = Ok (served_one 0 (served_one 0 demo_controller), s2) \<and>
     arax_task_wait (\<lambda>_. Ok) 20480 s2 = Ok (task_completed, s3) \<and>
     get_task 20480 s3 = Ok ((demo_transfer 28672 [7, 9])\<lparr>ta_state := task_completed\<rparr>)"
proof -
  have "unat (2 :: u64) = 2" by simp
  then show ?thesis
    using cpu_set_get [OF demo_builtins _ demo_service_objects(1) _ _ _ _ _ _ _ _ _ _ demo_service_objects(2) _ _ _ _ _ _ _ _ _ _ _
      demo_service_objects(3) _ _ _ demo_service_objects(4) _ _ _ demo_service_objects(5) _ _ demo_service_state(1,8), of "\<lambda>_. Ok"]
    by (auto simp: demo_service_simps)
qed

text \<open>C15. An iteration of a thread under round robin: it sleeps while no task is counted at its accelerator; otherwise it takes one off
  the count, looks again at which virtual accelerators are assigned to it, and serves the oldest task of the first of them that
  has one, behind the one it served last. A count without a task is consumed and nothing is served.\<close>

theorem iteration_serves_next:
  assumes "th < length (cn_threads c)" "job_preference (thread_conf th c) \<noteq> NoJob" "sc = grp_scheduler (cn_groups c ! acc_group (thread_conf th c))"
    and "sch_class (cn_schedulers c ! sc) = RoundRobinScheduler" "vpipe_s ce \<noteq> 0" "good_capacity (queue_capacity (arax ce))"
    and "a = arax_accel (thread_conf th c)" "objects s a = Some (ha, Accel x)" "ac_lock x = cond_free"
    and list: "list_rep (lists s) (Vaccels_head a) ns" "length ns < size_max" "VACs = map (nd_owner (lists s)) ns" "VACs \<noteq> []"
    and "\<forall>v\<in>set VACs. vac_ok (arax ce) s v" "\<forall>v\<in>set VACs. \<forall>t\<in>set (vac_tasks (arax ce) v s). ptr_in_segment (vpipe_s ce) t s"
  shows "(ac_tasks x = 0 \<and> work_iteration ce th c s = Fault (Blocked ''pthread_cond_wait'')) \<or>
    (ac_tasks x \<noteq> 0 \<and> (\<forall>v\<in>set VACs. vac_tasks (arax ce) v s = []) \<and>
       work_iteration ce th c s = Ok (selected sc th VACs (rr_counter (cn_schedulers c ! sc) th) c, one_less a ha x s)) \<or>
    (ac_tasks x \<noteq> 0 \<and> (\<exists>k<length VACs. \<exists>i. i = (rr_offset VACs (rr_counter (cn_schedulers c ! sc) th) + k) mod length VACs \<and>
       vac_tasks (arax ce) (VACs ! i) s \<noteq> [] \<and>
       (\<forall>j<k. vac_tasks (arax ce) (VACs ! ((rr_offset VACs (rr_counter (cn_schedulers c ! sc) th) + j) mod length VACs)) s = []) \<and>
       work_iteration ce th c s = serve_task ce th (hd (vac_tasks (arax ce) (VACs ! i) s)) (selected sc th VACs (of_nat i) c)
         (vac_pop (arax ce) (VACs ! i) (one_less a ha x s))))"
proof -
  have l: "utils_list_to_array (lists s) (Vaccels_head a) True = Ok (of_nat (length VACs), VACs)" "ls_length (lists s) (Vaccels_head a) = of_nat (length VACs)"
    "length VACs < 2 ^ 64"
    using list_rep_to_array(1) [OF list(1,2)] list(1,2,3) by (simp_all add: list_rep_def size_max_def)
  note it = iteration_round_robin [OF assms(1,2) assms(3) [symmetric] assms(4-6) assms(7) [symmetric] assms(8,9) l list(4) assms(14,15)]
  let ?off = "rr_offset VACs (rr_counter (cn_schedulers c ! sc) th)"
  show ?thesis
  proof (cases "ac_tasks x = 0"; cases "first_busy (arax ce) s (rotate ?off VACs)")
    assume False: "ac_tasks x \<noteq> 0" and None: "first_busy (arax ce) s (rotate ?off VACs) = None"
    then show ?thesis using False first_busy_None [of "arax ce" s "rotate ?off VACs"] by (simp add: it)
  next
    fix k
    assume False: "ac_tasks x \<noteq> 0" and Some: "first_busy (arax ce) s (rotate ?off VACs) = Some k"
    with first_busy_Some [OF Some] show ?thesis
      by (intro disjI2) (auto simp: it nth_rotate Let_def intro!: exI [of _ k])
  qed (simp_all add: it)
qed

theorem iteration_serves_next_witness:
  "work_iteration demo_ce 0 demo_controller demo_service =
     serve_task demo_ce 0 16384 (selected 0 0 [8192] 0 demo_controller)
       (vac_pop demo_env 8192 (one_less 4096 (demo_obj ARAX_TYPE_PHYS_ACCEL 1) demo_accel demo_service))"
proof -
  have c: "0 < length (cn_threads demo_controller)" "job_preference (thread_conf 0 demo_controller) \<noteq> NoJob"
    "0 = grp_scheduler (cn_groups demo_controller ! acc_group (thread_conf 0 demo_controller))"
    "sch_class (cn_schedulers demo_controller ! 0) = RoundRobinScheduler" "4096 = arax_accel (thread_conf 0 demo_controller)"
    by (simp_all add: demo_controller_def thread_conf_def new_accelThread_def)
  have e: "vpipe_s demo_ce \<noteq> 0" "arax demo_ce = demo_env" "vpipe_s demo_ce = 1024" "queue_capacity demo_env = 8"
    by (simp_all add: demo_ce_def cpu_controller_def demo_env_def)
  have lists: "lists demo_service = demo_vaccels" by (simp add: demo_service_def)
  have l: "list_rep (lists demo_service) (Vaccels_head 4096) [Vac_node 8192]" "[8192] = map (nd_owner (lists demo_service)) [Vac_node 8192]"
    by (simp_all add: list_rep_def lists demo_vaccels_def zero_pipe_def utils_list_add_def utils_list_node_add_def utils_list_init_def utils_list_node_init_def Let_def)
  have g: "get_vaccel 8192 demo_service = Ok demo_va" by (simp add: get_vaccel_def demo_service_def)
  have q: "q_inv 8 (va_queue demo_va)" "q_contents 8 (va_queue demo_va) = [16384, 20480]"
    by (simp_all add: demo_va_def q_inv_def q_rep_def q_contents_def q_distance_def upt_conv_Cons All_less_Suc)
  then have v: "vac_ok demo_env demo_service 8192" "vac_tasks demo_env 8192 demo_service = [16384, 20480]" by (simp_all add: vac_ok_def vac_tasks_def g e)
  have p: "ptr_in_segment 1024 16384 demo_service" "ptr_in_segment 1024 20480 demo_service" by (simp_all add: ptr_in_segment_def demo_service_def)
  show ?thesis
    using iteration_serves_next [OF c(1-4) e(1) _ c(5), of demo_service "demo_obj ARAX_TYPE_PHYS_ACCEL 1" demo_accel "[Vac_node 8192]" "[8192]"]
      l v p by (simp add: e good_capacity_def demo_service_def demo_accel_def size_max_def)
qed

end
