(* ===== verification/Gpu.thy ===== *)
theory Gpu
  imports Service
begin

text \<open>
  The backends for GPUs: \<open>controller/src/Cuda/CUDAaccelThread.cpp\<close> and \<open>CUDABuiltins.cu\<close>, and their copies for ROCm,
  \<open>controller/src/ROCm/HIPaccelThread.cpp\<close> and \<open>HIPBuiltins.cpp\<close>, which are the same code with another prefix except where
  a definition for HIP is given. The segment is the state as everywhere, beside the state \<open>'g\<close> of the device.

  The runtime (CUDA or HIP) is a parameter, \<open>gpu_rt\<close>. Copies are asynchronous: a call only appends to a stream, and the
  host sees the result of a copy when the stream was synchronised. A call returns whether it gave \<open>cudaSuccess\<close>.
  \<open>cudaMemcpyDefault\<close> infers the direction of a copy from the pointers. What is printed or measured is left out.
\<close>

section \<open>The runtime\<close>

text \<open>A place of the host: the buffer of a data object, or the host data of a task.\<close>

datatype host_place = Buffer_of addr | Host_data_of addr

datatype stream_op = H2D addr host_place u64 | D2H host_place addr u64 | D2D addr addr u64 | Memset addr "8 word" u64

text \<open>
  \<open>error_checking\<close> is the option \<open>ERROR_CHECKING\<close> of the build. A synchronisation is given what the host has at
  its places, and gives what it wrote to them.
\<close>

record 'g gpu_rt =
  error_checking :: bool
  cudaMalloc :: "u64 \<Rightarrow> 'g \<Rightarrow> addr option \<times> 'g"
  cudaFree :: "addr \<Rightarrow> 'g \<Rightarrow> bool \<times> 'g"
  cudaAsync :: "stream_op \<Rightarrow> 'g \<Rightarrow> bool \<times> 'g"
  cudaStreamSynchronize :: "(host_place \<Rightarrow> u64 \<Rightarrow> 8 word list) \<Rightarrow> 'g \<Rightarrow> (bool \<times> (host_place \<times> 8 word list) list) \<times> 'g"
  cudaMemGetInfo :: "'g \<Rightarrow> (u64 \<times> u64) option"

definition CUDA_ERROR_FATAL :: "'g gpu_rt \<Rightarrow> bool \<Rightarrow> unit res" where
  "CUDA_ERROR_FATAL rt success = (if error_checking rt then arax_assert success ''!\"Fatality\"'' else Ok ())"

text \<open>The host as the runtime sees it. A task that is gone has nothing to read, and must not be written.\<close>

definition host_read :: "arax_pipe_s \<Rightarrow> host_place \<Rightarrow> u64 \<Rightarrow> 8 word list" where
  "host_read s p sz = (case p of
     Buffer_of b \<Rightarrow> read_bytes b (unat sz) s
   | Host_data_of t \<Rightarrow> (case get_task t s of Ok tk \<Rightarrow> take (unat sz) (host_data tk) | Fault _ \<Rightarrow> []))"

definition host_write :: "host_place \<Rightarrow> 8 word list \<Rightarrow> arax_pipe_s \<Rightarrow> arax_pipe_s res" where
  "host_write p bs s = (case p of
     Buffer_of b \<Rightarrow> Ok (write_bytes b bs s)
   | Host_data_of t \<Rightarrow>
       rbind (get_task t s) (\<lambda>tk.
       if length bs \<le> unat (host_size tk) then Ok (set_body t (Task (tk\<lparr>host_data := bs @ drop (length bs) (host_data tk)\<rparr>)) s)
       else Fault (Bad_access ''arax_task_host_data'')))"

fun host_writes :: "(host_place \<times> 8 word list) list \<Rightarrow> arax_pipe_s \<Rightarrow> arax_pipe_s res" where
  "host_writes [] s = Ok s"
| "host_writes ((p, bs) # ws) s = rbind (host_write p bs s) (host_writes ws)"

definition stream_sync :: "'g gpu_rt \<Rightarrow> 'g \<Rightarrow> arax_pipe_s \<Rightarrow> ((bool \<times> 'g) \<times> arax_pipe_s) res" where
  "stream_sync rt g s =
     (let ((success, ws), g) = cudaStreamSynchronize rt (host_read s) g in
      rbind (host_writes ws s) (\<lambda>s. Ok ((success, g), s)))"

text \<open>\<open>cudaMalloc(&(data->remote), sz)\<close>; a failure leaves the field as it is.\<close>

definition malloc_remote :: "'g gpu_rt \<Rightarrow> addr \<Rightarrow> u64 \<Rightarrow> 'g \<Rightarrow> arax_pipe_s \<Rightarrow> ((bool \<times> 'g) \<times> arax_pipe_s) res" where
  "malloc_remote rt data sz g s =
     (let (r, g) = cudaMalloc rt sz g in
      case r of
        None \<Rightarrow> Ok ((False, g), s)
      | Some p \<Rightarrow> rbind (get_data data s) (\<lambda>d. Ok ((True, g), set_body data (Data (d\<lparr>remote := p\<rparr>)) s)))"

section \<open>The operations of the thread\<close>

definition GPU_getAvailableSize :: "'g gpu_rt \<Rightarrow> 'g \<Rightarrow> u64 res" where
  "GPU_getAvailableSize rt g = (case cudaMemGetInfo rt g of None \<Rightarrow> Fault (Uncaught ''std::runtime_error'') | Some (avail, _) \<Rightarrow> Ok avail)"

definition GPU_getTotalSize :: "'g gpu_rt \<Rightarrow> 'g \<Rightarrow> u64 res" where
  "GPU_getTotalSize rt g = (case cudaMemGetInfo rt g of None \<Rightarrow> Fault (Uncaught ''std::runtime_error'') | Some (_, tot) \<Rightarrow> Ok tot)"

definition free_gpu :: "'g gpu_rt \<Rightarrow> addr \<Rightarrow> 'g \<Rightarrow> arax_pipe_s \<Rightarrow> ((bool \<times> 'g) \<times> arax_pipe_s) res" where
  "free_gpu rt data g s =
     rbind (get_data data s) (\<lambda>d.
     if remote d = 0 then Ok ((True, g), s)
     else
       let (success, g) = cudaFree rt (remote d) g in
       if \<not> success then Ok ((False, g), s)
       else Ok ((True, g), set_body data (Data (d\<lparr>remote := 0\<rparr>)) s))"

definition alloc_gpu :: "'g gpu_rt \<Rightarrow> addr \<Rightarrow> 'g \<Rightarrow> arax_pipe_s \<Rightarrow> ((bool \<times> 'g) \<times> arax_pipe_s) res" where
  "alloc_gpu rt data g s =
     rbind (get_data data s) (\<lambda>d.
     if remote d \<noteq> 0 then Fault (Uncaught ''std::runtime_error'')
     else if da_size d \<noteq> 0 then malloc_remote rt data (da_size d) g s
     else Ok ((True, g), set_body data (Data (d\<lparr>remote := 0\<rparr>)) s))"

text \<open>\<open>Host2GPU\<close>: the buffers of a task on the device, for the procedures of other libraries.\<close>

fun Host2GPU_args :: "'g gpu_rt \<Rightarrow> addr \<Rightarrow> addr list \<Rightarrow> bool \<Rightarrow> addr list \<Rightarrow> 'g \<Rightarrow> arax_pipe_s \<Rightarrow> ((bool \<times> addr list \<times> 'g) \<times> arax_pipe_s) res" where
  "Host2GPU_args rt arax_task [] compl ioHD g s = Ok ((compl, ioHD, g), s)"
| "Host2GPU_args rt arax_task (data # ds) compl ioHD g s =
     rbind (get_data data s) (\<lambda>d.
     rbind (if remote d = 0 then
              rbind (alloc_gpu rt data g s) (\<lambda>((success, g), s).
              if success then Ok ((compl, g), s)
              else rbind (get_task arax_task s) (\<lambda>t. Ok ((False, g), set_body arax_task (Task (t\<lparr>ta_state := task_failed\<rparr>)) s)))
            else Ok ((compl, g), s)) (\<lambda>((compl, g), s).
     rbind (get_data data s) (\<lambda>d.
     Host2GPU_args rt arax_task ds compl (ioHD @ [remote d]) g s)))"

definition Host2GPU :: "'g gpu_rt \<Rightarrow> addr \<Rightarrow> addr list \<Rightarrow> 'g \<Rightarrow> arax_pipe_s \<Rightarrow> ((bool \<times> addr list \<times> 'g) \<times> arax_pipe_s) res" where
  "Host2GPU rt arax_task ioHD g s = rbind (get_task arax_task s) (\<lambda>t. Host2GPU_args rt arax_task (task_args t) True ioHD g s)"

definition GPU2Host :: "addr \<Rightarrow> arax_pipe_s \<Rightarrow> arax_pipe_s res" where
  "GPU2Host arax_task s = arax_task_mark_done arax_task task_completed s"

definition GPU_alloc_no_throttle :: "'g gpu_rt \<Rightarrow> addr \<Rightarrow> 'g \<Rightarrow> arax_pipe_s \<Rightarrow> ('g \<times> arax_pipe_s) res" where
  "GPU_alloc_no_throttle rt data g s =
     rbind (get_data data s) (\<lambda>d.
     if remote d \<noteq> 0 then Ok (g, s)
     else
       rbind (arax_assert (da_accel d \<noteq> 0) ''data->accel'') (\<lambda>_.
       rbind (get_vaccel (da_accel d) s) (\<lambda>v.
       rbind (arax_assert (va_phys v \<noteq> 0) ''((arax_vaccel_s *) (data->accel))->phys'') (\<lambda>_.
       rbind (malloc_remote rt data (da_size d) g s) (\<lambda>((success, g), s).
       rbind (CUDA_ERROR_FATAL rt success) (\<lambda>_. Ok (g, s)))))))"

text \<open>The part the two allocations that take from the throttle have in common.\<close>

definition alloc_throttled :: "'g gpu_rt \<Rightarrow> addr \<Rightarrow> 'g \<Rightarrow> arax_pipe_s \<Rightarrow> ('g \<times> arax_pipe_s) res" where
  "alloc_throttled rt vdata g s =
     rbind (get_data vdata s) (\<lambda>d.
     rbind (arax_assert (da_accel d \<noteq> 0) ''vdata->accel'') (\<lambda>_.
     rbind (get_vaccel (da_accel d) s) (\<lambda>v.
     rbind (arax_assert (va_phys v \<noteq> 0) ''(arax_accel_s *) ((arax_vaccel_s *) (vdata->accel))->phys'') (\<lambda>_.
     rbind (Ok (set_body vdata (Data (d\<lparr>da_phys := va_phys v\<rparr>)) s)) (\<lambda>s.
     rbind (arax_accel_size_dec (va_phys v) (da_size d) s) (\<lambda>s.
     rbind (malloc_remote rt vdata (da_size d) g s) (\<lambda>((success, g), s).
     rbind (CUDA_ERROR_FATAL rt success) (\<lambda>_. Ok (g, s)))))))))"

definition GPU_alloc_remote :: "'g gpu_rt \<Rightarrow> addr \<Rightarrow> 'g \<Rightarrow> arax_pipe_s \<Rightarrow> ('g \<times> arax_pipe_s) res" where
  "GPU_alloc_remote rt vdata g s =
     rbind (get_data vdata s) (\<lambda>d.
     if remote d \<noteq> 0 then Ok (g, s)
     else
       rbind (alloc_throttled rt vdata g s) (\<lambda>(g, s).
       rbind (get_data vdata s) (\<lambda>d.
       rbind (arax_assert (da_size d = 0 \<or> remote d \<noteq> 0) ''vdata->remote'') (\<lambda>_. Ok (g, s)))))"

definition GPU_sync_to_remote :: "'g gpu_rt \<Rightarrow> addr \<Rightarrow> 'g \<Rightarrow> arax_pipe_s \<Rightarrow> ('g \<times> arax_pipe_s) res" where
  "GPU_sync_to_remote rt vdata g s =
     rbind (get_data vdata s) (\<lambda>d.
     rbind (arax_data_deref vdata s) (\<lambda>b.
     let (success, g) = cudaAsync rt (H2D (remote d) (Buffer_of b) (da_size d)) g in
     rbind (CUDA_ERROR_FATAL rt success) (\<lambda>_. Ok (g, s))))"

text \<open>Without a copy on the device the code tests \<open>err\<close>, to which nothing was assigned; the copy is not awaited.\<close>

definition GPU_sync_from_remote :: "'g gpu_rt \<Rightarrow> addr \<Rightarrow> 'g \<Rightarrow> arax_pipe_s \<Rightarrow> ('g \<times> arax_pipe_s) res" where
  "GPU_sync_from_remote rt vdata g s =
     rbind (get_data vdata s) (\<lambda>d.
     if remote d \<noteq> 0 then
       rbind (arax_data_deref vdata s) (\<lambda>b.
       let (success, g) = cudaAsync rt (D2H (Buffer_of b) (remote d) (da_size d)) g in
       rbind (CUDA_ERROR_FATAL rt success) (\<lambda>_. Ok (g, s)))
     else if error_checking rt then Fault (Bad_access ''err'') else Ok (g, s))"

definition GPU_free_remote :: "'g gpu_rt \<Rightarrow> addr \<Rightarrow> 'g \<Rightarrow> arax_pipe_s \<Rightarrow> ('g \<times> arax_pipe_s) res" where
  "GPU_free_remote rt vdata g s =
     rbind (get_data vdata s) (\<lambda>d.
     if remote d = 0 then Ok (g, s)
     else
       let (success, g) = cudaFree rt (remote d) g in
       rbind (CUDA_ERROR_FATAL rt success) (\<lambda>_.
       rbind (get_vaccel (da_accel d) s) (\<lambda>v.
       rbind (arax_assert (va_phys v \<noteq> 0) ''(arax_accel_s *) ((arax_vaccel_s *) (vdata->accel))->phys'') (\<lambda>_.
       rbind (arax_accel_size_inc (va_phys v) (da_size d) s) (\<lambda>s.
       rbind (get_data vdata s) (\<lambda>d.
       rbind (Ok (set_body vdata (Data (d\<lparr>da_phys := 0\<rparr>)) s)) (\<lambda>s.
       rbind (get_data vdata s) (\<lambda>d.
       Ok (g, set_body vdata (Data (d\<lparr>remote := 0\<rparr>)) s)))))))))"

text \<open>HIP places the buffer first, and awaits what it copies back.\<close>

definition HIP_sync_to_remote :: "'g gpu_rt \<Rightarrow> addr \<Rightarrow> 'g \<Rightarrow> arax_pipe_s \<Rightarrow> ('g \<times> arax_pipe_s) res" where
  "HIP_sync_to_remote rt vdata g s =
     rbind (GPU_alloc_no_throttle rt vdata g s) (\<lambda>(g, s). GPU_sync_to_remote rt vdata g s)"

definition HIP_sync_from_remote :: "'g gpu_rt \<Rightarrow> addr \<Rightarrow> 'g \<Rightarrow> arax_pipe_s \<Rightarrow> ('g \<times> arax_pipe_s) res" where
  "HIP_sync_from_remote rt vdata g s =
     rbind (get_data vdata s) (\<lambda>d.
     rbind (arax_data_deref vdata s) (\<lambda>b.
     let (success, g) = (if remote d \<noteq> 0 then cudaAsync rt (D2H (Buffer_of b) (remote d) (da_size d)) g else (True, g)) in
     rbind (stream_sync rt g s) (\<lambda>((_, g), s).
     if remote d = 0 \<and> error_checking rt then Fault (Bad_access ''err'')
     else rbind (CUDA_ERROR_FATAL rt success) (\<lambda>_. Ok (g, s)))))"

section \<open>The builtin procedures\<close>

text \<open>
  The \<open>alloc_no_throttle\<close> of the builtins does take from the throttle, other than its name says. Once it returns it has
  returned true, so the branches of the builtins for a failed allocation are dead.
\<close>

definition alloc_builtin :: "'g gpu_rt \<Rightarrow> addr \<Rightarrow> 'g \<Rightarrow> arax_pipe_s \<Rightarrow> ('g \<times> arax_pipe_s) res" where
  "alloc_builtin rt data g s =
     rbind (get_data data s) (\<lambda>d. if remote d \<noteq> 0 then Ok (g, s) else alloc_throttled rt data g s)"

text \<open>\<open>arax_assert(data->remote)\<close>, and the address it gives.\<close>

definition device_copy :: "addr \<Rightarrow> arax_pipe_s \<Rightarrow> addr res" where
  "device_copy data s = rbind (get_data data s) (\<lambda>d. rbind (arax_assert (remote d \<noteq> 0) ''data->remote'') (\<lambda>_. Ok (remote d)))"

definition alloc_gpu_data :: "'g gpu_rt \<Rightarrow> addr \<Rightarrow> 'g \<Rightarrow> arax_pipe_s \<Rightarrow> ('g \<times> arax_pipe_s) res" where
  "alloc_gpu_data rt arax_task g s =
     rbind (get_task arax_task s) (\<lambda>t.
     rbind (arax_assert (in_count t = 0) ''arax_task->in_count == 0'') (\<lambda>_.
     rbind (arax_assert (out_count t = 1) ''arax_task->out_count == 1'') (\<lambda>_.
     rbind (task_arg t 0) (\<lambda>data.
     rbind (get_data data s) (\<lambda>d.
     if remote d \<noteq> 0 then rbind (arax_task_mark_done arax_task task_completed s) (\<lambda>s. Ok (g, s))
     else
       rbind (get_vaccel (da_accel d) s) (\<lambda>v.
       rbind (arax_assert (va_phys v \<noteq> 0) ''(arax_accel_s *)((arax_vaccel_s *)(data->accel))->phys'') (\<lambda>_.
       rbind (malloc_remote rt data (da_size d) g s) (\<lambda>((success, g), s).
       rbind (CUDA_ERROR_FATAL rt success) (\<lambda>_.
       rbind (device_copy data s) (\<lambda>_.
       rbind (get_data data s) (\<lambda>d.
       rbind (Ok (set_body data (Data (d\<lparr>da_phys := va_phys v\<rparr>)) s)) (\<lambda>s.
       rbind (arax_task_mark_done arax_task task_completed s) (\<lambda>s. Ok (g, s))))))))))))))"

text \<open>
  \<open>gpu_memcpy\<close> up to the copy: the guards compare differences of unsigned numbers. Then, for CUDA, a task that nobody
  waits for is neither marked as done nor freed; for HIP it is freed first and marked then.
\<close>

definition memcpy_start :: "arax_env \<Rightarrow> 'g gpu_rt \<Rightarrow> addr \<Rightarrow> 'g \<Rightarrow> arax_pipe_s \<Rightarrow> ((bool \<times> 'g) \<times> arax_pipe_s) res" where
  "memcpy_start env rt arax_task g s =
     rbind (arax_task_host_data env arax_task sizeof_memcpyArgs s) (\<lambda>_.
     rbind (get_task arax_task s) (\<lambda>t.
     rbind (task_arg t 0) (\<lambda>src.
     rbind (task_arg t 1) (\<lambda>dst.
     let args = memcpyArgs_of (host_data t); sz = mc_size args in
     if sz = 0 then Fault (Assert_failed ''args->size is Zero. Please specify size! Abort.'')
     else
       rbind (arax_data_size src s) (\<lambda>sz_src.
       rbind (arax_data_size dst s) (\<lambda>sz_dst.
       rbind (alloc_builtin rt dst g s) (\<lambda>(g, s).
       rbind (alloc_builtin rt src g s) (\<lambda>(g, s).
       rbind (device_copy dst s) (\<lambda>dst_remote.
       rbind (device_copy src s) (\<lambda>src_remote.
       if sz_dst - mc_dst_offset args < sz then Fault (Assert_failed ''arax_data_size(dst)-dst_offset is < args->size'')
       else if sz_src - mc_src_offset args < sz then Fault (Assert_failed ''arax_data_size(src)-src_offset is < args->size'')
       else
         let (success, g) = cudaAsync rt (D2D (dst_remote + mc_dst_offset args) (src_remote + mc_src_offset args) sz) g in
         rbind (CUDA_ERROR_FATAL rt success) (\<lambda>_. Ok ((mc_sync args, g), s))))))))))))"

definition gpu_memcpy :: "arax_env \<Rightarrow> 'g gpu_rt \<Rightarrow> addr \<Rightarrow> 'g \<Rightarrow> arax_pipe_s \<Rightarrow> ('g \<times> arax_pipe_s) res" where
  "gpu_memcpy env rt arax_task g s =
     rbind (memcpy_start env rt arax_task g s) (\<lambda>((sync, g), s).
     if \<not> sync then rbind (stream_sync rt g s) (\<lambda>((success, g), s). rbind (CUDA_ERROR_FATAL rt success) (\<lambda>_. Ok (g, s)))
     else rbind (arax_task_mark_done arax_task task_completed s) (\<lambda>s. Ok (g, s)))"

definition hip_memcpy :: "nat \<Rightarrow> arax_env \<Rightarrow> 'g gpu_rt \<Rightarrow> addr \<Rightarrow> 'g \<Rightarrow> arax_pipe_s \<Rightarrow> ('g \<times> arax_pipe_s) res" where
  "hip_memcpy n env rt arax_task g s =
     rbind (memcpy_start env rt arax_task g s) (\<lambda>((sync, g), s).
     rbind (if \<not> sync then rbind (stream_sync rt g s) (\<lambda>((_, g), s). rbind (arax_task_free n env arax_task s) (\<lambda>s. Ok (g, s)))
            else Ok (g, s)) (\<lambda>(g, s).
     rbind (arax_task_mark_done arax_task task_completed s) (\<lambda>s. Ok (g, s))))"

definition gpu_memset :: "arax_env \<Rightarrow> 'g gpu_rt \<Rightarrow> addr \<Rightarrow> 'g \<Rightarrow> arax_pipe_s \<Rightarrow> ('g \<times> arax_pipe_s) res" where
  "gpu_memset env rt arax_task g s =
     rbind (arax_task_host_data env arax_task sizeof_memsetArgs s) (\<lambda>_.
     rbind (get_task arax_task s) (\<lambda>t.
     rbind (task_arg t 0) (\<lambda>data.
     let args = memsetArgs_of (host_data t) in
     rbind (alloc_builtin rt data g s) (\<lambda>(g, s).
     rbind (device_copy data s) (\<lambda>r.
     let (success, g) = cudaAsync rt (Memset (r + ms_data_offset args) (ms_value args) (ms_size args)) g in
     rbind (CUDA_ERROR_FATAL rt success) (\<lambda>_.
     rbind (arax_task_mark_done arax_task task_completed s) (\<lambda>s. Ok (g, s))))))))"

text \<open>The address of the copy, its size and the accelerator come out of the host data.\<close>

definition gpu_memfree :: "nat \<Rightarrow> arax_env \<Rightarrow> 'g gpu_rt \<Rightarrow> addr \<Rightarrow> 'g \<Rightarrow> arax_pipe_s \<Rightarrow> ('g \<times> arax_pipe_s) res" where
  "gpu_memfree n env rt arax_task g s =
     rbind (arax_task_host_data env arax_task (8 * 4) s) (\<lambda>_.
     rbind (get_task arax_task s) (\<lambda>t.
     let ptrAtDevice = u64_at (host_data t) 8; sz = u64_at (host_data t) 16; accel_ptr = u64_at (host_data t) 24;
         (success, g) = cudaFree rt ptrAtDevice g in
     rbind (arax_assert (accel_ptr \<noteq> 0) ''accel_ptr'') (\<lambda>_.
     rbind (arax_accel_size_inc accel_ptr sz s) (\<lambda>s.
     rbind (arax_task_mark_done arax_task (if \<not> success then task_failed else task_completed) s) (\<lambda>s.
     rbind (CUDA_ERROR_FATAL rt success) (\<lambda>_.
     rbind (arax_task_free n env arax_task s) (\<lambda>s. Ok (g, s))))))))"

definition gpu_init_phys :: "'g gpu_rt \<Rightarrow> addr \<Rightarrow> 'g \<Rightarrow> arax_pipe_s \<Rightarrow> ('g \<times> arax_pipe_s) res" where
  "gpu_init_phys rt arax_task g s =
     rbind (stream_sync rt g s) (\<lambda>((_, g), s). rbind (arax_task_mark_done arax_task task_completed s) (\<lambda>s. Ok (g, s)))"

text \<open>Neither transfer looks at the result of its synchronisation; the one to the device never marks its task as done.\<close>

definition arax_data_set_gpu :: "nat \<Rightarrow> arax_env \<Rightarrow> 'g gpu_rt \<Rightarrow> addr \<Rightarrow> 'g \<Rightarrow> arax_pipe_s \<Rightarrow> ('g \<times> arax_pipe_s) res" where
  "arax_data_set_gpu n env rt arax_task g s =
     rbind (get_task arax_task s) (\<lambda>t.
     rbind (arax_assert (in_count t = 0) ''arax_task->in_count == 0'') (\<lambda>_.
     rbind (arax_assert (out_count t = 1) ''arax_task->out_count == 1'') (\<lambda>_.
     rbind (arax_task_host_data env arax_task (host_size t) s) (\<lambda>_.
     rbind (task_arg t 0) (\<lambda>data.
     rbind (alloc_builtin rt data g s) (\<lambda>(g, s).
     rbind (device_copy data s) (\<lambda>r.
     let (success, g) = cudaAsync rt (H2D r (Host_data_of arax_task) (host_size t)) g in
     rbind (CUDA_ERROR_FATAL rt success) (\<lambda>_.
     rbind (stream_sync rt g s) (\<lambda>((_, g), s).
     rbind (arax_task_free n env arax_task s) (\<lambda>s. Ok (g, s)))))))))))"

definition arax_data_get_gpu :: "arax_env \<Rightarrow> 'g gpu_rt \<Rightarrow> addr \<Rightarrow> 'g \<Rightarrow> arax_pipe_s \<Rightarrow> ('g \<times> arax_pipe_s) res" where
  "arax_data_get_gpu env rt arax_task g s =
     rbind (get_task arax_task s) (\<lambda>t.
     rbind (arax_assert (in_count t = 0) ''arax_task->in_count == 0'') (\<lambda>_.
     rbind (arax_assert (out_count t = 1) ''arax_task->out_count == 1'') (\<lambda>_.
     rbind (arax_task_host_data env arax_task (host_size t) s) (\<lambda>_.
     rbind (task_arg t 0) (\<lambda>data.
     rbind (device_copy data s) (\<lambda>r.
     rbind (arax_data_size data s) (\<lambda>sz.
     let (success, g) = cudaAsync rt (D2H (Host_data_of arax_task) r sz) g in
     rbind (CUDA_ERROR_FATAL rt success) (\<lambda>_.
     rbind (stream_sync rt g s) (\<lambda>((_, g), s).
     rbind (arax_task_mark_done arax_task task_completed s) (\<lambda>s. Ok (g, s)))))))))))"

text \<open>The table of the builtins, for the type \<open>GPU\<close>, and for \<open>HIP\<close> in the other file.\<close>

datatype gpu_functor = F_alloc_gpu_data | F_gpu_memfree | F_gpu_memset | F_gpu_memcpy | F_gpu_init_phys | F_arax_data_set_gpu | F_arax_data_get_gpu

definition gpu_proc_defs :: "(string \<times> gpu_functor) list" where
  "gpu_proc_defs = [(''alloc_data'', F_alloc_gpu_data), (''free'', F_gpu_memfree), (''memset'', F_gpu_memset), (''memcpy'', F_gpu_memcpy),
     (''init_phys'', F_gpu_init_phys), (''arax_data_set'', F_arax_data_set_gpu), (''arax_data_get'', F_arax_data_get_gpu)]"

fun gpu_functor_code :: "bool \<Rightarrow> nat \<Rightarrow> arax_env \<Rightarrow> 'g gpu_rt \<Rightarrow> gpu_functor \<Rightarrow> addr \<Rightarrow> 'g \<Rightarrow> arax_pipe_s \<Rightarrow> ('g \<times> arax_pipe_s) res" where
  "gpu_functor_code hip n env rt F_alloc_gpu_data = alloc_gpu_data rt"
| "gpu_functor_code hip n env rt F_gpu_memfree = gpu_memfree n env rt"
| "gpu_functor_code hip n env rt F_gpu_memset = gpu_memset env rt"
| "gpu_functor_code hip n env rt F_gpu_memcpy = (if hip then hip_memcpy n env rt else gpu_memcpy env rt)"
| "gpu_functor_code hip n env rt F_gpu_init_phys = gpu_init_phys rt"
| "gpu_functor_code hip n env rt F_arax_data_set_gpu = arax_data_set_gpu n env rt"
| "gpu_functor_code hip n env rt F_arax_data_get_gpu = arax_data_get_gpu env rt"

section \<open>Backends only use the library\<close>

lemma fine_gpu [sound_intro]: "fine f (CUDA_ERROR_FATAL rt b)" "fine f (device_copy d s)"
  unfolding CUDA_ERROR_FATAL_def device_copy_def by (intro sound_intro; simp)+

lemma run_host_write [run_intro]: "arax_run env s0 s \<Longrightarrow> sound True (arax_run env s0) (host_write p bs s)"
  unfolding host_write_def by (cases p) (auto intro!: sound_intro run_intro)

lemma run_host_writes [run_intro]: "arax_run env s0 s \<Longrightarrow> sound True (arax_run env s0) (host_writes ws s)"
  by (induction ws s rule: host_writes.induct) (auto intro!: sound_intro run_intro)

lemma run_stream_sync [run_intro]: "arax_run env s0 s \<Longrightarrow> sound2 True (arax_run env s0) (stream_sync rt g s)"
  unfolding stream_sync_def Let_def by (auto intro!: sound_intro run_intro split: prod.split)

lemma run_malloc_remote [run_intro]: "arax_run env s0 s \<Longrightarrow> sound2 True (arax_run env s0) (malloc_remote rt d sz g s)"
  unfolding malloc_remote_def Let_def by (auto intro!: sound_intro run_intro split: prod.split option.split)

lemma run_alloc_throttled [run_intro]: "arax_run env s0 s \<Longrightarrow> sound2 True (arax_run env s0) (alloc_throttled rt d g s)"
  unfolding alloc_throttled_def Let_def by (intro sound_intro run_intro; simp)

lemma run_alloc_builtin [run_intro]: "arax_run env s0 s \<Longrightarrow> sound2 True (arax_run env s0) (alloc_builtin rt d g s)"
  unfolding alloc_builtin_def by (intro sound_intro run_intro; simp)





lemma memcpy_start_run [run_intro]: "arax_run env s0 s \<Longrightarrow> sound2 True (arax_run env s0) (memcpy_start env rt t g s)"
  unfolding memcpy_start_def Let_def by (intro sound_intro run_intro; simp)


section \<open>What the runtime promises\<close>

definition dev_write :: "addr \<Rightarrow> 8 word list \<Rightarrow> (addr \<Rightarrow> 8 word) \<Rightarrow> addr \<Rightarrow> 8 word" where
  "dev_write a bs m = (\<lambda>x. if unat (x - a) < length bs then bs ! unat (x - a) else m x)"

definition dev_read :: "addr \<Rightarrow> nat \<Rightarrow> (addr \<Rightarrow> 8 word) \<Rightarrow> 8 word list" where
  "dev_read a n m = map (\<lambda>i. m (a + of_nat i)) [0..<n]"

lemma dev_read_write:
  assumes "length bs \<le> 2 ^ 64"
  shows "dev_read a (length bs) (dev_write a bs m) = bs"
proof (rule nth_equalityI)
  fix i
  assume "i < length (dev_read a (length bs) (dev_write a bs m))"
  then have i: "i < length bs" by (simp add: dev_read_def)
  then have "unat (of_nat i :: addr) = i" using assms by (simp add: unat_of_nat take_bit_nat_eq_self)
  then show "dev_read a (length bs) (dev_write a bs m) ! i = bs ! i" using i by (simp add: dev_read_def dev_write_def)
qed (simp add: dev_read_def)

text \<open>The operations of a stream, one after the other, on the memory of the device; and what they write to the host.\<close>

fun run_ops :: "(host_place \<Rightarrow> u64 \<Rightarrow> 8 word list) \<Rightarrow> stream_op list \<Rightarrow> (addr \<Rightarrow> 8 word) \<Rightarrow> (host_place \<times> 8 word list) list \<times> (addr \<Rightarrow> 8 word)" where
  "run_ops rd [] m = ([], m)"
| "run_ops rd (H2D a p sz # ops) m = run_ops rd ops (dev_write a (rd p sz) m)"
| "run_ops rd (D2H p a sz # ops) m = (let (ws, m') = run_ops rd ops m in ((p, dev_read a (unat sz) m) # ws, m'))"
| "run_ops rd (D2D a b sz # ops) m = run_ops rd ops (dev_write a (dev_read b (unat sz) m) m)"
| "run_ops rd (Memset a v sz # ops) m = run_ops rd ops (dev_write a (replicate (unat sz) v) m)"

text \<open>The result of a stream is defined: no copy overlaps itself, and nothing is read from the host after a write to it.\<close>

fun stream_defined :: "stream_op list \<Rightarrow> bool" where
  "stream_defined [] \<longleftrightarrow> True"
| "stream_defined (D2H p a sz # ops) \<longleftrightarrow> stream_defined ops \<and> list_all (\<lambda>op. case op of H2D _ _ _ \<Rightarrow> False | _ \<Rightarrow> True) ops"
| "stream_defined (D2D a b sz # ops) \<longleftrightarrow> stream_defined ops \<and> \<not> overlap a b sz"
| "stream_defined (_ # ops) \<longleftrightarrow> stream_defined ops"

text \<open>
  The contract of the runtime, for a view of its state as the memory of the device and the operations that are not
  synchronised yet: a call that succeeds appends to the stream, and a synchronisation that succeeds leaves the stream
  empty and has run a stream whose result is defined in order.
\<close>

definition gpu_rt_ok :: "'g gpu_rt \<Rightarrow> ('g \<Rightarrow> addr \<Rightarrow> 8 word) \<Rightarrow> ('g \<Rightarrow> stream_op list) \<Rightarrow> bool" where
  "gpu_rt_ok rt mem pending \<longleftrightarrow>
     (\<forall>op g g'. cudaAsync rt op g = (True, g') \<longrightarrow> mem g' = mem g \<and> pending g' = pending g @ [op]) \<and>
     (\<forall>rd g ws g'. cudaStreamSynchronize rt rd g = ((True, ws), g') \<and> stream_defined (pending g) \<longrightarrow>
        pending g' = [] \<and> run_ops rd (pending g) (mem g) = (ws, mem g'))"

text \<open>No call fails.\<close>

definition gpu_succeeds :: "'g gpu_rt \<Rightarrow> bool" where
  "gpu_succeeds rt \<longleftrightarrow> (\<forall>op g. fst (cudaAsync rt op g)) \<and> (\<forall>rd g. fst (fst (cudaStreamSynchronize rt rd g)))"

lemma async_Ok:
  assumes "gpu_rt_ok rt mem pending" and "gpu_succeeds rt"
  obtains g' where "cudaAsync rt op g = (True, g')" "mem g' = mem g" "pending g' = pending g @ [op]"
proof -
  have "cudaAsync rt op g = (True, snd (cudaAsync rt op g))" using assms(2) by (simp add: gpu_succeeds_def prod_eq_iff)
  with assms(1) that show thesis unfolding gpu_rt_ok_def by blast
qed

lemma sync_Ok:
  assumes "gpu_rt_ok rt mem pending" and "gpu_succeeds rt" and "stream_defined (pending g)"
  obtains ws g' where "cudaStreamSynchronize rt rd g = ((True, ws), g')" "pending g' = []" "run_ops rd (pending g) (mem g) = (ws, mem g')"
proof -
  let ?r = "cudaStreamSynchronize rt rd g"
  have "?r = ((True, snd (fst ?r)), snd ?r)" using assms(2) by (simp add: gpu_succeeds_def prod_eq_iff)
  with assms(1,3) that show thesis unfolding gpu_rt_ok_def by blast
qed

text \<open>A stream that ends in a copy to the device writes nothing to the host, and leaves the copy on the device.\<close>

lemma run_ops_to_device:
  "stream_defined (ops @ [H2D a p sz]) \<Longrightarrow> \<exists>m'. run_ops rd (ops @ [H2D a p sz]) m = ([], dev_write a (rd p sz) m')"
  by (induction rd ops m rule: run_ops.induct) auto

section \<open>Transfers\<close>

lemma set_gpu_upd:
  assumes rt: "gpu_rt_ok rt mem pending" "gpu_succeeds rt"
    and t: "objects s t = Some (h, Task tk)" "t \<noteq> 0" "in_count tk = 0" "out_count tk = 1" "task_io tk = [d]" "length (host_data tk) = unat (da_size da)"
    and h: "ob_type h = ARAX_TYPE_TASK" "1 < sint (ref_count h)" "repo_lock s ARAX_TYPE_TASK = 0"
    and d: "objects s d = Some (hD, Data da)" "host_size tk = da_size da" "remote da \<noteq> 0"
    and ops: "stream_defined (pending g @ [H2D (remote da) (Host_data_of t) (da_size da)])"
  shows "\<exists>g' m. arax_data_set_gpu (Suc n) env rt t g s = Ok (g', s\<lparr>objects := (objects s)(t \<mapsto> (h\<lparr>ref_count := ref_count h - 1\<rparr>, Task tk))\<rparr>) \<and>
    pending g' = [] \<and> mem g' = dev_write (remote da) (host_data tk) m"
proof -
  obtain g1 where g1: "cudaAsync rt (H2D (remote da) (Host_data_of t) (da_size da)) g = (True, g1)"
    "mem g1 = mem g" "pending g1 = pending g @ [H2D (remote da) (Host_data_of t) (da_size da)]" using async_Ok [OF rt] by blast
  have def: "stream_defined (pending g1)" using ops g1(3) by simp
  obtain ws g2 where g2: "cudaStreamSynchronize rt (host_read s) g1 = ((True, ws), g2)" "pending g2 = []"
    "run_ops (host_read s) (pending g1) (mem g1) = (ws, mem g2)" using sync_Ok [OF rt def] by blast
  have "host_read s (Host_data_of t) (da_size da) = host_data tk" using t(1,6) by (simp add: host_read_def get_task_def)
  with run_ops_to_device [OF ops, of "host_read s" "mem g"] g2(3) g1(2,3) obtain m where m: "ws = []" "mem g2 = dev_write (remote da) (host_data tk) m"
    by auto
  have "arax_object_ref_dec (Suc n) env t s = Ok (ref_count h - 1, s\<lparr>objects := (objects s)(t \<mapsto> (h\<lparr>ref_count := ref_count h - 1\<rparr>, Task tk))\<rparr>)"
    using ref_dec_upd [of s t h "Task tk" n env] t h by simp
  then have "arax_data_set_gpu (Suc n) env rt t g s = Ok (g2, s\<lparr>objects := (objects s)(t \<mapsto> (h\<lparr>ref_count := ref_count h - 1\<rparr>, Task tk))\<rparr>)"
    using t d g1(1) g2(1) m(1)
    by (simp add: arax_data_set_gpu_def get_task_def task_arg_def arax_task_host_data_def alloc_builtin_def get_data_def device_copy_def
        CUDA_ERROR_FATAL_def stream_sync_def arax_task_free_def arax_task_free_with_def del: arax_object_ref_dec.simps)
  with g2(2) m(2) show ?thesis by blast
qed

lemma get_gpu_upd:
  assumes rt: "gpu_rt_ok rt mem pending" "gpu_succeeds rt"
    and t: "objects s t = Some (h, Task tk)" "in_count tk = 0" "out_count tk = 1" "task_io tk = [d]" "length (host_data tk) = unat (da_size da)"
    and d: "objects s d = Some (hD, Data da)" "host_size tk = da_size da" "remote da \<noteq> 0"
    and g: "pending g = []"
  shows "\<exists>g'. arax_data_get_gpu env rt t g s = Ok (g', s\<lparr>objects := (objects s)(t \<mapsto>
      (h, Task (done_task (tk\<lparr>host_data := dev_read (remote da) (unat (da_size da)) (mem g)\<rparr>))))\<rparr>) \<and> pending g' = [] \<and> mem g' = mem g"
proof -
  obtain g1 where g1: "cudaAsync rt (D2H (Host_data_of t) (remote da) (da_size da)) g = (True, g1)"
    "mem g1 = mem g" "pending g1 = [D2H (Host_data_of t) (remote da) (da_size da)]" using async_Ok [OF rt] g by (metis append_Nil)
  have def: "stream_defined (pending g1)" using g1(3) by simp
  obtain ws g2 where g2: "cudaStreamSynchronize rt (host_read s) g1 = ((True, ws), g2)" "pending g2 = []"
    "run_ops (host_read s) (pending g1) (mem g1) = (ws, mem g2)" using sync_Ok [OF rt def] by blast
  then have m: "ws = [(Host_data_of t, dev_read (remote da) (unat (da_size da)) (mem g))]" "mem g2 = mem g" using g1(2,3) by auto
  have "length (dev_read (remote da) (unat (da_size da)) (mem g)) = unat (da_size da)" by (simp add: dev_read_def)
  then have "arax_data_get_gpu env rt t g s = Ok (g2, s\<lparr>objects := (objects s)(t \<mapsto>
      (h, Task (done_task (tk\<lparr>host_data := dev_read (remote da) (unat (da_size da)) (mem g)\<rparr>))))\<rparr>)"
    using t d g1(1) g2(1) m(1)
    by (simp add: arax_data_get_gpu_def get_task_def task_arg_def arax_task_host_data_def arax_data_size_def get_data_def device_copy_def
        CUDA_ERROR_FATAL_def stream_sync_def host_write_def set_body_def arax_task_mark_done_def mod_task_def done_task_def)
  with g2(2) m(2) show ?thesis by blast
qed

section \<open>Steps\<close>

text \<open>What the thread of a GPU does to device and segment, in between of what everybody else does to the segment.\<close>

inductive gpu_step :: "arax_env \<Rightarrow> 'g gpu_rt \<Rightarrow> 'g \<times> arax_pipe_s \<Rightarrow> 'g \<times> arax_pipe_s \<Rightarrow> bool" for env :: arax_env and rt :: "'g gpu_rt" where
  gpu_execute: "gpu_functor_code hip n env rt f t g s = Ok (g', s') \<Longrightarrow> gpu_step env rt (g, s) (g', s')"
| gpu_alloc: "GPU_alloc_remote rt d g s = Ok (g', s') \<Longrightarrow> gpu_step env rt (g, s) (g', s')"
| gpu_alloc_no_throttle: "GPU_alloc_no_throttle rt d g s = Ok (g', s') \<Longrightarrow> gpu_step env rt (g, s) (g', s')"
| gpu_sync_to: "GPU_sync_to_remote rt d g s = Ok (g', s') \<Longrightarrow> gpu_step env rt (g, s) (g', s')"
| gpu_sync_from: "GPU_sync_from_remote rt d g s = Ok (g', s') \<Longrightarrow> gpu_step env rt (g, s) (g', s')"
| hip_sync_to: "HIP_sync_to_remote rt d g s = Ok (g', s') \<Longrightarrow> gpu_step env rt (g, s) (g', s')"
| hip_sync_from: "HIP_sync_from_remote rt d g s = Ok (g', s') \<Longrightarrow> gpu_step env rt (g, s) (g', s')"
| gpu_free: "GPU_free_remote rt d g s = Ok (g', s') \<Longrightarrow> gpu_step env rt (g, s) (g', s')"
| gpu_place: "Host2GPU rt t io g s = Ok ((c, io', g'), s') \<Longrightarrow> gpu_step env rt (g, s) (g', s')"
| gpu_back: "GPU2Host t s = Ok s' \<Longrightarrow> gpu_step env rt (g, s) (g, s')"
| gpu_release: "free_gpu rt d g s = Ok ((b, g'), s') \<Longrightarrow> gpu_step env rt (g, s) (g', s')"
| others: "arax_run env s s' \<Longrightarrow> gpu_step env rt (g, s) (g, s')"


section \<open>The properties\<close>


text \<open>A device for examples: it never fails, and has its memory at the address 256.\<close>

definition demo_gpu :: "((addr \<Rightarrow> 8 word) \<times> stream_op list) gpu_rt" where
  "demo_gpu = \<lparr>error_checking = True, cudaMalloc = (\<lambda>sz g. (Some 256, g)), cudaFree = (\<lambda>p g. (True, g)),
     cudaAsync = (\<lambda>op (m, ops). (True, m, ops @ [op])),
     cudaStreamSynchronize = (\<lambda>rd (m, ops). let (ws, m') = run_ops rd ops m in ((True, ws), m', [])),
     cudaMemGetInfo = (\<lambda>g. Some (1024, 1024))\<rparr>"

lemma demo_gpu_ok: "gpu_rt_ok demo_gpu fst snd" "gpu_succeeds demo_gpu"
  by (auto simp: gpu_rt_ok_def gpu_succeeds_def demo_gpu_def split: prod.splits)


text \<open>C18. What a transfer puts into a buffer on a device is what the next transfer gets out of it, although copies are asynchronous: the
  builtin procedures of the GPU leave the bytes of the first task in the host data of the second one, which is marked as done,
  whatever copies were still on their way when the first one started, provided the runtime works and the stream has a defined
  result.\<close>

theorem gpu_set_get:
  assumes rt: "gpu_rt_ok rt mem pending" "gpu_succeeds rt"
    and t1: "objects s t1 = Some (h1, Task tk1)" "t1 \<noteq> 0" "ob_type h1 = ARAX_TYPE_TASK" "1 < sint (ref_count h1)" "repo_lock s ARAX_TYPE_TASK = 0"
      "in_count tk1 = 0" "out_count tk1 = 1" "task_io tk1 = [d]" "host_size tk1 = da_size da" "length (host_data tk1) = unat (da_size da)"
    and t2: "objects s t2 = Some (h2, Task tk2)" "t2 \<noteq> t1" "in_count tk2 = 0" "out_count tk2 = 1" "task_io tk2 = [d]"
      "host_size tk2 = da_size da" "length (host_data tk2) = unat (da_size da)"
    and d: "objects s d = Some (hD, Data da)" "remote da \<noteq> 0"
    and ops: "stream_defined (pending g @ [H2D (remote da) (Host_data_of t1) (da_size da)])"
  shows "\<exists>g1 s1 g2 s2. arax_data_set_gpu (Suc n) env rt t1 g s = Ok (g1, s1) \<and> arax_data_get_gpu env rt t2 g1 s1 = Ok (g2, s2) \<and>
    get_task t2 s2 = Ok (done_task (tk2\<lparr>host_data := host_data tk1\<rparr>))"
proof -
  from set_gpu_upd [OF rt t1(1,2,6,7,8,10,3,4,5) d(1) t1(9) d(2) ops] obtain g1 m where
    g1: "arax_data_set_gpu (Suc n) env rt t1 g s = Ok (g1, s\<lparr>objects := (objects s)(t1 \<mapsto> (h1\<lparr>ref_count := ref_count h1 - 1\<rparr>, Task tk1))\<rparr>)"
      "pending g1 = []" "mem g1 = dev_write (remote da) (host_data tk1) m" by blast
  let ?s = "s\<lparr>objects := (objects s)(t1 \<mapsto> (h1\<lparr>ref_count := ref_count h1 - 1\<rparr>, Task tk1))\<rparr>"
  have "d \<noteq> t1" using t1(1) d(1) by auto
  then have o: "objects ?s t2 = Some (h2, Task tk2)" "objects ?s d = Some (hD, Data da)" using t2(1,2) d(1) by simp_all
  have "unat (da_size da) < 2 ^ 64" using unsigned_less [of "da_size da"] by simp
  then have "length (host_data tk1) \<le> 2 ^ 64" using t1(10) by simp
  then have "dev_read (remote da) (unat (da_size da)) (mem g1) = host_data tk1" using dev_read_write t1(10) g1(3) by metis
  with get_gpu_upd [OF rt o(1) t2(3-5,7) o(2) t2(6) d(2) g1(2), of env] g1(1) show ?thesis by (auto simp: get_task_def)
qed

text \<open>The example segment of the CPU with its buffer on the device.\<close>

definition demo_gpu_segment :: arax_pipe_s where
  "demo_gpu_segment = demo_service\<lparr>objects := (objects demo_service)(12288 \<mapsto> (demo_obj ARAX_TYPE_DATA 3, Data (demo_buffer\<lparr>remote := 256\<rparr>)),
     16384 \<mapsto> (demo_obj ARAX_TYPE_TASK 2, Task (demo_transfer 24576 [7, 9])))\<rparr>"

lemma demo_gpu_objects:
  "objects demo_gpu_segment 16384 = Some (demo_obj ARAX_TYPE_TASK 2, Task (demo_transfer 24576 [7, 9]))"
  "objects demo_gpu_segment 20480 = Some (demo_obj ARAX_TYPE_TASK 1, Task (demo_transfer 28672 [0, 0]))"
  "objects demo_gpu_segment 12288 = Some (demo_obj ARAX_TYPE_DATA 3, Data (demo_buffer\<lparr>remote := 256\<rparr>))"
  "repo_lock demo_gpu_segment = (\<lambda>_. 0)"
  by (simp_all add: demo_gpu_segment_def demo_service_objects demo_service_state)

theorem gpu_set_get_witness:
  "\<exists>g1 s1 g2 s2. arax_data_set_gpu 1 demo_env demo_gpu 16384 (\<lambda>_. 0, [Memset 256 1 2]) demo_gpu_segment = Ok (g1, s1) \<and>
     arax_data_get_gpu demo_env demo_gpu 20480 g1 s1 = Ok (g2, s2) \<and>
     get_task 20480 s2 = Ok (done_task (demo_transfer 28672 [7, 9]))"
proof -
  have "unat (2 :: u64) = 2" by simp
  then show ?thesis
    using gpu_set_get [OF demo_gpu_ok demo_gpu_objects(1) _ _ _ _ _ _ _ _ _ demo_gpu_objects(2) _ _ _ _ _ _ demo_gpu_objects(3),
      where g = "(\<lambda>_. 0, [Memset 256 1 2])" and n = 0 and env = demo_env]
    by (simp add: demo_gpu_objects(4) demo_obj_def demo_transfer_def demo_buffer_def)
qed

text \<open>Memory on a device is paid for and given back: \<open>alloc_remote\<close> takes the size of the buffer from the accelerator and notes
  where the copy is, \<open>free_remote\<close> frees the copy and returns the same amount, and the segment is as before, with the
  accelerator of the buffer reset; when the accelerator has not enough, the thread waits before anything is allocated.\<close>

theorem gpu_alloc_free:
  assumes d: "objects s d = Some (hD, Data da)" "remote da = 0" "da_accel da = v" "v \<noteq> 0"
    and v: "objects s v = Some (hv, Vaccel va)" "va_phys va = a" "a \<noteq> 0"
    and a: "objects s a = Some (ha, Accel x)" "throttle_inv (ac_throttle x)"
    and rt: "cudaMalloc rt (da_size da) g = (Some p, g1)" "p \<noteq> 0" "cudaFree rt p g1 = (True, g2)"
  shows "if da_size da \<le> available (ac_throttle x)
    then \<exists>s1. GPU_alloc_remote rt d g s = Ok (g1, s1) \<and> get_data d s1 = Ok (da\<lparr>da_phys := a, remote := p\<rparr>) \<and>
      arax_accel_get_available_size a s1 = Ok (available (ac_throttle x) - da_size da) \<and>
      GPU_free_remote rt d g1 s1 = Ok (g2, s\<lparr>objects := (objects s)(d \<mapsto> (hD, Data (da\<lparr>da_phys := 0\<rparr>)))\<rparr>)
    else GPU_alloc_remote rt d g s = Fault (Blocked ''pthread_cond_wait'')"
proof -
  have ne: "d \<noteq> a" "d \<noteq> v" "a \<noteq> v" using d v a by auto
  let ?thr = "ac_throttle x"
  let ?t = "?thr\<lparr>available := available ?thr - da_size da\<rparr>"
  have inc: "arax_throttle_size_inc ?t (da_size da) = Ok ?thr" if le: "da_size da \<le> available ?thr"
  proof -
    have "unat (available ?t) + unat (da_size da) \<le> unat (capacity ?t)" using a(2) le
      by (simp add: throttle_inv_def unat_sub word_le_nat_alt)
    from throttle_inc_ok(1) [OF throttle_dec_ok(2) [OF a(2) le] this] show ?thesis by simp
  qed
  have same: "(objects s)(d \<mapsto> (hD, Data (da\<lparr>da_phys := 0\<rparr>)), a \<mapsto> (ha, Accel x)) = (objects s)(d \<mapsto> (hD, Data (da\<lparr>da_phys := 0\<rparr>)))"
    using a(1) ne(1) by (auto simp: fun_eq_iff)
  have rem: "da\<lparr>da_phys := 0, remote := 0\<rparr> = da\<lparr>da_phys := 0\<rparr>" using d(2) by (cases da) simp
  show ?thesis
    using throttle_dec_ok(1) [OF a(2), of "da_size da"] throttle_dec_blocks [OF a(2), of "da_size da"] inc assms ne same
    by (auto simp: GPU_alloc_remote_def GPU_free_remote_def alloc_throttled_def malloc_remote_def CUDA_ERROR_FATAL_def get_data_def get_vaccel_def
        get_accel_def set_body_def arax_accel_size_dec_def arax_accel_size_inc_def arax_accel_get_available_size_def
        arax_throttle_get_available_size_def fun_upd_twist rem)
qed

theorem gpu_alloc_free_witness:
  "\<exists>s1 s2. GPU_alloc_remote demo_gpu 12288 (\<lambda>_. 0, []) demo_service = Ok ((\<lambda>_. 0, []), s1) \<and>
     get_data 12288 s1 = Ok (demo_buffer\<lparr>da_phys := 4096, remote := 256\<rparr>) \<and>
     GPU_free_remote demo_gpu 12288 (\<lambda>_. 0, []) s1 = Ok ((\<lambda>_. 0, []), s2)"
  using gpu_alloc_free [OF demo_service_objects(3) _ _ _ demo_service_objects(4) _ _ demo_service_objects(5),
    where rt = demo_gpu and g = "(\<lambda>_. 0, [])" and p = 256 and ?g1.0 = "(\<lambda>_. 0, [])" and ?g2.0 = "(\<lambda>_. 0, [])"]
  by (auto simp: demo_service_simps demo_gpu_def)

text \<open>A copy of a task that nobody waits for, on HIP: when the reference it gives back was the last one, it marks a task as done that is gone.\<close>

lemma hip_memcpy_after_free:
  assumes "memcpy_start env rt t g s = Ok ((False, g1), s1)" and "stream_sync rt g1 s1 = Ok ((b, g2), s2)"
    and "arax_task_free n env t s2 = Ok s3" and "objects s3 t = None"
  shows "hip_memcpy n env rt t g s = Fault (Bad_access ''arax_task_msg_s'')"
  using assms by (simp add: hip_memcpy_def arax_task_mark_done_def mod_task_def get_task_def)

text \<open>What the guard of a copy lets through: its two sides are unsigned.\<close>

definition copy_fits :: "u64 \<Rightarrow> u64 \<Rightarrow> u64 \<Rightarrow> bool" where
  "copy_fits sz_data off sz \<longleftrightarrow> unat off + unat sz \<le> unat sz_data + (if off \<le> sz_data then 0 else 2 ^ 64)"

lemma copy_guard: "sz_data - off < sz \<longleftrightarrow> \<not> copy_fits sz_data off sz"
proof -
  have "unat off < 2 ^ 64" using unsigned_less [of off] by simp
  then show ?thesis by (auto simp: copy_fits_def word_less_nat_alt word_le_nat_alt unat_sub_if')
qed

text \<open>C23. Which copies between two buffers on a device are let through: those of at least one byte that start inside both buffers and end
  inside both, as intended; but also, because the sizes are unsigned and the difference wraps around, copies that start beyond the
  end of a buffer, unless they are so long that they come round again.\<close>

theorem gpu_memcpy_bounds:
  assumes t: "objects s t = Some (h, Task tk)" "host_size tk = sizeof_memcpyArgs" "task_io tk = src # dst # io"
    and args: "args = memcpyArgs_of (host_data tk)" "mc_size args \<noteq> 0" "mc_sync args"
    and src: "objects s src = Some (hs, Data ds)" "remote ds \<noteq> 0" and dst: "objects s dst = Some (hd', Data dd)" "remote dd \<noteq> 0"
    and rt: "cudaAsync rt (D2D (remote dd + mc_dst_offset args) (remote ds + mc_src_offset args) (mc_size args)) g = (True, g')"
  shows "if copy_fits (da_size dd) (mc_dst_offset args) (mc_size args) \<and> copy_fits (da_size ds) (mc_src_offset args) (mc_size args)
    then gpu_memcpy env rt t g s = Ok (g', s\<lparr>objects := (objects s)(t \<mapsto> (h, Task (done_task tk)))\<rparr>)
    else \<exists>m. gpu_memcpy env rt t g s = Fault (Assert_failed m)"
  using assms mark_done_upd [OF t(1)]
  by (auto simp: gpu_memcpy_def memcpy_start_def arax_task_host_data_def get_task_def task_arg_def Let_def arax_data_size_def get_data_def
      alloc_builtin_def device_copy_def CUDA_ERROR_FATAL_def copy_guard sizeof_memcpyArgs_def)

definition demo_copy :: arax_task_msg_s where
  "demo_copy = \<lparr>ta_accel = 8192, ta_proc = 0, host_size = 48, in_count = 1, out_count = 1, ta_type = GPU, ta_state = task_issued, ta_started = 0,
     ta_done = \<lparr>compl_mutex = True\<rparr>, task_io = [12288, 12288],
     host_data = replicate 24 0 @ [5, 0, 0, 0, 0, 0, 0, 0, 1, 0, 0, 0, 0, 0, 0, 0, 1, 0, 0, 0, 0, 0, 0, 0]\<rparr>"

lemma demo_copy_args: "memcpyArgs_of (host_data demo_copy) = \<lparr>mc_src_offset = 0, mc_dst_offset = 5, mc_sync = True, mc_size = 1\<rparr>"
  by code_simp

theorem gpu_memcpy_bounds_witness:
  "\<exists>s'. gpu_memcpy demo_env demo_gpu 16384 (\<lambda>_. 0, [])
     (demo_gpu_segment\<lparr>objects := (objects demo_gpu_segment)(16384 \<mapsto> (demo_obj ARAX_TYPE_TASK 1, Task demo_copy))\<rparr>) =
     Ok ((\<lambda>_. 0, [D2D 261 256 1]), s') \<and> da_size demo_buffer = 2"
proof -
  let ?s = "demo_gpu_segment\<lparr>objects := (objects demo_gpu_segment)(16384 \<mapsto> (demo_obj ARAX_TYPE_TASK 1, Task demo_copy))\<rparr>"
  have o: "objects ?s 16384 = Some (demo_obj ARAX_TYPE_TASK 1, Task demo_copy)"
    "objects ?s 12288 = Some (demo_obj ARAX_TYPE_DATA 3, Data (demo_buffer\<lparr>remote := 256\<rparr>))" using demo_gpu_objects by simp_all
  have "copy_fits 2 5 1" "copy_fits 2 0 1" by (simp_all add: copy_fits_def)
  then show ?thesis
    using gpu_memcpy_bounds [OF o(1) _ _ demo_copy_args [symmetric] _ _ o(2) _ o(2), where rt = demo_gpu and g = "(\<lambda>_. 0, [])" and g' = "(\<lambda>_. 0, [D2D 261 256 1])"
      and env = demo_env and io = "[]"]
    by (simp add: demo_copy_def demo_buffer_def demo_gpu_def sizeof_memcpyArgs_def)
qed

end
