(* ===== verification/Startup.thy ===== *)
theory Startup
  imports Service
begin

text \<open>
  The start of the controller (\<open>controller/src/Core/arax_controller.cpp\<close>): a configuration that is accepted
  (\<open>controller/src/Core/Config.cpp\<close>) describes accelerators for which threads can be made.
\<close>

section \<open>What constructors keep\<close>

text \<open>A type the library knows, with a class of threads for it.\<close>

definition accel_conf_ok :: "config_env \<Rightarrow> AccelConfig \<Rightarrow> bool" where
  "accel_conf_ok ce a \<longleftrightarrow> acc_type a \<noteq> ARAX_ACCEL_TYPES \<and> acc_type a = arax_accel_type_from_str (Some (type_str a)) \<and>
     constructType ''accelThread'' (threadFactory ce) (type_str a) \<noteq> None \<and> accelthread a = None \<and> arax_accel a = 0"

text \<open>Entries point to objects of their name.\<close>

definition entries_ok :: "AccelConfig list \<Rightarrow> (string \<times> nat) list \<Rightarrow> bool" where
  "entries_ok as m \<longleftrightarrow> map_sorted m \<and> (\<forall>(n, a)\<in>set m. a < length as \<and> acc_name (as ! a) = n)"

definition heap_ok :: "config_env \<Rightarrow> config_heap \<Rightarrow> bool" where
  "heap_ok ce h \<longleftrightarrow> (\<forall>a\<in>set (accel_configs h). accel_conf_ok ce a) \<and>
     (\<forall>g\<in>set (group_configs h). entries_ok (accel_configs h) (grp_accelerators g))"

lemma set_map_put: "set (map_put k v m) \<subseteq> insert (k, v) (set m)"
  by (induction k v m rule: map_put.induct) auto

lemma set_map_emplace: "set (map_emplace k v m) \<subseteq> insert (k, v) (set m)"
  using set_map_put [of k v m] by (auto simp: map_emplace_def)

lemma map_put_not_Nil [simp]: "map_put k v m \<noteq> []"
  by (cases "(k, v, m)" rule: map_put.cases) auto

lemma map_emplace_not_Nil [simp]: "map_emplace k v m \<noteq> []"
  by (auto simp: map_emplace_def)

lemma entries_ok_put:
  "entries_ok as m \<Longrightarrow> a < length as \<Longrightarrow> entries_ok as (map_put (acc_name (as ! a)) a m)"
  using set_map_put [of "acc_name (as ! a)" a m] by (fastforce simp: entries_ok_def map_put_sorted)

lemma entries_ok_more:
  assumes "entries_ok as m" "length as \<le> length bs" "\<And>i. i < length as \<Longrightarrow> acc_name (bs ! i) = acc_name (as ! i)"
  shows "entries_ok bs m"
  using assms by (fastforce simp: entries_ok_def)

text \<open>The classes of accelerators a value of the configuration can name.\<close>

lemma new_accel_ok:
  assumes h: "heap_ok ce h" and gr: "gr < length (group_configs h)" and n: "new_AccelConfig ce conf gr h = Inr h'"
  shows "heap_ok ce h'" "length (group_configs h') = length (group_configs h)" "length (accel_configs h') = Suc (length (accel_configs h))"
    "\<And>i. i < length (accel_configs h) \<Longrightarrow> accel_configs h' ! i = accel_configs h ! i"
    "grp_accelerators (group_configs h' ! gr) \<noteq> []" "scheduler_objs h' = scheduler_objs h"
    "\<And>i. i < length (group_configs h) \<Longrightarrow> grp_name (group_configs h' ! i) = grp_name (group_configs h ! i) \<and>
      grp_scheduler (group_configs h' ! i) = grp_scheduler (group_configs h ! i) \<and> (i \<noteq> gr \<longrightarrow> group_configs h' ! i = group_configs h ! i)"
proof -
  obtain tstr name cs pref where new: "arax_accel_type_from_str (Some tstr) \<noteq> ARAX_ACCEL_TYPES"
    "tstr @ ''accelThread'' \<in> set (getTypes (threadFactory ce))"
    "h' = h\<lparr>group_configs := (group_configs h)[gr := (group_configs h ! gr)\<lparr>grp_accelerators :=
        map_put name (length (accel_configs h)) (grp_accelerators (group_configs h ! gr))\<rparr>],
      accel_configs := accel_configs h @ [\<lparr>acc_name = name, acc_conf = conf, type_str = tstr, acc_type = arax_accel_type_from_str (Some tstr),
        affinity = cs, arax_accel = 0, accelthread = None, acc_group = gr, job_preference = pref, initial_preference = pref\<rparr>]\<rparr>"
    using n by (auto simp: new_AccelConfig_def Let_def res_simps addAccelerator_def split: if_splits intro: that)
  define a where "a = \<lparr>acc_name = name, acc_conf = conf, type_str = tstr, acc_type = arax_accel_type_from_str (Some tstr),
        affinity = cs, arax_accel = 0, accelthread = None, acc_group = gr, job_preference = pref, initial_preference = pref\<rparr>"
  let ?g = "(group_configs h ! gr)\<lparr>grp_accelerators := map_put (acc_name a) (length (accel_configs h)) (grp_accelerators (group_configs h ! gr))\<rparr>"
  have a: "accel_conf_ok ce a" using new(1,2) by (auto simp: a_def accel_conf_ok_def constructType_def map_of_eq_None_iff getTypes_def)
  have h': "accel_configs h' = accel_configs h @ [a]" "group_configs h' = (group_configs h)[gr := ?g]" "scheduler_objs h' = scheduler_objs h"
    using new(3) by (simp_all add: a_def)
  have more: "entries_ok (accel_configs h @ [a]) m" if "entries_ok (accel_configs h) m" for m
    by (rule entries_ok_more [OF that]) (simp_all add: nth_append)
  have "entries_ok (accel_configs h) (grp_accelerators (group_configs h ! gr))" using h gr by (simp add: heap_ok_def)
  from entries_ok_put [OF more [OF this], of "length (accel_configs h)"]
  have "entries_ok (accel_configs h @ [a]) (grp_accelerators ?g)" by simp
  with h more a show "heap_ok ce h'" using set_update_subset_insert [of "group_configs h" gr ?g] by (auto simp: heap_ok_def h')
  show "length (group_configs h') = length (group_configs h)" "length (accel_configs h') = Suc (length (accel_configs h))"
    "\<And>i. i < length (accel_configs h) \<Longrightarrow> accel_configs h' ! i = accel_configs h ! i"
    "grp_accelerators (group_configs h' ! gr) \<noteq> []" "scheduler_objs h' = scheduler_objs h"
    "\<And>i. i < length (group_configs h) \<Longrightarrow> grp_name (group_configs h' ! i) = grp_name (group_configs h ! i) \<and>
      grp_scheduler (group_configs h' ! i) = grp_scheduler (group_configs h ! i) \<and> (i \<noteq> gr \<longrightarrow> group_configs h' ! i = group_configs h ! i)"
    using gr by (auto simp: h' nth_append nth_list_update)
qed

text \<open>What a constructor may do to the objects that exist.\<close>

definition heap_grows :: "config_heap \<Rightarrow> config_heap \<Rightarrow> bool" where
  "heap_grows h h' \<longleftrightarrow> length (accel_configs h) \<le> length (accel_configs h') \<and>
     (\<forall>i<length (accel_configs h). accel_configs h' ! i = accel_configs h ! i)"

lemma heap_grows_trans: "heap_grows h1 h2 \<Longrightarrow> heap_grows h2 h3 \<Longrightarrow> heap_grows h1 h3"
  by (fastforce simp: heap_grows_def)

lemma heap_grows_entries: "heap_grows h h' \<Longrightarrow> entries_ok (accel_configs h) m \<Longrightarrow> entries_ok (accel_configs h') m"
  by (auto simp: heap_grows_def intro: entries_ok_more)

lemma add_accels_ok:
  assumes "heap_ok ce h" "gr < length (group_configs h)" "add_accels ce gr nr vs h = Inr h'"
  shows "heap_ok ce h' \<and> length (group_configs h') = length (group_configs h) \<and> heap_grows h h' \<and> scheduler_objs h' = scheduler_objs h \<and>
    grp_name (group_configs h' ! gr) = grp_name (group_configs h ! gr) \<and> grp_scheduler (group_configs h' ! gr) = grp_scheduler (group_configs h ! gr) \<and>
    (vs \<noteq> [] \<or> grp_accelerators (group_configs h ! gr) \<noteq> [] \<longrightarrow> grp_accelerators (group_configs h' ! gr) \<noteq> [])"
  using assms
proof (induction vs arbitrary: nr h)
  case (Cons v vs)
  from Cons.prems(3) obtain conf h1 where h1: "new_AccelConfig ce conf gr h = Inr h1" "add_accels ce gr (Suc nr) vs h1 = Inr h'"
    by (auto simp: res_simps)
  note n = new_accel_ok [OF Cons.prems(1,2) h1(1)]
  have "gr < length (group_configs h1)" using n(2) Cons.prems(2) by simp
  from Cons.IH [OF n(1) this h1(2)] n(2-6) n(7) [OF Cons.prems(2)] show ?case by (auto simp: heap_grows_def)
qed (auto simp: heap_grows_def)

lemma new_group_ok:
  assumes h: "heap_ok ce h" and n: "new_GroupConfig ce name conf h = Inr (gr, h')"
  shows "heap_ok ce h'" "heap_grows h h'" "gr < length (group_configs h')" "grp_name (group_configs h' ! gr) = name"
    "grp_accelerators (group_configs h' ! gr) \<noteq> []" "grp_scheduler (group_configs h' ! gr) < length (scheduler_objs h')"
    "length (scheduler_objs h) \<le> length (scheduler_objs h')"
proof -
  from n obtain cls vs h2 where gr: "gr = length (group_configs h)" and vs: "vs \<noteq> []" and
    add: "add_accels ce gr 0 vs (h\<lparr>scheduler_objs := scheduler_objs h @ [cls], group_configs := group_configs h @ [\<lparr>grp_name = name,
      grp_scheduler = length (scheduler_objs h), grp_accelerators = [], groupId = 0\<rparr>]\<rparr>) = Inr h2" (is "add_accels _ _ _ _ ?h = _") and
    h': "h' = h2\<lparr>group_configs := (group_configs h2)[gr := (group_configs h2 ! gr)\<lparr>groupId := groupCount h2\<rparr>], groupCount := groupCount h2 + 1\<rparr>"
    by (auto simp: new_GroupConfig_def Let_def res_simps split: option.splits if_splits)
  have "heap_ok ce ?h" using h by (auto simp: heap_ok_def entries_ok_def map_sorted_def)
  from add_accels_ok [OF this _ add] gr have a: "heap_ok ce h2" "heap_grows ?h h2" "gr < length (group_configs h2)"
    "grp_name (group_configs h2 ! gr) = name" "grp_accelerators (group_configs h2 ! gr) \<noteq> []"
    "grp_scheduler (group_configs h2 ! gr) = length (scheduler_objs h)" "scheduler_objs h2 = scheduler_objs h @ [cls]"
    using vs by simp_all
  let ?g = "(group_configs h2 ! gr)\<lparr>groupId := groupCount h2\<rparr>"
  have "entries_ok (accel_configs h2) (grp_accelerators ?g)" using a(1,3) by (simp add: heap_ok_def)
  then show "heap_ok ce h'" using a(1) set_update_subset_insert [of "group_configs h2" gr ?g] by (auto simp: heap_ok_def h')
  show "heap_grows h h'" "gr < length (group_configs h')" "grp_name (group_configs h' ! gr) = name"
    "grp_accelerators (group_configs h' ! gr) \<noteq> []" "grp_scheduler (group_configs h' ! gr) < length (scheduler_objs h')"
    "length (scheduler_objs h) \<le> length (scheduler_objs h')"
    using a(2-7) by (simp_all add: h' heap_grows_def)
qed

text \<open>The configuration as it is built up.\<close>

definition config_ok :: "Controller_Config.Config \<Rightarrow> config_heap \<Rightarrow> bool" where
  "config_ok c h \<longleftrightarrow> entries_ok (accel_configs h) (accelerators c) \<and> (\<forall>(n, sc)\<in>set (schedulers c). sc < length (scheduler_objs h)) \<and>
     (groups c \<noteq> [] \<longrightarrow> accelerators c \<noteq> [] \<and> schedulers c \<noteq> [])"

lemma fold_emplace:
  assumes "entries_ok as m" "entries_ok as l"
  shows "entries_ok as (fold (\<lambda>(n, a). map_emplace n a) l m)" "l \<noteq> [] \<or> m \<noteq> [] \<Longrightarrow> fold (\<lambda>(n, a). map_emplace n a) l m \<noteq> []"
proof -
  have e: "entries_ok as (map_emplace n a m)" if "entries_ok as m" "a < length as" "acc_name (as ! a) = n" for n a m
  proof -
    have "(\<forall>x\<in>insert (n, a) (set m). case x of (n, a) \<Rightarrow> a < length as \<and> acc_name (as ! a) = n)" using that by (simp add: entries_ok_def)
    with that(1) set_map_emplace [of n a m] show ?thesis unfolding entries_ok_def by (blast intro: map_emplace_sorted)
  qed
  show "entries_ok as (fold (\<lambda>(n, a). map_emplace n a) l m)"
    using assms
  proof (induction l arbitrary: m)
    case (Cons x l)
    obtain n a where x: "x = (n, a)" by (cases x)
    from Cons.prems(2) have "entries_ok as l" "a < length as" "acc_name (as ! a) = n" by (simp_all add: x entries_ok_def map_sorted_def)
    with Cons.IH [OF e [OF Cons.prems(1)]] show ?case by (simp add: x)
  qed simp
  show "fold (\<lambda>(n, a). map_emplace n a) l m \<noteq> []" if "l \<noteq> [] \<or> m \<noteq> []"
    using that by (induction l arbitrary: m) (auto split: prod.split)
qed

lemma read_groups_ok:
  assumes "heap_ok ce h" "config_ok c h" "read_groups ce file jgroups gs (c, h) = Inr (c', h')"
  shows "heap_ok ce h' \<and> config_ok c' h' \<and> (gs \<noteq> [] \<or> groups c \<noteq> [] \<longrightarrow> groups c' \<noteq> [])"
  using assms
proof (induction gs arbitrary: c h)
  case (Cons x gs)
  obtain first v where x: "x = (first, v)" by (cases x)
  obtain grp gr h1 where g: "new_GroupConfig ce first grp h = Inr (gr, h1)" and
    rest: "read_groups ce file jgroups gs (c\<lparr>schedulers := map_put (grp_name (group_configs h1 ! gr)) (grp_scheduler (group_configs h1 ! gr)) (schedulers c),
      groups := map_put first gr (groups c),
      accelerators := fold (\<lambda>(n, a). map_emplace n a) (grp_accelerators (group_configs h1 ! gr)) (accelerators c)\<rparr>, h1) = Inr (c', h')"
      (is "read_groups _ _ _ _ (?c, _) = _")
    using Cons.prems(3) unfolding x read_groups.simps Let_def
    by (simp add: res_simps split: if_splits) (elim exE conjE, rule that, assumption, assumption)
  note n = new_group_ok [OF Cons.prems(1) g]
  have e: "entries_ok (accel_configs h1) (accelerators c)" using heap_grows_entries [OF n(2)] Cons.prems(2) by (simp add: config_ok_def)
  have l: "entries_ok (accel_configs h1) (grp_accelerators (group_configs h1 ! gr))" using n(1,3) by (simp add: heap_ok_def)
  have "\<forall>(n, sc)\<in>set (schedulers c). sc < length (scheduler_objs h1)" 
    using Cons.prems(2) n(7) unfolding config_ok_def by (auto dest!: bspec intro: less_le_trans)
  then have sc: "\<forall>(n, sc)\<in>set (schedulers ?c). sc < length (scheduler_objs h1)"
    using n(6) set_map_put [of "grp_name (group_configs h1 ! gr)" "grp_scheduler (group_configs h1 ! gr)" "schedulers c"] by auto
  have "config_ok ?c h1" using fold_emplace [OF e l] n(5) sc by (simp add: config_ok_def)
  from Cons.IH [OF n(1) this rest] show ?case by simp
qed simp

lemma new_config_ok:
  assumes "heap_ok ce h" "new_Config ce parse file h = Inr (c, h')"
  shows "heap_ok ce h'" "config_ok c h'" "groups c \<noteq> []"
proof -
  from assms(2) obtain cl ps jgroups where "jgroups \<noteq> []"
    "read_groups ce file jgroups jgroups (\<lparr>clean_shm = cl, paths = ps, accelerators = [], schedulers = [], groups = []\<rparr>, h) = Inr (c, h')"
    by (auto simp: new_Config_def Let_def res_simps split: option.splits sum.splits if_splits)
  from read_groups_ok [OF assms(1) _ this(2)] this(1) show "heap_ok ce h'" "config_ok c h'" "groups c \<noteq> []"
    by (simp_all add: config_ok_def entries_ok_def map_sorted_def)
qed

section \<open>Spawning\<close>

lemma spawn_loop_ok:
  assumes "distinct as" "\<forall>a\<in>set as. a < length (cn_accels c) \<and> constructType ''accelThread'' factory (type_str (cn_accels c ! a)) \<noteq> None"
  shows "\<exists>c'. spawn_loop factory as c = (True, c') \<and> cn_threads c' = cn_threads c @ map new_accelThread as \<and>
    (\<forall>a. a \<notin> set as \<longrightarrow> cn_accels c' ! a = cn_accels c ! a) \<and>
    (\<forall>i<length as. cn_accels c' ! (as ! i) = (cn_accels c ! (as ! i))\<lparr>accelthread := Some (length (cn_threads c) + i)\<rparr>)"
  using assms
proof (induction as arbitrary: c)
  case (Cons a as)
  let ?c = "c\<lparr>cn_threads := cn_threads c @ [new_accelThread a],
    cn_accels := (cn_accels c)[a := (cn_accels c ! a)\<lparr>accelthread := Some (length (cn_threads c))\<rparr>]\<rparr>"
  have "\<forall>b\<in>set as. b < length (cn_accels ?c) \<and> constructType ''accelThread'' factory (type_str (cn_accels ?c ! b)) \<noteq> None"
    using Cons.prems by (auto simp: nth_list_update)
  from Cons.IH [OF _ this] Cons.prems obtain c' where c': "spawn_loop factory as ?c = (True, c')"
    "cn_threads c' = cn_threads ?c @ map new_accelThread as" "\<forall>b. b \<notin> set as \<longrightarrow> cn_accels c' ! b = cn_accels ?c ! b"
    "\<forall>i<length as. cn_accels c' ! (as ! i) = (cn_accels ?c ! (as ! i))\<lparr>accelthread := Some (length (cn_threads ?c) + i)\<rparr>" by auto
  have "\<exists>p. constructType ''accelThread'' factory (type_str (cn_accels c ! a)) = Some p" using Cons.prems by auto
  moreover have "as ! i \<noteq> a" if "i < length as" for i using Cons.prems(1) that by auto
  ultimately show ?case using c' Cons.prems by (auto simp: nth_Cons' nth_list_update less_Suc_eq_0_disj)
qed auto

lemma entries_distinct:
  assumes "entries_ok as m"
  shows "sorted_wrt (<) (map (\<lambda>a. acc_name (as ! a)) (map snd m))" "distinct (map snd m)" "\<forall>a\<in>set (map snd m). a < length as"
proof -
  have eq: "map (\<lambda>a. acc_name (as ! a)) (map snd m) = map fst m" using assms by (auto simp: entries_ok_def)
  show s: "sorted_wrt (<) (map (\<lambda>a. acc_name (as ! a)) (map snd m))" unfolding eq using assms by (simp add: entries_ok_def map_sorted_def)
  then have "distinct (map (\<lambda>a. acc_name (as ! a)) (map snd m))" by (simp only: strict_sorted_iff)
  then show "distinct (map snd m)" by (simp only: distinct_map)
  show "\<forall>a\<in>set (map snd m). a < length as" using assms by (auto simp: entries_ok_def)
qed

section \<open>Accepted configurations\<close>

text \<open>Before the file is read.\<close>

definition no_configs :: config_heap where
  "no_configs = \<lparr>accel_configs = [], group_configs = [], scheduler_objs = [], groupCount = 0\<rparr>"

lemma no_configs_ok: "heap_ok ce no_configs"
  by (simp add: heap_ok_def no_configs_def)

text \<open>A configuration file that is accepted describes a controller that can start: there is at least one accelerator and one
  scheduler, no two accelerators have the same name, and when the threads are spawned, each accelerator gets one of its own, of the
  class its type names; none is refused for want of such a class.\<close>

lemma accepted_spawns:
  assumes "new_Config ce parse file no_configs = Inr (cfg, h)" and "cn_accels c = accel_configs h" and "cn_threads c = []"
  shows "getAccelerators cfg \<noteq> [] \<and> getSchedulers cfg \<noteq> [] \<and>
    sorted_wrt (<) (map (\<lambda>a. acc_name (accel_configs h ! a)) (getAccelerators cfg)) \<and> distinct (getAccelerators cfg) \<and>
    (\<exists>c'. spawnThreads (threadFactory ce) (getAccelerators cfg) c = (True, c') \<and>
       length (cn_threads c') = length (getAccelerators cfg) \<and>
       (\<forall>i<length (getAccelerators cfg). accelConf (cn_threads c' ! i) = getAccelerators cfg ! i \<and>
          accelthread (cn_accels c' ! (getAccelerators cfg ! i)) = Some i))"
proof -
  note ok = new_config_ok [OF no_configs_ok assms(1)]
  then have e: "entries_ok (accel_configs h) (accelerators cfg)" and ne: "getAccelerators cfg \<noteq> []" "getSchedulers cfg \<noteq> []"
    by (simp_all add: config_ok_def getAccelerators_def getSchedulers_def)
  note d = entries_distinct [OF e, folded getAccelerators_def]
  have "\<forall>a\<in>set (getAccelerators cfg). a < length (cn_accels c) \<and> constructType ''accelThread'' (threadFactory ce) (type_str (cn_accels c ! a)) \<noteq> None"
    using d(3) ok(1) by (auto simp: heap_ok_def accel_conf_ok_def assms(2))
  from spawn_loop_ok [OF d(2) this] ne d show ?thesis unfolding spawnThreads_def
    by (auto simp: assms(3) new_accelThread_def)
qed

section \<open>Ending a thread\<close>

text \<open>What a thread waits for: the mutex while it has no jobs, and a task at its accelerator.\<close>

definition thread_sleeps :: "nat \<Rightarrow> controller_s \<Rightarrow> arax_pipe_s \<Rightarrow> bool" where
  "thread_sleeps th c s \<longleftrightarrow> (job_preference (thread_conf th c) = NoJob \<and> enable_mtx (cn_threads c ! th)) \<or>
     arax_accel_wait_for_task (arax_accel (thread_conf th c)) s = Fault (Blocked ''pthread_cond_wait'')"

section \<open>The properties\<close>

text \<open>C24. A thread that is told to end is not left asleep: whatever it waited for, the mutex it is kept behind while it has no jobs, or
  a task at its accelerator, it gets, and it finds that it has to stop.\<close>

theorem terminate_wakes:
  assumes "th < length (cn_threads c)" and "accelConf (cn_threads c ! th) < length (cn_accels c)"
    and "get_accel (arax_accel (thread_conf th c)) s = Ok x" and "ac_lock x = cond_free" and "ac_tasks x \<noteq> - 1"
  shows "\<exists>c' s'. terminate th c s = Ok (c', s') \<and> \<not> thread_sleeps th c' s' \<and> stopExec (cn_threads c' ! th) \<and>
    arax_accel_pending_tasks (arax_accel (thread_conf th c)) s' = Ok (ac_tasks x + 1)"
proof -
  let ?a = "accelConf (cn_threads c ! th)"
  obtain h where o: "objects s (arax_accel (thread_conf th c)) = Some (h, Accel x)" using assms(3) by (auto simp: res_simps)
  have "ac_tasks x + 1 \<noteq> 0" using assms(5) by (metis add.inverse_unique add.commute)
  then show ?thesis using assms(1,2,4) o
    by (simp add: terminate_def setJobPreference_def enable_def mod_thread_def mod_conf_def thread_conf_def Let_def thread_sleeps_def
        arax_accel_add_task_def accel_lock_def accel_unlock_def accel_notify_def mod_accel_def get_accel_def set_body_def
        arax_accel_wait_for_task_def arax_accel_pending_tasks_def async_condition_wait_def)
qed

theorem terminate_wakes_witness:
  "\<exists>c c' s'. thread_sleeps 0 c demo_service \<and> terminate 0 c demo_service = Ok (c', s') \<and> \<not> thread_sleeps 0 c' s' \<and> stopExec (cn_threads c' ! 0)"
proof -
  let ?c = "setJobPreference 0 NoJob demo_controller"
  note defs = setJobPreference_def disable_def mod_thread_def mod_conf_def thread_conf_def demo_controller_def new_accelThread_def Let_def
  have c: "0 < length (cn_threads ?c)" "accelConf (cn_threads ?c ! 0) < length (cn_accels ?c)" "arax_accel (thread_conf 0 ?c) = 4096"
    "thread_sleeps 0 ?c demo_service" by (simp_all add: thread_sleeps_def defs)
  moreover have "get_accel (arax_accel (thread_conf 0 ?c)) demo_service = Ok demo_accel"
    using demo_service_objects(5) by (simp add: c(3) get_accel_def demo_va_def)
  ultimately show ?thesis using terminate_wakes [of 0 ?c demo_service demo_accel] by (auto simp: demo_accel_def)
qed

end
