(* ===== verification/Loader.thy ===== *)
theory Loader
  imports Scheduling
begin

text \<open>
  The libraries of the controller (\<open>controller/src/Core/araxLibMgr.cpp\<close>): folders are searched for shared objects, and the
  procedures these define are registered in the segment, each with the functors of its implementations.

  The file system is a tree of folders and files; \<open>dlopen\<close> and \<open>dlsym\<close> are parameters (\<open>rtld\<close>), with null as zero or
  \<open>None\<close>. What is printed is left out, with \<open>operator <<\<close> of the kernel map.
\<close>

section \<open>Libraries\<close>

record AraxProcedureDefinition =
  def_name :: string
  def_type :: arax_accel_type_e
  def_max_type :: arax_accel_type_e
  def_functor :: addr
  def_arg_size :: u64

record rtld =
  dlopen :: "string \<Rightarrow> addr"
  dlsym :: "addr \<Rightarrow> AraxProcedureDefinition list option"

record KernelMap =
  krnl_state :: "(string \<times> (string \<times> bool) list) list"
  krnl_archs :: "string list"

record AraxLibMgr =
  lib_paths :: "string list"
  lib_fd_paths :: "(int \<times> string) list"
  libs :: "(string \<times> addr) list"
  procs :: "addr list"

definition addKernel :: "string \<Rightarrow> string \<Rightarrow> bool \<Rightarrow> KernelMap \<Rightarrow> KernelMap" where
  "addKernel arch krnl state km =
     (let old = (case map_of (krnl_state km) krnl of None \<Rightarrow> [] | Some m \<Rightarrow> m) in
      km\<lparr>krnl_state := map_put krnl (map_put arch state old) (krnl_state km), krnl_archs := List.insert arch (krnl_archs km)\<rparr>)"

text \<open>\<open>lib_file.rfind(".so")\<close> finds the text somewhere, not only at the end.\<close>

fun has_so :: "string \<Rightarrow> bool" where
  "has_so (a # b # c # s) \<longleftrightarrow> [a, b, c] = ''.so'' \<or> has_so (b # c # s)"
| "has_so _ \<longleftrightarrow> False"

text \<open>The loop over the definitions. One for an unknown type of accelerator is skipped.\<close>

fun load_defs :: "arax_env \<Rightarrow> AraxProcedureDefinition list \<Rightarrow> KernelMap \<Rightarrow> arax_pipe_s \<Rightarrow> (KernelMap \<times> arax_pipe_s) res" where
  "load_defs env [] km s = Ok (km, s)"
| "load_defs env (d # ds) km s =
     (if def_type d \<ge> ARAX_ACCEL_TYPES then load_defs env ds km s
      else
        rbind (arax_proc_register env (def_name d) s) (\<lambda>(prc, s).
        rbind (arax_proc_set_functor prc (def_type d) (def_functor d) s) (\<lambda>(_, s).
        case arax_accel_type_to_str (def_type d) of
          None \<Rightarrow> Fault (Uncaught ''std::logic_error'')
        | Some arch \<Rightarrow> load_defs env ds (addKernel arch (def_name d) (prc \<noteq> 0) km) s)))"

definition loadLibrary :: "arax_env \<Rightarrow> rtld \<Rightarrow> string \<Rightarrow> AraxLibMgr \<times> KernelMap \<Rightarrow> arax_pipe_s \<Rightarrow>
    ((bool \<times> AraxLibMgr \<times> KernelMap) \<times> arax_pipe_s) res" where
  "loadLibrary env rt lib_file = (\<lambda>(m, km) s.
     if \<not> has_so lib_file then Ok ((False, m, km), s)
     else if map_of (libs m) lib_file \<noteq> None then Ok ((True, m, km), s)
     else
       let hdl = dlopen rt lib_file in
       if hdl = 0 then Ok ((False, m, km), s)
       else
         case dlsym rt hdl of
           None \<Rightarrow> Ok ((False, m, km), s)
         | Some defs \<Rightarrow>
             let m = m\<lparr>libs := map_put lib_file hdl (libs m)\<rparr> in
             rbind (load_defs env defs km s) (\<lambda>(km, s). Ok ((True, m, km), s)))"

section \<open>Folders\<close>

text \<open>A folder with its entries in the order of \<open>readdir\<close>, or something that \<open>opendir\<close> refuses.\<close>

datatype dirent = Dir "(string \<times> dirent) list" | No_dir

text \<open>\<open>wd\<close> is the descriptor \<open>inotify_add_watch\<close> gives for a path.\<close>

fun loadFolder :: "arax_env \<Rightarrow> rtld \<Rightarrow> (string \<Rightarrow> int) \<Rightarrow> string \<Rightarrow> dirent \<Rightarrow> AraxLibMgr \<times> KernelMap \<Rightarrow> arax_pipe_s \<Rightarrow>
    ((bool \<times> AraxLibMgr \<times> KernelMap) \<times> arax_pipe_s) res"
  and load_entries :: "arax_env \<Rightarrow> rtld \<Rightarrow> (string \<Rightarrow> int) \<Rightarrow> string \<Rightarrow> (string \<times> dirent) list \<Rightarrow> AraxLibMgr \<times> KernelMap \<Rightarrow> arax_pipe_s \<Rightarrow>
    ((bool \<times> AraxLibMgr \<times> KernelMap) \<times> arax_pipe_s) res" where
  "loadFolder env rt wd path No_dir (m, km) s = Ok ((path \<in> set (lib_paths m), m, km), s)"
| "loadFolder env rt wd path (Dir es) (m, km) s =
     (if path \<in> set (lib_paths m) then Ok ((True, m, km), s)
      else load_entries env rt wd path es
        (m\<lparr>lib_fd_paths := map_put (wd path) path (lib_fd_paths m), lib_paths := List.insert path (lib_paths m)\<rparr>, km) s)"
| "load_entries env rt wd path [] (m, km) s = Ok ((True, m, km), s)"
| "load_entries env rt wd path ((d_name, d) # es) (m, km) s =
     (if d_name \<noteq> [] \<and> hd d_name = CHR ''.'' then load_entries env rt wd path es (m, km) s
      else
        let lib = path @ ''/'' @ d_name in
        rbind (loadFolder env rt wd lib d (m, km) s) (\<lambda>((loaded, m, km), s).
        if loaded then load_entries env rt wd path es (m, km) s
        else rbind (loadLibrary env rt lib (m, km) s) (\<lambda>((_, m, km), s). load_entries env rt wd path es (m, km) s)))"

text \<open>The loop of \<open>main\<close> over the paths of the configuration; \<open>fs\<close> is what is found there.\<close>

fun load_paths :: "arax_env \<Rightarrow> rtld \<Rightarrow> (string \<Rightarrow> int) \<Rightarrow> (string \<Rightarrow> dirent) \<Rightarrow> string list \<Rightarrow> AraxLibMgr \<times> KernelMap \<Rightarrow> arax_pipe_s \<Rightarrow>
    ((bool \<times> AraxLibMgr \<times> KernelMap) \<times> arax_pipe_s) res" where
  "load_paths env rt wd fs [] (m, km) s = Ok ((True, m, km), s)"
| "load_paths env rt wd fs (p # ps) (m, km) s =
     rbind (loadFolder env rt wd p (fs p) (m, km) s) (\<lambda>((loaded, m, km), s).
     if loaded then load_paths env rt wd fs ps (m, km) s else Ok ((False, m, km), s))"

text \<open>The constructor, an event of \<open>rtld_handler\<close> (\<open>lib_fd_paths[wd]\<close> of an unknown descriptor is the empty text, and is kept), the end.\<close>

definition new_AraxLibMgr :: AraxLibMgr where
  "new_AraxLibMgr = \<lparr>lib_paths = [], lib_fd_paths = [], libs = [], procs = []\<rparr>"

definition rtld_event :: "arax_env \<Rightarrow> rtld \<Rightarrow> int \<Rightarrow> string \<Rightarrow> AraxLibMgr \<Rightarrow> arax_pipe_s \<Rightarrow> (AraxLibMgr \<times> arax_pipe_s) res" where
  "rtld_event env rt wd name m s =
     (let m = m\<lparr>lib_fd_paths := map_emplace wd [] (lib_fd_paths m)\<rparr>;
          path = (case map_of (lib_fd_paths m) wd of None \<Rightarrow> [] | Some p \<Rightarrow> p) in
      rbind (loadLibrary env rt (path @ ''/'' @ name) (m, \<lparr>krnl_state = [], krnl_archs = []\<rparr>) s) (\<lambda>((_, m, _), s). Ok (m, s)))"

fun drop_procs :: "nat \<Rightarrow> arax_env \<Rightarrow> addr list \<Rightarrow> arax_pipe_s \<Rightarrow> arax_pipe_s res" where
  "drop_procs n env [] s = Ok s"
| "drop_procs n env (p # ps) s =
     rbind (get_obj p s) (\<lambda>_. rbind (arax_object_ref_dec n env p s) (\<lambda>(_, s). drop_procs n env ps s))"

definition unloadLibraries :: "nat \<Rightarrow> arax_env \<Rightarrow> AraxLibMgr \<Rightarrow> arax_pipe_s \<Rightarrow> (AraxLibMgr \<times> arax_pipe_s) res" where
  "unloadLibraries n env m s = rbind (drop_procs n env (procs m) s) (\<lambda>s. Ok (m\<lparr>procs := [], libs := []\<rparr>, s))"

section \<open>The table of procedures\<close>

text \<open>What a client finds under a name and a type of accelerator; null when there is none.\<close>

definition lookup_functor :: "string \<Rightarrow> arax_accel_type_e \<Rightarrow> arax_pipe_s \<Rightarrow> addr res" where
  "lookup_functor name ty s = rbind (arax_pipe_find_proc name s) (\<lambda>(p, s). if p = 0 then Ok 0 else arax_proc_get_functor p ty s)"

text \<open>The specification: a table of functors by name and type, and a library as a list of updates of it.\<close>

type_synonym functor_table = "string \<Rightarrow> arax_accel_type_e \<Rightarrow> addr"

definition define_proc :: "AraxProcedureDefinition \<Rightarrow> functor_table \<Rightarrow> functor_table" where
  "define_proc d T = (if def_type d \<ge> ARAX_ACCEL_TYPES then T else T(def_name d := (T (def_name d))(def_type d := def_functor d)))"

definition shows_table :: "functor_table \<Rightarrow> arax_pipe_s \<Rightarrow> bool" where
  "shows_table T s \<longleftrightarrow> (\<forall>name ty. ty < ARAX_ACCEL_TYPES \<longrightarrow> lookup_functor name ty s = Ok (T name ty))"

text \<open>The procedures of a segment have names of their own, and the lock of their list is free.\<close>

definition procs_ok :: "arax_pipe_s \<Rightarrow> bool" where
  "procs_ok s \<longleftrightarrow> repo_lock s ARAX_TYPE_PROC = 0 \<and>
     (\<forall>p h x. objects s p = Some (h, Proc x) \<longrightarrow> length (functors x) = unat ARAX_ACCEL_TYPES) \<and>
     (\<forall>p q h x g y. objects s p = Some (h, Proc x) \<and> objects s q = Some (g, Proc y) \<and> ob_name h = ob_name g \<longrightarrow> p = q)"

lemma find_named:
  assumes "seg_ok env exact {} s" and "procs_ok s" and "objects s p = Some (h, Proc x)"
  shows "arax_pipe_find_proc (ob_name h) s = Ok (p, s)"
proof -
  have lock: "repo_lock s ARAX_TYPE_PROC = 0" using assms(2) by (simp add: procs_ok_def)
  have h: "ob_type h = ARAX_TYPE_PROC" using live_objects(2) [OF assms(1,3)] by simp
  from dir.find_proc [OF assms(1) lock, of "ob_name h"] obtain q where q: "arax_pipe_find_proc (ob_name h) s = Ok (q, s)"
    "if q = 0 then \<forall>a g b. objects s a = Some (g, b) \<and> ob_type g = ARAX_TYPE_PROC \<longrightarrow> ob_name g \<noteq> ob_name h
     else \<exists>g b. objects s q = Some (g, b) \<and> ob_type g = ARAX_TYPE_PROC \<and> ob_name g = ob_name h" by blast
  then have "q \<noteq> 0" using assms(3) h by metis
  with q(2) obtain g b where g: "objects s q = Some (g, b)" "ob_type g = ARAX_TYPE_PROC" "ob_name g = ob_name h" by auto
  obtain y where "b = Proc y" using live_objects(2) [OF assms(1) g(1)] g(2) by (cases b) auto
  then have "q = p" using g assms(2,3) by (metis procs_ok_def)
  with q(1) show ?thesis by simp
qed

lemma find_unnamed:
  assumes "seg_ok env exact {} s" and "procs_ok s" and "\<And>p h x. objects s p = Some (h, Proc x) \<Longrightarrow> ob_name h \<noteq> name"
  shows "arax_pipe_find_proc name s = Ok (0, s)"
proof -
  have lock: "repo_lock s ARAX_TYPE_PROC = 0" using assms(2) by (simp add: procs_ok_def)
  have "\<exists>x. b = Proc x" if "objects s a = Some (h, b)" "ob_type h = ARAX_TYPE_PROC" for a h b
    using live_objects(2) [OF assms(1) that(1)] that(2) by (cases b) auto
  with dir.find_proc [OF assms(1) lock, of name] assms(3) show ?thesis by (auto split: if_splits) metis
qed

text \<open>The table of a segment, read off its objects.\<close>

lemma lookup_functor_iff:
  assumes "seg_ok env exact {} s" and "procs_ok s" and "ty < ARAX_ACCEL_TYPES"
  shows "objects s p = Some (h, Proc x) \<Longrightarrow> lookup_functor (ob_name h) ty s = Ok (functors x ! unat ty)"
    and "(\<And>p h x. objects s p = Some (h, Proc x) \<Longrightarrow> ob_name h \<noteq> name) \<Longrightarrow> lookup_functor name ty s = Ok 0"
  using assms(3) find_named [OF assms(1,2)] find_unnamed [OF assms(1,2)] live_objects(4) [OF assms(1)]
  by (auto simp: lookup_functor_def arax_proc_get_functor_def arax_accel_valid_type_def get_proc_def)

lemma register_new:
  assumes "seg_ok env exact {} s" and "arax_object_register env ty name sz 1 s = Ok (p, s1)" and "p \<noteq> 0"
  shows "objects s p = None"
proof -
  obtain t al where "mspace_malloc (mspace env) (allocator (s\<lparr>throttle := t\<rparr>)) sz = Ok (p, al)"
    using assms(2,3) by (auto simp: arax_object_register_def arax_pipe_size_dec_def arch_alloc_allocate_def res_simps Let_def split: if_splits)
  then have "p \<notin> live_blocks (al_root (allocator s))" using mspace_okD(2) [of "mspace env"] assms(1,3) by (fastforce simp: seg_ok_def)
  then show ?thesis using assms(1) by (auto simp: seg_ok_def seg_inv_def memory_inv_def)
qed

lemma register_proc:
  assumes ok: "seg_ok env exact {} s" "procs_ok s" and reg: "arax_proc_register env name s = Ok (p, s1)" "p \<noteq> 0"
    and name: "length name < object_name_size env"
  shows "seg_ok env exact {} s1" and "procs_ok s1" and "shows_table T s \<Longrightarrow> shows_table T s1"
    and "\<exists>h x. objects s1 p = Some (h, Proc x) \<and> ob_name h = name"
proof -
  show ok1: "seg_ok env exact {} s1" by (rule soundD(2) [OF seg_env.creates(3) [OF ok(1)] reg(1)])
  have "procs_ok s1 \<and> (shows_table T s \<longrightarrow> shows_table T s1) \<and> (\<exists>h x. objects s1 p = Some (h, Proc x) \<and> ob_name h = name)"
  proof (cases "\<exists>q h x. objects s q = Some (h, Proc x) \<and> ob_name h = name")
    case True
    then obtain q h x where q: "objects s q = Some (h, Proc x)" "ob_name h = name" by blast
    then have "s1 = s \<and> p = q" using reg find_named [OF ok q(1)] live_objects(4) [OF ok(1) q(1)] by (simp add: arax_proc_register_def)
    with q ok(2) show ?thesis by blast
  next
    case False
    then have fresh: "arax_pipe_find_proc name s = Ok (0, s)" using find_unnamed [OF ok] by blast
    let ?h = "\<lparr>alloc_size = sizeof_proc env, ob_type = ARAX_TYPE_PROC, ref_count = 1, ob_name = name\<rparr>"
    let ?x = "\<lparr>canrun = 0, functors = replicate (unat ARAX_ACCEL_TYPES) 0\<rparr>"
    have "objects s1 = (objects s)(p \<mapsto> (?h, Proc ?x)) \<and> repo_lock s1 ARAX_TYPE_PROC = 0"
      using fresh reg name
      by (auto simp: arax_proc_register_def arax_proc_init_def arax_object_register_def object_name_def res_simps Let_def
          arax_pipe_size_dec_def arax_object_list_lock_def arax_object_list_unlock_def split: if_splits)
    then have s1: "objects s1 = (objects s)(p \<mapsto> (?h, Proc ?x))" "repo_lock s1 ARAX_TYPE_PROC = 0" by blast+
    have "arax_object_register env ARAX_TYPE_PROC name (sizeof_proc env) 1 s = Ok (p, s1)"
      using reg(1) fresh by (simp add: arax_proc_register_def arax_proc_init_def)
    from register_new [OF ok(1) this reg(2)] have new: "objects s p = None" .
    have procs: "procs_ok s1" using ok(2) False s1 new unfolding procs_ok_def by (auto split: if_splits)
    have "lookup_functor nm ty s1 = lookup_functor nm ty s" if ty: "ty < ARAX_ACCEL_TYPES" for nm ty
    proof (cases "\<exists>q h x. objects s q = Some (h, Proc x) \<and> ob_name h = nm")
      case True
      then obtain q h x where q: "objects s q = Some (h, Proc x)" "ob_name h = nm" by blast
      moreover have "objects s1 q = Some (h, Proc x)" using q(1) new s1(1) by auto
      ultimately show ?thesis using lookup_functor_iff(1) [OF ok ty] lookup_functor_iff(1) [OF ok1 procs ty] by metis
    next
      case old: False
      have "lookup_functor nm ty s1 = Ok 0"
      proof (cases "nm = name")
        case True
        have "replicate (unat ARAX_ACCEL_TYPES) 0 ! unat ty = (0 :: addr)" using ty by (simp add: word_less_nat_alt)
        with lookup_functor_iff(1) [OF ok1 procs ty, of p ?h ?x] s1(1) True show ?thesis by simp
      qed (rule lookup_functor_iff(2) [OF ok1 procs ty], use old s1(1) in \<open>auto split: if_splits\<close>)
      then show ?thesis using lookup_functor_iff(2) [OF ok ty, of nm] old by metis
    qed
    with procs s1(1) show ?thesis by (simp add: shows_table_def)
  qed
  then show "procs_ok s1" "shows_table T s \<Longrightarrow> shows_table T s1" "\<exists>h x. objects s1 p = Some (h, Proc x) \<and> ob_name h = name" by blast+
qed

lemma set_functor_table:
  assumes ok: "seg_ok env exact {} s" "procs_ok s" and ty: "ty < ARAX_ACCEL_TYPES" and p: "objects s p = Some (h, Proc x)"
    and set: "arax_proc_set_functor p ty f s = Ok (old, s1)" and T: "shows_table T s"
  shows "seg_ok env exact {} s1" and "procs_ok s1" and "shows_table (T(ob_name h := (T (ob_name h))(ty := f))) s1"
proof -
  show ok1: "seg_ok env exact {} s1" by (rule seg_api.run_keeps [OF run_call [OF run_start call_functor [OF set]] ok(1)])
  let ?x = "x\<lparr>functors := (functors x)[unat ty := f], canrun := canrun x OR push_bit (unat ty) 1\<rparr>"
  have s1: "objects s1 = (objects s)(p \<mapsto> (h, Proc ?x))" "repo_lock s1 = repo_lock s"
    using set p by (auto simp: arax_proc_set_functor_def res_simps get_proc_def set_body_def)
  show procs: "procs_ok s1" using ok(2) p s1 unfolding procs_ok_def by (auto split: if_splits)
  have len: "length (functors x) = unat ARAX_ACCEL_TYPES" using ok(2) p unfolding procs_ok_def by blast
  have "lookup_functor nm t s1 = Ok ((T(ob_name h := (T (ob_name h))(ty := f))) nm t)" if t: "t < ARAX_ACCEL_TYPES" for nm t
  proof (cases "nm = ob_name h")
    case True
    have "lookup_functor nm t s1 = Ok (functors ?x ! unat t)" using lookup_functor_iff(1) [OF ok1 procs t, of p h ?x] s1 True by simp
    moreover have "T nm t = functors x ! unat t" using lookup_functor_iff(1) [OF ok t p] T t True by (simp add: shows_table_def)
    ultimately show ?thesis using True len ty t by (auto simp: nth_list_update word_less_nat_alt word_unat_eq_iff)
  next
    case False
    have "lookup_functor nm t s1 = lookup_functor nm t s"
    proof (cases "\<exists>q g y. objects s q = Some (g, Proc y) \<and> ob_name g = nm")
      case True
      then obtain q g y where q: "objects s q = Some (g, Proc y)" "ob_name g = nm" by blast
      then have "objects s1 q = Some (g, Proc y)" using p s1(1) False by auto
      with q show ?thesis using lookup_functor_iff(1) [OF ok t] lookup_functor_iff(1) [OF ok1 procs t] by metis
    next
      case none: False
      then have "ob_name g \<noteq> nm" if "objects s1 q = Some (g, Proc y)" for q g y using that s1(1) False by (auto split: if_splits)
      with none show ?thesis using lookup_functor_iff(2) [OF ok t, of nm] lookup_functor_iff(2) [OF ok1 procs t, of nm] by metis
    qed
    then show ?thesis using T t False by (simp add: shows_table_def)
  qed
  then show "shows_table (T(ob_name h := (T (ob_name h))(ty := f))) s1" by (simp add: shows_table_def)
qed

lemma load_defs_table:
  assumes "load_defs env defs km s = Ok (km', s')" and "seg_ok env exact {} s" and "procs_ok s" and "shows_table T s"
    and "\<forall>d\<in>set defs. length (def_name d) < object_name_size env"
  shows "seg_ok env exact {} s' \<and> procs_ok s' \<and> shows_table (fold define_proc defs T) s'"
  using assms
proof (induction defs arbitrary: km s T)
  case (Cons d ds)
  show ?case
  proof (cases "def_type d \<ge> ARAX_ACCEL_TYPES")
    case True
    with Cons.prems have "load_defs env ds km s = Ok (km', s')" by simp
    from Cons.IH [OF this Cons.prems(2,3,4)] Cons.prems(5) True show ?thesis by (simp add: define_proc_def)
  next
    case False
    then have ty: "def_type d < ARAX_ACCEL_TYPES" by simp
    obtain p s1 old s2 km2 where
      reg: "arax_proc_register env (def_name d) s = Ok (p, s1)" and
      set: "arax_proc_set_functor p (def_type d) (def_functor d) s1 = Ok (old, s2)" and
      rest: "load_defs env ds km2 s2 = Ok (km', s')"
      using Cons.prems(1) False by (auto simp: res_simps split: option.splits)
    have len: "length (def_name d) < object_name_size env" using Cons.prems(5) by simp
    have s1: "seg_ok env exact {} s1" by (rule soundD(2) [OF seg_env.creates(3) [OF Cons.prems(2)] reg])
    have "p \<noteq> 0" using set live_objects(4) [OF s1]
      by (auto simp: arax_proc_set_functor_def arax_proc_get_functor_def get_proc_def res_simps split: option.splits)
    note r = register_proc [OF Cons.prems(2,3) reg this len]
    from r(4) obtain h x where h: "objects s1 p = Some (h, Proc x)" "ob_name h = def_name d" by blast
    note f = set_functor_table [OF r(1,2) ty h(1) set r(3) [OF Cons.prems(4)]]
    have "define_proc d T = T(ob_name h := (T (ob_name h))(def_type d := def_functor d))" using False h(2) by (simp add: define_proc_def)
    with f(3) have "shows_table (define_proc d T) s2" by metis
    from Cons.IH [OF rest f(1,2) this] Cons.prems(5) show ?thesis by simp
  qed
qed simp

section \<open>Loading is a run of the library\<close>

lemma load_defs_runs: "load_defs env defs km s = Ok (km', s') \<Longrightarrow> arax_run env s s'"
proof (induction defs arbitrary: km s)
  case (Cons d ds)
  show ?case
  proof (cases "def_type d \<ge> ARAX_ACCEL_TYPES")
    case False
    then obtain p s1 old s2 km2 where
      reg: "arax_proc_register env (def_name d) s = Ok (p, s1)" and
      set: "arax_proc_set_functor p (def_type d) (def_functor d) s1 = Ok (old, s2)" and
      rest: "load_defs env ds km2 s2 = Ok (km', s')"
      using Cons.prems by (auto simp: res_simps split: option.splits)
    show ?thesis
      by (rule run_trans [OF Cons.IH [OF rest] run_call [OF run_call [OF run_start call_proc_register [OF reg]] call_functor [OF set]]])
  qed (use Cons in simp)
qed (auto intro: run_start)

text \<open>What a call of the loader leaves behind.\<close>

definition loads :: "arax_env \<Rightarrow> AraxLibMgr \<Rightarrow> arax_pipe_s \<Rightarrow> ((bool \<times> AraxLibMgr \<times> KernelMap) \<times> arax_pipe_s) res \<Rightarrow> bool" where
  "loads env m s r \<longleftrightarrow> (case r of Ok ((b, m', km'), s') \<Rightarrow> arax_run env s s' \<and> procs m' = procs m | Fault e \<Rightarrow> True)"

lemma loads_Ok: "procs m' = procs m \<Longrightarrow> loads env m s (Ok ((b, m', km), s))"
  by (simp add: loads_def run_start)

lemma loads_procs: "procs m = procs m1 \<Longrightarrow> loads env m1 s r \<Longrightarrow> loads env m s r"
  by (auto simp: loads_def split: res.splits)

lemma loads_bind:
  assumes "loads env m s r" and "\<And>b m1 km1 s1. r = Ok ((b, m1, km1), s1) \<Longrightarrow> loads env m1 s1 (k b m1 km1 s1)"
  shows "loads env m s (rbind r (\<lambda>((b, m1, km1), s1). k b m1 km1 s1))"
  using assms by (fastforce simp: loads_def split: res.splits intro: run_trans)

lemma loadLibrary_loads: "loads env m s (loadLibrary env rt f (m, km) s)"
  by (auto simp: loads_def loadLibrary_def res_simps Let_def split: res.split option.split intro: run_start dest: load_defs_runs)

lemma loadFolder_loads:
  "loads env (fst x) s (loadFolder env rt wd path d x s)" "loads env (fst y) s (load_entries env rt wd path es y s)"
proof (induction env rt wd path d x s and env rt wd path es y s rule: loadFolder_load_entries.induct)
  case (4 env rt wd path d_name d es m km s)
  show ?case
  proof (cases "d_name \<noteq> [] \<and> hd d_name = CHR ''.''")
    case False
    let ?lib = "path @ ''/'' @ d_name"
    have "loads env m s (rbind (loadFolder env rt wd ?lib d (m, km) s) (\<lambda>((loaded, m, km), s).
        if loaded then load_entries env rt wd path es (m, km) s
        else rbind (loadLibrary env rt ?lib (m, km) s) (\<lambda>((_, m, km), s). load_entries env rt wd path es (m, km) s)))"
    proof (rule loads_bind)
      show "loads env m s (loadFolder env rt wd ?lib d (m, km) s)" using 4(2) [OF False refl] by simp
      fix l m1 km1 s1
      assume f: "loadFolder env rt wd ?lib d (m, km) s = Ok ((l, m1, km1), s1)"
      show "loads env m1 s1 (if l then load_entries env rt wd path es (m1, km1) s1
        else rbind (loadLibrary env rt ?lib (m1, km1) s1) (\<lambda>((_, m, km), s). load_entries env rt wd path es (m, km) s))"
      proof (cases l)
        case l: False
        have "loads env m2 s2 (load_entries env rt wd path es (m2, km2) s2)"
          if "loadLibrary env rt ?lib (m1, km1) s1 = Ok ((k, m2, km2), s2)" for k m2 km2 s2
          using 4(4) [OF False refl f refl refl refl l that refl refl refl] by simp
        then have "loads env m1 s1 (rbind (loadLibrary env rt ?lib (m1, km1) s1) (\<lambda>((_, m, km), s). load_entries env rt wd path es (m, km) s))"
          by (rule loads_bind [OF loadLibrary_loads])
        with l show ?thesis by (simp only: if_False)
      qed (use 4(3) [OF False refl f refl refl refl] in simp)
    qed
    with False show ?thesis by (simp only: load_entries.simps Let_def fst_conv if_False)
  qed (use 4(1) in simp)
qed (auto simp: loads_Ok elim!: loads_procs [rotated])

lemma load_paths_loads: "loads env m s (load_paths env rt wd fs ps (m, km) s)"
proof (induction ps arbitrary: m km s)
  case (Cons p ps)
  show ?case unfolding load_paths.simps
    by (rule loads_bind [OF loadFolder_loads(1) [of env "(m, km)", unfolded fst_conv]]) (simp add: Cons.IH loads_Ok)
qed (simp add: loads_Ok)

section \<open>The properties\<close>

text \<open>C19. A library is a list of updates of the table of procedures. When a library that was not known yet is loaded, afterwards a
  client finds, under every name and every type of accelerator, the functor of the last definition for them in the library,
  or what was found before when the library has none; definitions for types that do not exist are passed over.\<close>

theorem loader_table:
  assumes "seg_ok env exact {} s" and "procs_ok s" and "shows_table T s"
    and "has_so file" and "map_of (libs m) file = None" and "dlopen rt file \<noteq> 0" and "dlsym rt (dlopen rt file) = Some defs"
    and "\<forall>d\<in>set defs. length (def_name d) < object_name_size env"
    and "loadLibrary env rt file (m, km) s = Ok ((b, m', km'), s')"
  shows "b \<and> procs_ok s' \<and> shows_table (fold define_proc defs T) s'"
proof -
  from assms(4-7,9) have "load_defs env defs km s = Ok (km', s')" "b" by (auto simp: loadLibrary_def Let_def res_simps)
  with load_defs_table [OF this(1) assms(1,2,3,8)] show ?thesis by blast
qed

text \<open>An example: one library in one folder.\<close>

definition demo_rtld :: rtld where
  "demo_rtld = \<lparr>dlopen = (\<lambda>f. if f = ''/lib/noop.so'' then 1 else 0),
     dlsym = (\<lambda>h. if h = 1 then Some [\<lparr>def_name = ''noop'', def_type = CPU, def_max_type = ARAX_ACCEL_TYPES, def_functor = 77, def_arg_size = 0\<rparr>,
       \<lparr>def_name = ''late'', def_type = 12, def_max_type = 13, def_functor = 78, def_arg_size = 0\<rparr>] else None)\<rparr>"

definition demo_folder :: "string \<Rightarrow> dirent" where
  "demo_folder p = (if p = ''/lib'' then Dir [(''..'', No_dir), (''noop.so'', No_dir), (''readme'', No_dir)] else No_dir)"

lemma demo_load:
  assumes "map_of (libs m0) ''/lib/noop.so'' = None"
  shows "\<exists>m km s x. loadLibrary demo_env demo_rtld ''/lib/noop.so'' (m0, km0) demo_boot = Ok ((True, m, km), s) \<and>
    objects s 4096 = Some (fst demo_proc, Proc x) \<and> processes s = 1"
proof -
  note f = pipe_init_fresh [OF demo_boot]
  have ok: "seg_ok demo_env False {} demo_boot" by (rule pipe_init_ok [OF demo_boot demo_mspace_ok(1)]) simp
  have lock: "repo_lock demo_boot ARAX_TYPE_PROC = 0" using f by simp
  obtain q where "arax_pipe_find_proc ''noop'' demo_boot = Ok (q, demo_boot)" "q = 0"
    using dir.find_proc [OF ok lock, of "''noop''"] f by (auto split: if_splits)
  moreover obtain s1 where "arax_proc_init demo_env ''noop'' demo_boot = Ok (4096, s1)" "objects s1 4096 = Some demo_proc" "processes s1 = 1"
    using demo_proc_ok [OF demo_boot] demo_init demo_boot by auto
  ultimately have s1: "arax_proc_register demo_env ''noop'' demo_boot = Ok (4096, s1)" "objects s1 4096 = Some demo_proc" "processes s1 = 1"
    by (simp_all add: arax_proc_register_def)
  have c: "has_so ''/lib/noop.so''" "arax_accel_valid_type CPU" by code_simp+
  with s1 assms show ?thesis
    by (simp add: loadLibrary_def demo_rtld_def arax_proc_set_functor_def arax_proc_get_functor_def get_proc_def demo_proc_def
        set_body_def arax_accel_type_to_str_def ARAX_ACCEL_TYPES_def CPU_def)
qed

lemma demo_procs:
  "seg_ok demo_env False {} demo_boot" "procs_ok demo_boot" "shows_table (\<lambda>_ _. 0) demo_boot"
proof -
  note f = pipe_init_fresh [OF demo_boot]
  show ok: "seg_ok demo_env False {} demo_boot" by (rule pipe_init_ok [OF demo_boot demo_mspace_ok(1)]) simp
  show procs: "procs_ok demo_boot" using f by (simp add: procs_ok_def)
  show "shows_table (\<lambda>_ _. 0) demo_boot" unfolding shows_table_def using lookup_functor_iff(2) [OF ok procs] f by auto
qed

theorem loader_table_witness:
  "\<exists>m km s. loadLibrary demo_env demo_rtld ''/lib/noop.so'' (new_AraxLibMgr, \<lparr>krnl_state = [], krnl_archs = []\<rparr>) demo_boot = Ok ((True, m, km), s) \<and>
     lookup_functor ''noop'' CPU s = Ok 77 \<and> lookup_functor ''noop'' GPU s = Ok 0"
proof -
  have new: "map_of (libs new_AraxLibMgr) ''/lib/noop.so'' = None" by (simp add: new_AraxLibMgr_def)
  from demo_load [OF new] obtain m km s where
    s: "loadLibrary demo_env demo_rtld ''/lib/noop.so'' (new_AraxLibMgr, \<lparr>krnl_state = [], krnl_archs = []\<rparr>) demo_boot = Ok ((True, m, km), s)" by blast
  have so: "has_so ''/lib/noop.so''" by code_simp
  obtain defs where defs: "dlsym demo_rtld (dlopen demo_rtld ''/lib/noop.so'') = Some defs" "dlopen demo_rtld ''/lib/noop.so'' \<noteq> 0"
    "\<forall>d\<in>set defs. length (def_name d) < object_name_size demo_env" "fold define_proc defs (\<lambda>_ _. 0) ''noop'' CPU = 77"
    "fold define_proc defs (\<lambda>_ _. 0) ''noop'' GPU = 0"
    by (simp add: demo_rtld_def demo_env_def define_proc_def ARAX_ACCEL_TYPES_def CPU_def GPU_def)
  have "CPU < ARAX_ACCEL_TYPES" "GPU < ARAX_ACCEL_TYPES" by code_simp+
  with loader_table [OF demo_procs so new defs(2,1,3) s] s defs(4,5) show ?thesis by (auto simp: shows_table_def)
qed

text \<open>Loading keeps the segment: whatever is found in the folders of the configuration, a segment in order is still so after they
  are loaded. And unloading gives nothing back: no procedure is ever put on the list of \<open>unloadLibraries\<close>, so the segment
  with its procedures stays as it is.\<close>

theorem loader_keeps_segment:
  assumes "seg_ok env exact {} s" and "load_paths env rt wd fs ps (new_AraxLibMgr, km) s = Ok ((b, m, km'), s')"
  shows "seg_ok env exact {} s' \<and> unloadLibraries n env m s' = Ok (m\<lparr>libs := []\<rparr>, s')"
proof -
  from load_paths_loads [of env new_AraxLibMgr s rt wd fs ps km] assms(2) have "arax_run env s s'" "procs m = []"
    by (simp_all add: loads_def new_AraxLibMgr_def)
  then show ?thesis using seg_api.run_keeps [OF _ assms(1)] by (simp add: unloadLibraries_def)
qed

lemma demo_paths:
  "\<exists>m km s x. load_paths demo_env demo_rtld (\<lambda>_. 1) demo_folder [''/lib''] (new_AraxLibMgr, \<lparr>krnl_state = [], krnl_archs = []\<rparr>) demo_boot =
     Ok ((True, m, km), s) \<and> objects s 4096 = Some (fst demo_proc, Proc x) \<and> processes s = 1"
proof -
  let ?m = "new_AraxLibMgr\<lparr>lib_fd_paths := [(1, ''/lib'')], lib_paths := [''/lib'']\<rparr>"
  have "map_of (libs ?m) ''/lib/noop.so'' = None" by (simp add: new_AraxLibMgr_def)
  from demo_load [OF this] obtain m km s x where
    s: "loadLibrary demo_env demo_rtld ''/lib/noop.so'' (?m, \<lparr>krnl_state = [], krnl_archs = []\<rparr>) demo_boot = Ok ((True, m, km), s)"
      "objects s 4096 = Some (fst demo_proc, Proc x)" "processes s = 1" by blast
  have m: "lib_paths m = [''/lib'']" using s(1) by (auto simp: loadLibrary_def Let_def res_simps split: if_splits option.splits)
  have "\<not> has_so ''/lib/readme''" by code_simp
  then have r: "loadLibrary demo_env demo_rtld ''/lib/readme'' (m, km) s = Ok ((False, m, km), s)" by (simp add: loadLibrary_def)
  have "load_paths demo_env demo_rtld (\<lambda>_. 1) demo_folder [''/lib''] (new_AraxLibMgr, \<lparr>krnl_state = [], krnl_archs = []\<rparr>) demo_boot = Ok ((True, m, km), s)"
    using s(1) r m by (simp add: demo_folder_def new_AraxLibMgr_def Let_def)
  with s(2,3) show ?thesis by blast
qed

theorem loader_keeps_segment_witness:
  "\<exists>m km s. load_paths demo_env demo_rtld (\<lambda>_. 1) demo_folder [''/lib''] (new_AraxLibMgr, \<lparr>krnl_state = [], krnl_archs = []\<rparr>) demo_boot =
     Ok ((True, m, km), s) \<and> seg_ok demo_env False {} s \<and> unloadLibraries 1 demo_env m s = Ok (m\<lparr>libs := []\<rparr>, s)"
proof -
  obtain m km s where s: "load_paths demo_env demo_rtld (\<lambda>_. 1) demo_folder [''/lib''] (new_AraxLibMgr, \<lparr>krnl_state = [], krnl_archs = []\<rparr>)
    demo_boot = Ok ((True, m, km), s)" using demo_paths by blast
  with loader_keeps_segment [OF demo_procs(1) s] show ?thesis by blast
qed

end
