(* ===== verification/Main_Thread.thy ===== *)
theory Main_Thread
  imports Startup Loader
begin

text \<open>
  The main thread of the controller (\<open>main\<close> of \<open>controller/src/Core/arax_controller.cpp\<close>): from the command line to the point
  where the threads are made, the wait for a signal, and the end. The threads it starts run in between, by the rules of
  theory \<open>Controller\<close>; the run time loader has a rule of its own.

  The handler \<open>catch (exception *e)\<close> takes no exception the program throws, since all are thrown by value; so each of them ends the
  process. What is printed is left out, with the counts of served tasks that are only printed.
\<close>

section \<open>The start\<close>


record main_state =
  mn_vpipe :: addr
  mn_mgr :: AraxLibMgr
  mn_accels :: "nat list"
  mn_ctl :: controller_s





section \<open>The end\<close>


section \<open>The process\<close>

text \<open>
  The main thread spins until every thread is ready, lets applications in, sleeps until the signal, tells the threads to end and
  waits for them. \<open>over\<close> are the threads that are over: a thread that could not initialise its accelerator is over without ever
  having been ready.
\<close>

datatype main_phase = Spinning | Serving | Joining | Returned int

record process_s =
  phase :: main_phase
  main_locals :: main_state
  statics :: arax_state
  over :: "nat set"



section \<open>Threads that are ready stay so\<close>

definition proceeds :: "controller_s \<Rightarrow> controller_s \<Rightarrow> bool" where
  "proceeds c c' \<longleftrightarrow> length (cn_threads c') = length (cn_threads c) \<and> map accelthread (cn_accels c') = map accelthread (cn_accels c) \<and>
     (\<forall>th<length (cn_threads c). readyToServe (cn_threads c ! th) \<longrightarrow> readyToServe (cn_threads c' ! th))"


lemma proceeds_refl [simp]: "proceeds c c"
  by (simp add: proceeds_def)





lemma proceeds_more [simp]: "proceeds c (c1\<lparr>VAQPhys2accelThread := m\<rparr>) \<longleftrightarrow> proceeds c c1"
  "proceeds c (c1\<lparr>paccel_rr := r\<rparr>) \<longleftrightarrow> proceeds c c1" "proceeds c (c1\<lparr>cn_schedulers := ss\<rparr>) \<longleftrightarrow> proceeds c c1"
  by (simp_all add: proceeds_def)










text \<open>Every accelerator of the configuration has a thread.\<close>

definition threads_known :: "nat list \<Rightarrow> controller_s \<Rightarrow> bool" where
  "threads_known as c \<longleftrightarrow> (\<forall>a\<in>set as. a < length (cn_accels c) \<and> (\<exists>th<length (cn_threads c). accelthread (cn_accels c ! a) = Some th))"




definition main_inv :: "process_s \<Rightarrow> bool" where
  "main_inv p \<longleftrightarrow> (let as = mn_accels (main_locals p); c = mn_ctl (main_locals p) in
     threads_known as c \<and> (phase p \<noteq> Spinning \<longrightarrow> all_ready as c))"


lemma main_inv_fields:
  "main_inv (p\<lparr>statics := st, phase := Returned r\<rparr>) \<longleftrightarrow> main_inv (p\<lparr>phase := Joining\<rparr>)" "main_inv (p\<lparr>over := ths\<rparr>) \<longleftrightarrow> main_inv p"
  "main_inv (p\<lparr>main_locals := (main_locals p)\<lparr>mn_mgr := m\<rparr>\<rparr>) \<longleftrightarrow> main_inv p"
  by (simp_all add: main_inv_def)




section \<open>The properties\<close>












end
