(* ===== verification/Spec2Isabelle.thy ===== *)
theory Spec2Isabelle
  imports Ivshmem Gpu Main_Thread
begin

text \<open>
  A verification of the C library \<open>arax\<close>: the shared memory runtime through which applications hand tasks for
  accelerators to a controller process. Applications and controller map the same segment. The library keeps
  in it an allocator, reference counted objects (physical and virtual accelerators, procedures, data buffers,
  tasks), one list of objects per type, and a throttle that bounds the memory in use. An application acquires a
  virtual accelerator, fills buffers, issues tasks into the queue of the virtual accelerator and waits; the
  controller assigns virtual to physical accelerators, takes tasks out of the queues and marks them done.

  \<^bold>\<open>The model.\<close> A function of the source is a function of the same name. The segment is the record \<open>arax_pipe_s\<close>,
  passed in and returned; objects are a map from addresses to a header and a body; list nodes are symbolic names in
  a heap of links. A call returns \<open>Ok\<close> or a \<open>Fault\<close>: a failed assertion, an invalid access, a lock nobody will
  release, a sleep that needs another thread, or \<open>exit\<close>. Machine integers are words of their width.
  What the sources only call is a parameter: the allocators dlmalloc and tlsf (\<open>mspace_ops\<close>, \<open>tlsf_ops\<close>), the
  operating system (\<open>arax_os\<close>), what the build fixes (\<open>arax_env\<close>, \<open>arax_conf\<close>), what happens while an application sleeps
  (\<open>controller_fn\<close>), the backends of the controller (\<open>deviceBaseOps\<close>), the runtime of a GPU (\<open>gpu_rt\<close>), the dynamic linker and
  the JSON parser (\<open>rtld\<close>, \<open>me_parse\<close>).

  \<^bold>\<open>The parts\<close> (sources under \<open>src/src\<close> unless said otherwise).
  \<^item> \<open>Prelude\<close>: results, assertions (\<open>utils/arax_assert.c\<close>), bits of words.
  \<^item> \<open>Spinlock\<close> (\<open>utils/spinlock.h\<close>): mutual exclusion and progress of interleaved threads.
  \<^item> \<open>Bitmap\<close> (\<open>utils/bitmap.c\<close>): the page bitmap; allocations claim runs that were free, releases clear them.
  \<^item> \<open>Queue\<close> (\<open>utils/queue.c\<close>): the lock free task queue; a bounded list for one thread, first in first out for any
    interleaving of the loads and stores of its operations.
  \<^item> \<open>Linked_List\<close> (\<open>utils/list.c\<close>), \<open>Kv\<close> (\<open>utils/Kv.c\<close>): intrusive lists as sequences, the key-value store as a map.
  \<^item> \<open>Async\<close> (\<open>async/mutex\<close>, \<open>async/spin\<close>), \<open>Throttle\<close> (\<open>core/arax_throttle.c\<close>): completions, semaphores, conditions in both
    variants; the throttle for one thread and for any number of them, with no lost wake-up.
  \<^item> \<open>Ivshmem\<close> (\<open>async/ivshmem\<close>): the third variant, for virtual machines that share the segment, with its thread that serves
    interrupts.
  \<^item> \<open>Alloc\<close> (\<open>alloc/dlmalloc/alloc.c\<close>, \<open>alloc/tlsf/alloc.c\<close>): the layout of the segment, its pages, the wrappers.
  \<^item> \<open>Segment\<close> (\<open>include/arax_types.h\<close>, \<open>include/arax_pipe.h\<close>, \<open>core/*.h\<close>): the data model.
  \<^item> \<open>Object\<close> (\<open>core/arax_object.c\<close>), \<open>Pipe\<close> (\<open>core/arax_pipe.c\<close>), \<open>Accel\<close> (\<open>core/arax_accel.c\<close>, \<open>core/arax_vaccel.c\<close>), \<open>Accel_Types\<close>
    (\<open>core/arax_accel_types.c\<close>), \<open>Proc\<close> (\<open>core/arax_proc.c\<close>), \<open>Task\<close> (\<open>core/arax_task.c\<close>, \<open>core/arax_data.c\<close>): the operations on objects.
    Functions that drop references take the function that drops one as an argument there.
  \<^item> \<open>Destructors\<close> (\<open>dtor_table\<close> in \<open>core/arax_object.c\<close>) ties that knot: destructors drop references, so dropping one
    recurses through the table, with \<open>fuel\<close> as the bound of the recursion.
  \<^item> \<open>Config\<close> (\<open>utils/config.c\<close>), \<open>System\<close> (\<open>utils/system.c\<close>, \<open>utils/timer.h\<close>), \<open>Shm\<close> (\<open>arch/shm/impl.c\<close>, \<open>core/arax_ptr.c\<close>,
    \<open>utils/arax_plot.c\<close>): the configuration file, the system, and how processes attach to the segment and leave it.

  \<^bold>\<open>The controller\<close> (sources under \<open>src/controller\<close>).
  \<^item> \<open>Device\<close> (\<open>include/deviceBaseOps.h\<close>, \<open>src/Cpu\<close>): what the controller asks of the backend of an accelerator, and the backend of
    the CPU with its builtin procedures. The locale \<open>device\<close> is the interface: a backend uses the segment through the library.
  \<^item> \<open>Controller_Config\<close> (\<open>src/Core/Config.cpp\<close>, \<open>src/Core/Utilities.cpp\<close>, \<open>include/Factory.h\<close>): from a JSON value to accelerators, groups and
    schedulers.
  \<^item> \<open>Scheduler\<close> (\<open>src/Schedulers\<close>): the three policies of the build and the migration of data. \<open>Scheduling\<close> and \<open>Heterogeneous\<close> show
    what they select and that round robin is fair.
  \<^item> \<open>Controller\<close> (\<open>src/Core/accelThread.cpp\<close>, \<open>src/Core/VacBalancerThread.cpp\<close>, \<open>src/Core/arax_controller.cpp\<close>): the threads, one iteration
    at a time, and the relation \<open>controller_run\<close> in which they and other processes take turns.
  \<^item> \<open>Service\<close>: a task from its queue to its end on a CPU.
  \<^item> \<open>Gpu\<close> (\<open>src/Cuda\<close>, \<open>src/ROCm\<close>): the backends for GPUs over a runtime that only queues copies. They use the segment
    only through the library; under the contract \<open>gpu_rt_ok\<close> of the runtime what was set is what is got. A device with a memory
    and one stream (\<open>demo_gpu\<close>) meets that contract.
  \<^item> \<open>Loader\<close> (\<open>src/Core/araxLibMgr.cpp\<close>): libraries of procedures, when the controller starts and while it runs.
  \<^item> \<open>Startup\<close>: accelerators of an accepted configuration can be spawned, and a thread can be told to end.
    \<open>Main_Thread\<close> (\<open>main\<close> of \<open>src/Core/arax_controller.cpp\<close>) puts the process together, from its arguments to its end.

  \<^bold>\<open>The segment as a whole.\<close> \<open>Stable\<close> states, as locales, what a property of the segment has to tolerate for the functions of
  the library to keep it, and proves once that they do. \<open>Invariant\<close> is the invariant: memory accounts, types and
  counts, and lists that hold exactly the live objects; it also covers the moments when objects are being
  destroyed. \<open>Reclaim\<close> shows that dropping references keeps it and ends. \<open>Boot\<close> shows that the first process
  establishes it. \<open>Api\<close> is the relation of one call (\<open>arax_call\<close>) and of any sequence of calls (\<open>arax_run\<close>) of any
  processes, in which the controller may run while an application waits. \<open>Lifetime\<close> draws the consequences for the
  segment, \<open>Buffers\<close>, \<open>Directory\<close> and \<open>Dispatch\<close> those for buffers, lookups and tasks. The properties below are about
  runs of the whole library.

  \<^bold>\<open>Bounds.\<close> Loops that search lists, bitmaps or files are total functions. The only fuel is that of \<open>arax_object_ref_dec\<close>:
  more than twice the number of live objects is enough (\<open>ref_dec_terminates\<close>), since a data object can at most issue one
  task in its destructor and every other object only drops references.

  \<^bold>\<open>Interleaving.\<close> In \<open>arax_run\<close> calls of different threads follow each other. Steps of single loads and stores are modelled
  where the code synchronises: spinlock, queue, throttle. A call that would have to wait for another thread is a
  \<open>Fault\<close> with \<open>Blocked\<close>, except for waiting for tasks, where the controller is a parameter.

  \<^bold>\<open>Not modelled.\<close> The allocators dlmalloc and tlsf themselves and the JSON parser are third party code. Of the controller, the
  backends for OpenCL and SDA consist mostly of calls of vendor runtimes (what is proved for the parameter \<open>backend\<close> is about them too, if
  they meet the interface \<open>device\<close>); of those for GPUs the choice of the device and the preparation of its streams are
  left out, as are the schedulers that the build leaves out, the console output and the monitoring tool. Viewers, samples
  and tests use the interface only. Debug printing and the build variants with \<open>ARAX_REF_DEBUG\<close> and \<open>ARAX_THROTTLE_DEBUG\<close> are left out.
\<close>

section \<open>The properties\<close>

text \<open>C1. Wherever the calls of the processes of a segment lead, its memory is accounted for: the capacity is what
  the first process found behind the header, what the throttle reports as available and what the live objects
  were given add up to at most that, and to exactly that when the allocator never refuses a request the
  throttle let through. Every live object lies in a block of the allocator that was not given back.\<close>

theorem segment_memory_account:
  assumes "arax_pipe_init env mem sz e (zero_pipe env) = Ok (p, s0)" and "arax_run env s0 s" and "mspace_ok (mspace env)"
  shows "arax_pipe_get_total_size s = sz - sizeof_pipe env \<and>
    unat (arax_pipe_get_available_size s) + (\<Sum>a\<in>dom (objects s). object_size s a) \<le> unat (arax_pipe_get_total_size s) \<and>
    (mspace_never_null (mspace env) \<longrightarrow>
       unat (arax_pipe_get_available_size s) + (\<Sum>a\<in>dom (objects s). object_size s a) = unat (arax_pipe_get_total_size s)) \<and>
    dom (objects s) \<subseteq> live_blocks (al_root (allocator s))"
  using run_from_boot(1) [OF assms, of "mspace_never_null (mspace env)"] run_from_boot(2) [OF assms, of False]
  by (simp add: seg_ok_def seg_inv_def memory_inv_def space_def arax_pipe_get_total_size_def arax_pipe_get_available_size_def
      arax_throttle_get_total_size_def arax_throttle_get_available_size_def)

theorem segment_memory_account_witness:
  "arax_pipe_get_total_size demo_segment = 65280 \<and>
   unat (arax_pipe_get_available_size demo_segment) + (\<Sum>a\<in>dom (objects demo_segment). object_size demo_segment a) = 65280 \<and>
   dom (objects demo_segment) \<subseteq> live_blocks (al_root (allocator demo_segment))"
  using segment_memory_account [OF demo_boot demo_run] demo_mspace_ok by (simp add: demo_env_def)



text \<open>C5. The repository always lists exactly the live objects: the list of a type can be walked, has no
  duplicates, and holds the objects whose header has that type; the lengths of the lists add up to the
  number of live objects, so the function that closes the repository reports that number.\<close>

theorem segment_repository:
  assumes "arax_pipe_init env mem sz e (zero_pipe env) = Ok (p, s0)" and "arax_run env s0 s" and "mspace_ok (mspace env)"
  shows "(\<forall>ty\<in>set object_types. \<exists>as. repo_objects ty s = Ok as \<and> distinct as \<and>
      set as = {a. \<exists>h b. objects s a = Some (h, b) \<and> ob_type h = ty}) \<and>
    arax_object_repo_exit s = of_nat (card (dom (objects s)))"
proof
  have ok: "seg_ok env False {} s" using run_from_boot(1) [OF assms] by simp
  then have inv: "seg_inv False {} s" by (simp add: seg_ok_def)
  have list: "\<exists>as. repo_objects ty s = Ok as \<and> distinct as \<and> set as = {a. \<exists>h b. objects s a = Some (h, b) \<and> ob_type h = ty}"
    if "ty \<noteq> ARAX_TYPE_COUNT" for ty
    using repo_objects_inv [OF inv that] unfolding of_type_live [OF ok] by blast
  then show "\<forall>ty\<in>set object_types. \<exists>as. repo_objects ty s = Ok as \<and> distinct as \<and>
      set as = {a. \<exists>h b. objects s a = Some (h, b) \<and> ob_type h = ty}"
    by (intro ballI list) (auto simp: object_types_def)
  show "arax_object_repo_exit s = of_nat (card (dom (objects s)))"
    by (simp add: arax_object_repo_exit_def repo_lengths [OF ok, symmetric] object_types_def)
qed

theorem segment_repository_witness:
  "arax_object_repo_exit demo_segment = 2 \<and> (\<exists>as. repo_objects ARAX_TYPE_PROC demo_segment = Ok as \<and> distinct as \<and>
     set as = {a. \<exists>h b. objects demo_segment a = Some (h, b) \<and> ob_type h = ARAX_TYPE_PROC})"
  using segment_repository [OF demo_boot demo_run demo_mspace_ok(1)] demo_segment_objects by (simp add: object_types_def)

text \<open>C27. The tag in the header of a live object is always the kind of its contents, and its count is never zero: an
  object that nobody refers to is gone.\<close>

theorem segment_types:
  assumes "arax_pipe_init env mem sz e (zero_pipe env) = Ok (p, s0)" and "arax_run env s0 s" and "mspace_ok (mspace env)"
    and "objects s a = Some (h, b)"
  shows "ob_type h = body_type b \<and> ob_type h \<in> set object_types \<and> arax_object_refs a s \<noteq> Ok 0"
proof -
  have ok: "seg_ok env False {} s" using run_from_boot(1) [OF assms(1-3)] by simp
  from live_objects [OF ok assms(4)] show ?thesis using assms(4)
    by (cases "ob_type h") (auto simp: object_types_def arax_object_refs_def res_simps)
qed

theorem segment_types_witness:
  "case objects demo_segment 8192 of None \<Rightarrow> False
   | Some (h, b) \<Rightarrow> ob_type h = body_type b \<and> ob_type h \<in> set object_types \<and> arax_object_refs 8192 demo_segment \<noteq> Ok 0"
proof -
  obtain h b where o: "objects demo_segment 8192 = Some (h, b)" using demo_segment_objects by (metis domD insertCI surj_pair)
  from segment_types [OF demo_boot demo_run demo_mspace_ok(1) o] show ?thesis unfolding o option.case prod.case .
qed

text \<open>C26. Dropping a reference ends: on a segment that satisfies its invariant, however its objects refer to
  each other, the nested destructor calls stay within twice the number of live objects, and more room
  does not change the result.\<close>

theorem ref_dec_terminates:
  assumes "seg_ok env exact {} s" and "2 * card (dom (objects s)) < n"
  shows "\<exists>r. r \<noteq> Fault Out_of_fuel \<and> (\<forall>m\<ge>n. arax_object_ref_dec m env a s = r)"
proof -
  have fin: "finite (dom (objects s))" using assms(1) seg_inv_finite by (auto simp: seg_ok_def)
  let ?k = "burden {} s"
  have "?k < n" using burden_le [OF fin, of "{}"] assms(2) by simp
  moreover have "destroying env exact False {} {} ?k s" using assms(1) by (simp add: destroying_start)
  ultimately have "sound2 False (destroying env exact False {} {} ?k) (arax_object_ref_dec n env a s)"
    by (intro dying_ref_dec) simp_all
  from sound_fuel(2) [OF this] have "arax_object_ref_dec n env a s \<noteq> Fault Out_of_fuel" .
  with ref_dec_more_fuel [of n env a s] show ?thesis unfolding less_fuel_def by (metis le_iff_add)
qed

theorem ref_dec_terminates_witness:
  "\<exists>r. r \<noteq> Fault Out_of_fuel \<and> (\<forall>m\<ge>5. arax_object_ref_dec m demo_env 8192 demo_segment = r)"
  by (rule ref_dec_terminates [OF demo_segment_ok]) (simp add: demo_segment_objects)

text \<open>C7. What dropping a reference does when it returns: the result is the count it leaves behind, which was
  positive before; as long as references are left nothing but the count changes; with the last one the
  object is gone from the segment and from its list, its block is given back and nobody finds it any more.\<close>

theorem ref_dec_result:
  assumes ok: "seg_ok env exact {} s" and "arax_object_ref_dec n env a s = Ok (r, s')" and "objects s a = Some (h, b)"
  shows "0 < sint (ref_count h) \<and> r = ref_count h - 1 \<and>
    (if r = 0 then objects s' a = None \<and> a \<notin> live_blocks (al_root (allocator s')) \<and>
       (\<forall>ty\<in>set object_types. \<exists>as. repo_objects ty s' = Ok as \<and> a \<notin> set as)
     else s' = set_obj a (h\<lparr>ref_count := r\<rparr>) s)"
proof -
  obtain k where n: "n = Suc k" using assms(2) by (cases n) auto
  have get: "get_obj a s = Ok h" using assms(3) by (simp add: res_simps)
  note call = assms(2) [unfolded n arax_object_ref_dec.simps arax_object_ref_dec_with_def get]
  have pos: "0 < sint (ref_count h)" and r: "r = ref_count h - 1" using call by (auto simp: res_simps Let_def split: if_splits)
  show ?thesis
  proof (cases "r = 0")
    case False
    then have "s' = set_obj a (h\<lparr>ref_count := r\<rparr>) s" using call r
      by (cases s) (auto simp: res_simps Let_def arax_object_list_lock_def arax_object_list_unlock_def set_obj_def fun_upd_idem)
    with False pos r show ?thesis by simp
  next
    case True
    then obtain s1 s2 where s2: "object_reclaim env (dtor_table env (arax_object_ref_dec k env)) (ob_type h) a s1 = Ok s'"
      using call r by (auto simp: res_simps Let_def)
    from ok have m: "mspace_ok (mspace env)" by (simp add: seg_ok_def)
    from s2 have gone: "objects s' a = None" and free: "a \<notin> live_blocks (al_root (allocator s'))"
      using mspace_okD(3) [OF m] by (auto simp: object_reclaim_def res_simps arax_pipe_size_inc_def arch_alloc_free_def arch_alloc_free_fn_def)
    have ok': "seg_ok env exact {} s'" by (rule soundD(2) [OF seg_ref.ref_dec [OF ok] assms(2)])
    then have inv: "seg_inv exact {} s'" by (simp add: seg_ok_def)
    have "\<exists>as. repo_objects ty s' = Ok as \<and> a \<notin> set as" if "ty \<noteq> ARAX_TYPE_COUNT" for ty
      using repo_objects_inv [OF inv that] gone unfolding of_type_live [OF ok'] by auto
    with gone free pos r True show ?thesis by (auto simp: object_types_def)
  qed
qed

theorem ref_dec_result_witness:
  "case arax_object_ref_dec 1 demo_env 4096 demo_segment of Fault _ \<Rightarrow> False
   | Ok (r, s') \<Rightarrow> r = 0 \<and> objects s' 4096 = None \<and> 4096 \<notin> live_blocks (al_root (allocator s'))"
proof -
  obtain s1 where s1: "arax_object_ref_dec 1 demo_env 4096 demo_segment = Ok (0, s1)" using demo_release by blast
  obtain h b where "demo_proc = (h, b)" by fastforce
  then have "objects demo_segment 4096 = Some (h, b)" by (simp add: demo_segment_state)
  from ref_dec_result [OF demo_segment_ok s1 this] show ?thesis unfolding s1 by simp
qed



text \<open>For a process that came later the same check is wrong: it compares with what was available when that
  process attached. When there was an object then and every object has been released since, a process that is
  the last one to leave runs into the assertion, although nothing leaked.\<close>

theorem late_process_aborts:
  assumes "arax_pipe_init env mem sz e (zero_pipe env) = Ok (p, s0)" and "arax_run env s0 s1" and "arax_run env s1 s"
    and "mspace_ok (mspace env)" and "mspace_never_null (mspace env)"
    and "initialy_available st = arax_pipe_get_available_size s1" and "0 < object_size s1 a" and "objects s = Map.empty"
    and "vpipe st \<noteq> 0" and "threads st = 1" and "processes s = 1" and "destroy_mspace (mspace env) (allocator s) = Ok al"
  shows "arax_exit conf os env st s = Fault (Assert_failed ''available == arax_state.initialy_available'')"
proof -
  note r1 = run_from_boot [OF assms(1,2,4), where exact = True]
  have ok: "seg_ok env True {} s" using seg_api.run_keeps [OF assms(3) r1(1)] assms(5) by simp
  have c: "capacity (throttle s) = capacity (throttle s1)" using cap_api.run_keeps [OF assms(3), of "capacity (throttle s1)"]
    by (simp add: has_capacity_def)
  have "a \<in> dom (objects s1)" using assms(7) by (auto simp: object_size_def split: option.splits)
  then have "available (throttle s1) \<noteq> capacity (throttle s1)" using available_iff [OF r1(1)] assms(5,7) by auto
  moreover have "available (throttle s) = capacity (throttle s)" using available_iff [OF ok] assms(8) by simp
  ultimately have "available (throttle s) \<noteq> initialy_available st" using c assms(6)
    by (simp add: arax_pipe_get_available_size_def arax_throttle_get_available_size_def)
  then show ?thesis using assms(9-12)
    by (simp add: arax_exit_def arax_pipe_exit_def arax_pipe_del_process_def arch_alloc_exit_def Let_def
        arax_pipe_get_available_size_def arax_throttle_get_available_size_def)
qed

theorem late_process_aborts_witness:
  "\<exists>s. arax_run demo_env demo_segment s \<and> objects s = Map.empty \<and> (\<forall>conf os.
     arax_exit conf os demo_env (arax_state_init conf\<lparr>vpipe := 65536, threads := 1, initialy_available := 64787\<rparr>) s =
     Fault (Assert_failed ''available == arax_state.initialy_available''))"
proof -
  obtain s1 s2 where s: "arax_object_ref_dec 1 demo_env 4096 demo_segment = Ok (0, s1)" "arax_object_ref_dec 1 demo_env 8192 s1 = Ok (0, s2)"
    "objects s2 = Map.empty" "processes s2 = 1" using demo_release by blast
  have run: "arax_run demo_env demo_segment s2"
    by (rule run_call [OF run_call [OF run_start]], rule call_ref_dec [OF s(1)], rule call_ref_dec [OF s(2)])
  obtain al where al: "destroy_mspace (mspace demo_env) (allocator s2) = Ok al" by (simp add: demo_env_def demo_mspace_def)
  have "arax_exit conf os demo_env (arax_state_init conf\<lparr>vpipe := 65536, threads := 1, initialy_available := 64787\<rparr>) s2 =
      Fault (Assert_failed ''available == arax_state.initialy_available'')" for conf os
    by (rule late_process_aborts [OF demo_boot demo_run run demo_mspace_ok, where a = 4096 and al = al])
      (simp_all add: s al demo_segment_state demo_proc_def object_size_def arax_pipe_get_available_size_def
        arax_throttle_get_available_size_def)
  with run s(3) show ?thesis by blast
qed

text \<open>A registration that gets no block from the allocator returns null and registers nothing, but the bytes
  it took from the throttle stay taken: with every such failure less of the segment can be used.\<close>

theorem register_failure_leaks:
  assumes "arax_object_register env ty name sz refs s = Ok (0, s')" and "throttle_inv (throttle s)"
  shows "objects s' = objects s \<and> lists s' = lists s \<and> arax_pipe_get_total_size s' = arax_pipe_get_total_size s \<and>
    unat (arax_pipe_get_available_size s') = unat (arax_pipe_get_available_size s) - unat sz \<and>
    unat sz \<le> unat (arax_pipe_get_available_size s)"
proof -
  obtain t where t: "arax_throttle_size_dec (throttle s) sz = Ok t" "throttle s' = t" "objects s' = objects s" "lists s' = lists s"
    using assms(1) by (auto simp: arax_object_register_def arax_pipe_size_dec_def res_simps Let_def split: if_splits)
  from throttle_dec_Ok [OF assms(2) t(1)] t(2-4) show ?thesis
    by (simp add: arax_pipe_get_available_size_def arax_pipe_get_total_size_def arax_throttle_get_available_size_def
        arax_throttle_get_total_size_def)
qed

theorem register_failure_leaks_witness:
  "\<exists>env s'. arax_object_register env ARAX_TYPE_PROC ''noop'' 256 1 demo_segment = Ok (0, s') \<and>
     unat (arax_pipe_get_available_size demo_segment) = 64787 \<and> unat (arax_pipe_get_available_size s') = 64531"
proof -
  let ?env = "demo_env\<lparr>mspace := demo_mspace\<lparr>mspace_malloc := \<lambda>a _. Ok (0, a)\<rparr>\<rparr>"
  have inv: "throttle_inv (throttle demo_segment)" by (simp add: demo_segment_state throttle_inv_def)
  have "256 \<le> available (throttle demo_segment)" by (simp add: demo_segment_state)
  from throttle_dec_ok(1) [OF inv this] obtain s' where
    s: "arax_object_register ?env ARAX_TYPE_PROC ''noop'' 256 1 demo_segment = Ok (0, s')"
    by (simp add: arax_object_register_def arax_pipe_size_dec_def arch_alloc_allocate_def Let_def)
  have "unat (arax_pipe_get_available_size demo_segment) = 64787"
    by (simp add: demo_segment_state arax_pipe_get_available_size_def arax_throttle_get_available_size_def)
  with register_failure_leaks [OF s inv] s show ?thesis by (intro exI [of _ ?env] exI [of _ s']) simp
qed

end
